(* ===== verification/Prelude.thy ===== *)
theory Prelude
  imports Main "HOL-Library.Finite_Map" "HOL-Library.Word"
begin

text \<open>
  What every component of the development shares: the fact collections its proofs are run
  with, Go's maps as finite maps, Go's panicking results, and the generic list lemmas.

  A Go map \<open>map[K]V\<close> is a finite map \<open>('k, 'v) fmap\<close>: \<open>m[k]\<close> with the comma-ok form is
  \<open>fmlookup m k\<close>, \<open>m[k] = v\<close> is \<open>fmupd k v m\<close>, \<open>delete(m, k)\<close> is \<open>fmdrop k m\<close> and
  \<open>len(m)\<close> is \<open>map_len m\<close>. The order in which Go ranges over a map is not specified by the
  language; where the program ranges over one, the model takes the order as an argument.
\<close>

named_theorems go_defs \<open>definitions that a component's proofs unfold\<close>
named_theorems go_inv \<open>introduction rules: an operation keeps an invariant\<close>
named_theorems go_frame \<open>simplification rules: what an operation leaves alone\<close>

section \<open>Go maps\<close>

definition map_len :: "('k, 'v) fmap \<Rightarrow> nat" where
  "map_len m = fcard (fmdom m)"

text \<open>Reading a missing key of a map gives the zero value of the value type.\<close>

definition map_get :: "'v \<Rightarrow> ('k, 'v) fmap \<Rightarrow> 'k \<Rightarrow> 'v" where
  "map_get zero m k = (case fmlookup m k of None \<Rightarrow> zero | Some v \<Rightarrow> v)"

lemma map_get_upd [simp]:
  "map_get z (fmupd k v m) k' = (if k' = k then v else map_get z m k')"
  by (simp add: map_get_def)

lemma map_get_empty [simp]: "map_get z fmempty k = z"
  by (simp add: map_get_def)

lemma map_len_empty [simp]: "map_len fmempty = 0"
  by (simp add: map_len_def)

lemma map_len_upd_new: "k |\<notin>| fmdom m \<Longrightarrow> map_len (fmupd k v m) = Suc (map_len m)"
  by (simp add: map_len_def fcard_finsert_disjoint)

lemma map_len_upd_old: "k |\<in>| fmdom m \<Longrightarrow> map_len (fmupd k v m) = map_len m"
  by (simp add: map_len_def finsert_absorb)

lemma map_len_upd:
  "map_len (fmupd k v m) = (if k |\<in>| fmdom m then map_len m else Suc (map_len m))"
  by (simp add: map_len_upd_new map_len_upd_old)

lemma map_len_upd_lookup:
  "fmlookup m k = Some w \<Longrightarrow> map_len (fmupd k v m) = map_len m"
  by (simp add: map_len_upd_old fmlookup_dom_iff)

lemma map_len_eq_0 [simp]: "map_len m = 0 \<longleftrightarrow> m = fmempty"
proof
  assume "map_len m = 0"
  then have "fmdom m = {||}" by (simp add: map_len_def)
  then show "m = fmempty" by (intro fmap_ext) (simp add: fmdom_notD)
qed simp

text \<open>Ranging over some of the keys of a map.\<close>

lemma map_filter_total:
  "\<forall>x \<in> set xs. f x \<noteq> None \<Longrightarrow> List.map_filter f xs = map (the \<circ> f) xs"
  by (induction xs) (auto simp: map_filter_def)

lemma length_map_filter_le: "length (List.map_filter f xs) \<le> length xs"
  by (induction xs) (auto split: option.split)

lemma length_map_filter_iff:
  "length (List.map_filter f xs) = length xs \<longleftrightarrow> (\<forall>x \<in> set xs. f x \<noteq> None)"
proof (induction xs)
  case (Cons x xs)
  show ?case using Cons length_map_filter_le [of f xs] by (cases "f x") auto
qed simp

lemma set_map_filter_iff: "y \<in> set (List.map_filter f xs) \<longleftrightarrow> (\<exists>x \<in> set xs. f x = Some y)"
  by (induction xs) (auto split: option.split)

text \<open>An order in which Go may range over a map: every key once.\<close>

definition ranges :: "'k list \<Rightarrow> ('k, 'v) fmap \<Rightarrow> bool" where
  "ranges order m \<longleftrightarrow> distinct order \<and> set order = fset (fmdom m)"

section \<open>Results of code that may panic\<close>

text \<open>
  A Go function that mutates the state and may panic: either way it leaves a state behind,
  and a caller that recovers goes on from it.
\<close>

datatype 'm res = Done 'm | Panicked 'm

fun res_state :: "'m res \<Rightarrow> 'm" where
  "res_state (Done m) = m"
| "res_state (Panicked m) = m"

text \<open>Sequencing: what comes after a panic does not run.\<close>

fun res_then :: "'m res \<Rightarrow> ('m \<Rightarrow> 'm res) \<Rightarrow> 'm res" where
  "res_then (Done m) f = f m"
| "res_then (Panicked m) f = Panicked m"

lemma res_state_then:
  "P (res_state r) \<Longrightarrow> (\<And>m. P m \<Longrightarrow> P (res_state (f m))) \<Longrightarrow> P (res_state (res_then r f))"
  by (cases r) auto

text \<open>What a Go function returns: a value, an error (\<open>err != nil\<close>), or it panics.\<close>

datatype ('e, 'a) fallible = Ok 'a | Err 'e | Panic

fun fallible_then :: "('e, 'a) fallible \<Rightarrow> ('a \<Rightarrow> ('e, 'b) fallible) \<Rightarrow> ('e, 'b) fallible" where
  "fallible_then (Ok x) f = f x"
| "fallible_then (Err e) f = Err e"
| "fallible_then Panic f = Panic"

lemma fallible_then_eq:
  "fallible_then r f = Ok y \<longleftrightarrow> (\<exists>x. r = Ok x \<and> f x = Ok y)"
  "fallible_then r f = Panic \<longleftrightarrow> r = Panic \<or> (\<exists>x. r = Ok x \<and> f x = Panic)"
  by (cases r; simp)+

text \<open>How a goroutine comes out of a piece of code: it returns, waits on a channel or a lock, or panics.\<close>

datatype 's outcome = Returns 's | Blocks 's | Panics 's

fun outcome_then :: "'s outcome \<Rightarrow> ('s \<Rightarrow> 's outcome) \<Rightarrow> 's outcome" where
  "outcome_then (Returns s) f = f s"
| "outcome_then (Blocks s) f = Blocks s"
| "outcome_then (Panics s) f = Panics s"

fun outcome_state :: "'s outcome \<Rightarrow> 's" where
  "outcome_state (Returns s) = s"
| "outcome_state (Blocks s) = s"
| "outcome_state (Panics s) = s"

lemma outcome_state_then:
  "P (outcome_state r) \<Longrightarrow> (\<And>s. P s \<Longrightarrow> P (outcome_state (f s))) \<Longrightarrow> P (outcome_state (outcome_then r f))"
  by (cases r) auto

lemma outcome_then_assoc:
  "outcome_then (outcome_then r f) g = outcome_then r (\<lambda>s. outcome_then (f s) g)"
  by (cases r) simp_all

lemma outcome_then_Returns:
  "outcome_then r f = Returns s' \<longleftrightarrow> (\<exists>s. r = Returns s \<and> f s = Returns s')"
  by (cases r) auto

section \<open>Lists\<close>

lemma take_upd_at:
  "n < length xs \<Longrightarrow> take (Suc n) (xs[n := x]) = take n xs @ [x]"
  by (simp add: take_Suc_conv_app_nth)

lemma distinct_nth_unique:
  "distinct xs \<Longrightarrow> i < length xs \<Longrightarrow> j < length xs \<Longrightarrow> xs ! i = xs ! j \<Longrightarrow> i = j"
  by (simp add: nth_eq_iff_index_eq)

lemma remove1_nth:
  assumes "distinct xs" and "k < length xs"
  shows "remove1 (xs ! k) xs = take k xs @ drop (Suc k) xs"
proof -
  have split: "xs = take k xs @ xs ! k # drop (Suc k) xs"
    using assms(2) by (rule id_take_nth_drop)
  have "distinct (take k xs @ xs ! k # drop (Suc k) xs)"
    using assms(1) split by simp
  then have "xs ! k \<notin> set (take k xs)" by simp
  then have "remove1 (xs ! k) (take k xs @ xs ! k # drop (Suc k) xs)
      = take k xs @ drop (Suc k) xs"
    by (simp add: remove1_append)
  then show ?thesis using split by simp
qed

end
