(* ===== verification/GoSlice.thy ===== *)
theory GoSlice
  imports Prelude
begin

text \<open>
  Go slices of strings. A slice value is a header (backing array, length, capacity) and
  several headers may share a backing array, so the arrays live in an \<open>arena\<close>. Every slicing
  expression whose value the program keeps has the form \<open>s[:i]\<close>, so a header's offset into its
  array is always 0 and is left out. Array 0 is the empty array of the nil slice.

  The capacity that \<open>append\<close> gives a new array is not specified by the language: it is the
  argument \<open>grow\<close> (old capacity, needed length), taken to be at least the needed length.
\<close>

record slice =
  sbase :: nat
  slen :: nat
  scap :: nat

record arena =
  cells :: "nat \<Rightarrow> string list"
  fresh :: nat

type_synonym growth = "nat \<Rightarrow> nat \<Rightarrow> nat"

definition nil_slice :: slice where
  "nil_slice = \<lparr>sbase = 0, slen = 0, scap = 0\<rparr>"

definition empty_arena :: arena where
  "empty_arena = \<lparr>cells = (\<lambda>_. []), fresh = 1\<rparr>"

text \<open>The elements a header shows: \<open>s[0], ..., s[len(s)-1]\<close>.\<close>

definition elems :: "arena \<Rightarrow> slice \<Rightarrow> string list" where
  "elems a s = take (slen s) (cells a (sbase s))"

text \<open>\<open>append(s, x)\<close>: in place while there is room, otherwise into a new array.\<close>

definition go_append :: "growth \<Rightarrow> string \<Rightarrow> arena \<Rightarrow> slice \<Rightarrow> arena \<times> slice" where
  "go_append grow x a s =
     (if slen s < scap s then
        (a\<lparr>cells := (cells a)(sbase s := (cells a (sbase s))[slen s := x])\<rparr>,
         s\<lparr>slen := Suc (slen s)\<rparr>)
      else
        (let c = max (Suc (slen s)) (grow (scap s) (Suc (slen s))); r = fresh a
         in (a\<lparr>cells := (cells a)(r := elems a s @ x # replicate (c - Suc (slen s)) []),
               fresh := Suc r\<rparr>,
             \<lparr>sbase = r, slen = Suc (slen s), scap = c\<rparr>)))"

text \<open>
  \<open>append(s[:i], s[i+1:]...)\<close>: the elements from \<open>i+1\<close> on are copied one place to the left, in
  the same array (there is always room); a cut past the length panics.
\<close>

definition go_cut :: "nat \<Rightarrow> arena \<Rightarrow> slice \<Rightarrow> (arena \<times> slice) option" where
  "go_cut i a s =
     (if i \<le> scap s \<and> Suc i \<le> slen s then
        (let A = cells a (sbase s)
         in Some (a\<lparr>cells := (cells a)(sbase s :=
                   take i A @ take (slen s - Suc i) (drop (Suc i) A) @ drop (slen s - 1) A)\<rparr>,
                  s\<lparr>slen := slen s - 1\<rparr>))
      else None)"

text \<open>\<open>s[:i]\<close>: allowed up to the capacity, so it can show elements past the length again.\<close>

definition go_reslice :: "nat \<Rightarrow> slice \<Rightarrow> slice option" where
  "go_reslice i s = (if i \<le> scap s then Some (s\<lparr>slen := i\<rparr>) else None)"

section \<open>Well-formed arenas and headers\<close>

definition wf_arena :: "arena \<Rightarrow> bool" where
  "wf_arena a \<longleftrightarrow> cells a 0 = [] \<and> 0 < fresh a"

definition wf_slice :: "arena \<Rightarrow> slice \<Rightarrow> bool" where
  "wf_slice a s \<longleftrightarrow> slen s \<le> scap s \<and> scap s = length (cells a (sbase s)) \<and> sbase s < fresh a"

lemma wf_empty_arena [simp]: "wf_arena empty_arena"
  by (simp add: wf_arena_def empty_arena_def)

lemma wf_nil_slice [simp]: "wf_arena a \<Longrightarrow> wf_slice a nil_slice"
  by (simp add: wf_arena_def wf_slice_def nil_slice_def)

lemma elems_nil [simp]: "elems a nil_slice = []"
  by (simp add: elems_def nil_slice_def)

lemma slen_nil [simp]: "slen nil_slice = 0"
  by (simp add: nil_slice_def)

lemma sbase_nil [simp]: "sbase nil_slice = 0"
  by (simp add: nil_slice_def)

lemma length_elems: "wf_slice a s \<Longrightarrow> length (elems a s) = slen s"
  by (auto simp: wf_slice_def elems_def)

lemma elems_nth: "i < slen s \<Longrightarrow> elems a s ! i = cells a (sbase s) ! i"
  by (simp add: elems_def)

lemma wf_slice_base0: "wf_arena a \<Longrightarrow> wf_slice a s \<Longrightarrow> sbase s = 0 \<Longrightarrow> slen s = 0"
  by (auto simp: wf_arena_def wf_slice_def)

section \<open>append\<close>

lemma elems_append:
  assumes "wf_slice a s" and "go_append grow x a s = (a', s')"
  shows "elems a' s' = elems a s @ [x]"
proof (cases "slen s < scap s")
  case True
  then show ?thesis
    using assms by (auto simp: go_append_def elems_def wf_slice_def take_upd_at)
next
  case False
  then have "slen s = scap s" using assms(1) by (simp add: wf_slice_def)
  then show ?thesis
    using assms False length_elems [OF assms(1)]
    by (auto simp: go_append_def Let_def elems_def [of a'])
qed

lemma append_wf:
  assumes "wf_arena a" and "wf_slice a s" and "go_append grow x a s = (a', s')"
  shows "wf_arena a'" and "wf_slice a' s'" and "0 < sbase s'"
proof -
  have "0 < sbase s'" and "wf_arena a'" and "wf_slice a' s'"
    using assms length_elems [OF assms(2)]
    by (cases "slen s < scap s";
        cases "sbase s = 0"; auto simp: go_append_def Let_def wf_slice_def wf_arena_def)+
  then show "wf_arena a'" and "wf_slice a' s'" and "0 < sbase s'" by auto
qed

lemma append_fresh_mono: "go_append grow x a s = (a', s') \<Longrightarrow> fresh a \<le> fresh a'"
  by (auto simp: go_append_def Let_def split: if_splits)

text \<open>The new header has either the old array or one that no header had before.\<close>

lemma append_base:
  "go_append grow x a s = (a', s') \<Longrightarrow> sbase s' = sbase s \<or> sbase s' = fresh a"
  by (auto simp: go_append_def Let_def split: if_splits)

lemma append_other:
  assumes "go_append grow x a s = (a', s')" and "wf_slice a t" and "sbase t \<noteq> sbase s"
  shows "cells a' (sbase t) = cells a (sbase t)"
  using assms by (auto simp: go_append_def Let_def wf_slice_def split: if_splits)

lemma append_cells0:
  assumes "go_append grow x a s = (a', s')" and "wf_arena a" and "wf_slice a s"
  shows "cells a' 0 = cells a 0"
  using assms by (auto simp: go_append_def Let_def wf_slice_def wf_arena_def split: if_splits)

lemma wf_slice_cong:
  "wf_slice a t \<Longrightarrow> length (cells a' (sbase t)) = length (cells a (sbase t)) \<Longrightarrow>
   fresh a \<le> fresh a' \<Longrightarrow> wf_slice a' t"
  by (auto simp: wf_slice_def)

lemma elems_cong: "cells a' (sbase t) = cells a (sbase t) \<Longrightarrow> elems a' t = elems a t"
  by (simp add: elems_def)

section \<open>Cuts and reslices\<close>

lemma cut_wf:
  assumes "go_cut i a s = Some (a', s')" and "wf_slice a s"
  shows "wf_slice a' s'" and "sbase s' = sbase s" and "scap s' = scap s" and "fresh a' = fresh a"
    and "\<And>b. b \<noteq> sbase s \<Longrightarrow> cells a' b = cells a b"
  using assms by (auto simp: go_cut_def wf_slice_def Let_def split: if_splits)

lemma cut_cells0:
  assumes "go_cut i a s = Some (a', s')" and "wf_arena a" and "wf_slice a s"
  shows "cells a' 0 = cells a 0"
proof (cases "sbase s = 0")
  case True
  then have "slen s = 0" using wf_slice_base0 assms by blast
  then show ?thesis using assms(1) by (simp add: go_cut_def)
next
  case False
  then show ?thesis using cut_wf(5) [OF assms(1,3)] by simp
qed

lemma elems_cut:
  assumes cut: "go_cut i a s = Some (a', s')" and wf: "wf_slice a s"
  shows "elems a' s' = take i (elems a s) @ drop (Suc i) (elems a s)"
proof -
  define A where "A = cells a (sbase s)"
  define n where "n = slen s"
  let ?front = "take i A @ take (n - Suc i) (drop (Suc i) A)"
  from cut wf have i: "Suc i \<le> n" and n: "n \<le> length A"
    by (auto simp: go_cut_def wf_slice_def A_def n_def split: if_splits)
  have "elems a' s' = take (n - 1) (?front @ drop (n - 1) A)"
    using cut by (auto simp: go_cut_def elems_def A_def n_def Let_def split: if_splits)
  also have "\<dots> = ?front"
  proof -
    have "length ?front = n - 1" using i n by simp
    then show ?thesis by (metis append_eq_conv_conj)
  qed
  also have "\<dots> = take i (take n A) @ drop (Suc i) (take n A)"
    using i by (simp add: drop_take min_def)
  finally show ?thesis by (simp add: elems_def A_def n_def)
qed

lemma reslice_wf:
  assumes "go_reslice i s = Some s'" and "wf_slice a s"
  shows "wf_slice a s'" and "sbase s' = sbase s" and "scap s' = scap s"
  using assms by (auto simp: go_reslice_def wf_slice_def split: if_splits)

section \<open>The deletion loop of delGroupClient and delSystemClient\<close>

text \<open>
  \<^verbatim>\<open>
  for index, v := range s {
      if v == cid {
          if (index + 1) < g { s = append(s[:index], s[index+1:]...) } else { s = s[:index] }
      }
  }\<close>

  Both functions have this loop, with \<open>g\<close> the number of groups. The range expression is
  evaluated once, so the loop visits the indices below the initial length, but each element
  is read from the backing array when its turn comes, after earlier cuts have moved it.
\<close>

fun del_loop :: "nat \<Rightarrow> string \<Rightarrow> nat list \<Rightarrow> arena \<times> slice \<Rightarrow> (arena \<times> slice) res" where
  "del_loop g cid [] st = Done st"
| "del_loop g cid (i # is) (a, s) =
     (if cells a (sbase s) ! i = cid then
        (if i + 1 < g then
           (case go_cut i a s of None \<Rightarrow> Panicked (a, s) | Some st \<Rightarrow> del_loop g cid is st)
         else
           (case go_reslice i s of None \<Rightarrow> Panicked (a, s) | Some s' \<Rightarrow> del_loop g cid is (a, s')))
      else del_loop g cid is (a, s))"

definition del_member :: "nat \<Rightarrow> string \<Rightarrow> arena \<Rightarrow> slice \<Rightarrow> (arena \<times> slice) res" where
  "del_member g cid a s = del_loop g cid [0..<slen s] (a, s)"

text \<open>Whatever happens, the loop stays in its own array.\<close>

definition same_home :: "arena \<Rightarrow> slice \<Rightarrow> arena \<Rightarrow> slice \<Rightarrow> bool" where
  "same_home a s a' s' \<longleftrightarrow> wf_slice a' s' \<and> sbase s' = sbase s \<and> scap s' = scap s
     \<and> fresh a' = fresh a \<and> (\<forall>b. b \<noteq> sbase s \<longrightarrow> cells a' b = cells a b)
     \<and> (wf_arena a \<longrightarrow> wf_arena a')"

lemma same_home_refl: "wf_slice a s \<Longrightarrow> same_home a s a s"
  by (simp add: same_home_def)

lemma same_home_trans:
  "same_home a s a' s' \<Longrightarrow> same_home a' s' a'' s'' \<Longrightarrow> same_home a s a'' s''"
  by (simp add: same_home_def)

lemma same_home_cut:
  assumes "go_cut i a s = Some (a', s')" and "wf_slice a s"
  shows "same_home a s a' s'"
  using cut_wf [OF assms] cut_cells0 [OF assms(1) _ assms(2)]
  by (auto simp: same_home_def wf_arena_def)

lemma same_home_reslice:
  "go_reslice i s = Some s' \<Longrightarrow> wf_slice a s \<Longrightarrow> same_home a s a s'"
  using reslice_wf by (auto simp: same_home_def)

lemma del_loop_home:
  assumes "wf_slice a s"
  shows "case res_state (del_loop g cid is (a, s)) of (a', s') \<Rightarrow> same_home a s a' s'"
  using assms
proof (induction "is" arbitrary: a s)
  case Nil
  then show ?case by (simp add: same_home_refl)
next
  case (Cons i js)
  have step: "case res_state (del_loop g cid js (a', s')) of (a'', s'') \<Rightarrow> same_home a s a'' s''"
    if "same_home a s a' s'" for a' s'
    using Cons.IH [of a' s'] that same_home_trans [OF that]
    by (auto simp: same_home_def split: prod.splits)
  show ?case
    using step same_home_refl [OF Cons.prems] same_home_cut [OF _ Cons.prems]
      same_home_reslice [OF _ Cons.prems]
    by (auto split: option.splits)
qed

lemma del_member_home:
  "wf_slice a s \<Longrightarrow> res_state (del_member g cid a s) = (a', s') \<Longrightarrow> same_home a s a' s'"
  using del_loop_home [of a s g cid "[0..<slen s]"] by (simp add: del_member_def)

text \<open>No element equal to \<open>cid\<close>: the loop changes nothing.\<close>

lemma del_loop_absent:
  "(\<And>i. i \<in> set is \<Longrightarrow> cells a (sbase s) ! i \<noteq> cid) \<Longrightarrow> del_loop g cid is (a, s) = Done (a, s)"
  by (induction "is") auto

lemma del_loop_append:
  "del_loop g cid (is @ js) st =
     (case del_loop g cid is st of Done st' \<Rightarrow> del_loop g cid js st' | Panicked st' \<Rightarrow> Panicked st')"
  by (induction "is" arbitrary: st) (auto split: option.splits)

lemma del_member_absent:
  assumes "cid \<notin> set (elems a s)" and "wf_slice a s"
  shows "del_member g cid a s = Done (a, s)"
proof -
  have "cells a (sbase s) ! i \<noteq> cid" if "i \<in> set [0..<slen s]" for i
  proof -
    from that have "elems a s ! i = cells a (sbase s) ! i" and "elems a s ! i \<in> set (elems a s)"
      using assms(2) by (auto simp: elems_nth length_elems in_set_conv_nth)
    then show ?thesis using assms(1) by metis
  qed
  then show ?thesis unfolding del_member_def by (rule del_loop_absent)
qed

text \<open>
  The index of the last element equal to \<open>cid\<close>. With no group (or only one) the loop never
  copies, so it truncates at each occurrence in turn and the last one decides.
\<close>

definition last_pos :: "string \<Rightarrow> string list \<Rightarrow> nat option" where
  "last_pos cid xs =
     (case dropWhile (\<lambda>x. x \<noteq> cid) (rev xs) of [] \<Rightarrow> None | _ # ys \<Rightarrow> Some (length ys))"

lemma last_pos_Nil [simp]: "last_pos cid [] = None"
  by (simp add: last_pos_def)

lemma last_pos_snoc [simp]:
  "last_pos cid (xs @ [x]) = (if x = cid then Some (length xs) else last_pos cid xs)"
  by (simp add: last_pos_def)

lemma last_pos_less: "last_pos cid xs = Some i \<Longrightarrow> i < length xs"
  by (induction xs rule: rev_induct) (auto split: if_splits)

lemma last_pos_None: "last_pos cid xs = None \<longleftrightarrow> cid \<notin> set xs"
  by (induction xs rule: rev_induct) auto

lemma last_pos_replicate: "0 < n \<Longrightarrow> last_pos x (replicate n x) = Some (n - 1)"
  by (cases n) (simp_all flip: replicate_append_same)

definition truncated :: "string \<Rightarrow> string list \<Rightarrow> string list" where
  "truncated cid xs = (case last_pos cid xs of None \<Rightarrow> xs | Some i \<Rightarrow> take i xs)"

lemma del_loop_truncates:
  assumes "wf_slice a s" and "g \<le> 1" and "k \<le> slen s"
  shows "del_loop g cid [0..<k] (a, s) =
    Done (a, s\<lparr>slen := (case last_pos cid (take k (elems a s)) of None \<Rightarrow> slen s | Some i \<Rightarrow> i)\<rparr>)"
  using assms(3)
proof (induction k)
  case 0
  then show ?case by simp
next
  case (Suc k)
  then have k: "k < slen s" by simp
  have "take (Suc k) (elems a s) = take k (elems a s) @ [cells a (sbase s) ! k]"
    using k length_elems [OF assms(1)] by (simp add: take_Suc_conv_app_nth elems_nth)
  moreover have "k \<le> scap s" using k assms(1) by (simp add: wf_slice_def)
  moreover have "length (take k (elems a s)) = k"
    using k length_elems [OF assms(1)] by simp
  ultimately show ?case
    using Suc.IH k assms(2) by (simp add: del_loop_append go_reslice_def)
qed

lemma del_member_truncates:
  assumes "wf_slice a s" and "g \<le> 1"
  shows "\<exists>s'. del_member g cid a s = Done (a, s') \<and> elems a s' = truncated cid (elems a s)"
proof -
  let ?p = "last_pos cid (elems a s)"
  let ?s = "s\<lparr>slen := (case ?p of None \<Rightarrow> slen s | Some i \<Rightarrow> i)\<rparr>"
  have "take (slen s) (elems a s) = elems a s"
    using length_elems [OF assms(1)] by simp
  then have "del_member g cid a s = Done (a, ?s)"
    using del_loop_truncates [OF assms order_refl, of cid] by (simp add: del_member_def)
  moreover have "elems a ?s = truncated cid (elems a s)"
    using last_pos_less [of cid "elems a s"] length_elems [OF assms(1)]
    by (auto simp: truncated_def elems_def min_def split: option.splits)
  ultimately show ?thesis by blast
qed

text \<open>A list without duplicates: one occurrence, cut out or truncated at.\<close>

lemma cut_rest_absent:
  assumes cut: "go_cut k a s = Some (a', s')" and wf: "wf_slice a s"
    and dist: "distinct (elems a s)" and i: "k < i" "i < slen s"
  shows "cells a' (sbase s') ! i \<noteq> elems a s ! k"
proof -
  define A where "A = cells a (sbase s)"
  define n where "n = slen s"
  let ?A' = "take k A @ take (n - Suc k) (drop (Suc k) A) @ drop (n - 1) A"
  have n: "n \<le> length A" and k: "Suc k \<le> n"
    using cut wf by (auto simp: go_cut_def wf_slice_def A_def n_def split: if_splits)
  have "cells a' (sbase s') = ?A'"
    using cut by (auto simp: go_cut_def A_def n_def Let_def split: if_splits)
  moreover have lens: "length (take k A) = k"
    "length (take (n - Suc k) (drop (Suc k) A)) = n - Suc k"
    using n k by simp_all
  have "\<exists>j < n. j \<noteq> k \<and> ?A' ! i = A ! j"
  proof (cases "i < n - 1")
    case True
    then have "i - k < n - Suc k" and "Suc (k + (i - k)) = Suc i" using i k by auto
    then have "?A' ! i = A ! Suc i"
      using i n k unfolding nth_append lens by simp
    then show ?thesis using True i by (intro exI [of _ "Suc i"]) auto
  next
    case False
    then have "i = n - 1" and "i < n" using i by (simp_all add: n_def)
    then have "?A' ! i = A ! i"
      using i n k unfolding nth_append lens by auto
    then show ?thesis using i \<open>i < n\<close> by (intro exI [of _ i]) auto
  qed
  ultimately obtain j where j: "j < n" "j \<noteq> k" "cells a' (sbase s') ! i = A ! j" by metis
  have "elems a s ! j = A ! j" using j(1) by (simp add: elems_nth A_def n_def)
  then show ?thesis
    using j dist k length_elems [OF wf] by (metis distinct_nth_unique n_def Suc_le_lessD)
qed

lemma del_member_distinct:
  assumes wf: "wf_slice a s" and dist: "distinct (elems a s)" and k: "k < slen s"
  shows "\<exists>a' s'. del_member g (elems a s ! k) a s = Done (a', s') \<and>
    elems a' s' = (if Suc k < g then remove1 (elems a s ! k) (elems a s) else take k (elems a s))"
proof -
  let ?cid = "elems a s ! k"
  have len: "length (elems a s) = slen s" using wf by (rule length_elems)
  have cap: "slen s \<le> scap s" using wf by (simp add: wf_slice_def)
  have range: "[0..<slen s] = [0..<k] @ k # [Suc k..<slen s]"
    using k by (metis append_Cons append_Nil less_imp_le_nat upt_add_eq_append upt_conv_Cons
        zero_le le_add_diff_inverse)
  have other: "cells a (sbase s) ! i \<noteq> ?cid" if "i < slen s" and "i \<noteq> k" for i
    using that k dist len by (metis distinct_nth_unique elems_nth)
  have here: "cells a (sbase s) ! k = ?cid" using k by (simp add: elems_nth)
  have before: "del_loop g ?cid [0..<k] (a, s) = Done (a, s)"
    using other k by (intro del_loop_absent) simp
  show ?thesis
  proof (cases "Suc k < g")
    case True
    obtain a' s' where cut: "go_cut k a s = Some (a', s')"
      using k cap by (auto simp: go_cut_def Let_def)
    have "del_loop g ?cid [Suc k..<slen s] (a', s') = Done (a', s')"
      using cut_rest_absent [OF cut wf dist] by (intro del_loop_absent) auto
    then have "del_member g ?cid a s = Done (a', s')"
      using True cut before here by (simp add: del_member_def range del_loop_append)
    moreover have "elems a' s' = remove1 ?cid (elems a s)"
      using elems_cut [OF cut wf] remove1_nth [OF dist, of k] k len by simp
    ultimately show ?thesis using True by auto
  next
    case False
    let ?s = "s\<lparr>slen := k\<rparr>"
    have "del_loop g ?cid [Suc k..<slen s] (a, ?s) = Done (a, ?s)"
      using other by (intro del_loop_absent) auto
    moreover have "go_reslice k s = Some ?s" using k cap by (simp add: go_reslice_def)
    ultimately have "del_member g ?cid a s = Done (a, ?s)"
      using False before here by (simp add: del_member_def range del_loop_append)
    moreover have "elems a ?s = take k (elems a s)" using k by (simp add: elems_def min_def)
    ultimately show ?thesis using False by auto
  qed
qed

section \<open>Tables of slices\<close>

text \<open>
  A component that keeps several slices under keys keeps them apart: two keys never share a
  backing array (except that of the nil slice). \<open>slice_table\<close> is the interface such a component
  offers: reading the arena and the header of a key, and storing both back.
\<close>

definition slices_inv :: "arena \<Rightarrow> ('k \<Rightarrow> slice) \<Rightarrow> bool" where
  "slices_inv a f \<longleftrightarrow> wf_arena a \<and> (\<forall>k. wf_slice a (f k)) \<and>
     (\<forall>k k'. k \<noteq> k' \<longrightarrow> sbase (f k) = sbase (f k') \<longrightarrow> sbase (f k) = 0)"

lemma slices_invD:
  assumes "slices_inv a f"
  shows "wf_arena a" and "wf_slice a (f k)"
    and "k \<noteq> k' \<Longrightarrow> sbase (f k) = sbase (f k') \<Longrightarrow> sbase (f k) = 0"
  using assms unfolding slices_inv_def by blast+

lemma slices_inv_nil: "wf_arena a \<Longrightarrow> slices_inv a (\<lambda>_. nil_slice)"
  by (simp add: slices_inv_def)

lemma slices_inv_append:
  assumes inv: "slices_inv a f" and app: "go_append grow x a (f k) = (a', s')"
  shows "slices_inv a' (f(k := s'))"
    and "elems a' s' = elems a (f k) @ [x]"
    and "\<And>j. j \<noteq> k \<Longrightarrow> elems a' (f j) = elems a (f j)"
proof -
  note wfs = slices_invD [OF inv]
  note new = append_wf [OF wfs(1) wfs(2) app] append_base [OF app]
  have cells: "cells a' (sbase (f j)) = cells a (sbase (f j))" if "j \<noteq> k" for j
  proof (cases "sbase (f j) = 0")
    case True
    then show ?thesis using append_cells0 [OF app wfs(1,2)] by simp
  next
    case False
    then show ?thesis using append_other [OF app wfs(2)] wfs(3) [OF that] by metis
  qed
  have old: "sbase (f j) < fresh a" for j using wfs(2) by (simp add: wf_slice_def)
  have apart: "sbase (f j) = sbase s' \<Longrightarrow> sbase (f j) = 0" if "j \<noteq> k" for j
    using new(4) old [of j] wfs(3) [OF that] by auto
  have "wf_slice a' (f j)" if "j \<noteq> k" for j
    using wf_slice_cong [OF wfs(2) _ append_fresh_mono [OF app]] cells [OF that] by simp
  then show "slices_inv a' (f(k := s'))"
    using new apart wfs(3) unfolding slices_inv_def by (auto simp: fun_upd_def) metis+
  show "elems a' s' = elems a (f k) @ [x]" by (rule elems_append [OF wfs(2) app])
  show "elems a' (f j) = elems a (f j)" if "j \<noteq> k" for j
    by (rule elems_cong [OF cells [OF that]])
qed

lemma slices_inv_home:
  assumes inv: "slices_inv a f" and home: "same_home a (f k) a' s'"
  shows "slices_inv a' (f(k := s'))" and "\<And>j. j \<noteq> k \<Longrightarrow> elems a' (f j) = elems a (f j)"
proof -
  note wfs = slices_invD [OF inv]
  have base: "sbase s' = sbase (f k)" and fresh: "fresh a' = fresh a" and wf': "wf_slice a' s'"
    and arena': "wf_arena a'"
    using home wfs(1) by (auto simp: same_home_def)
  have cells: "cells a' (sbase (f j)) = cells a (sbase (f j))" if "j \<noteq> k" for j
  proof (cases "sbase (f j) = 0")
    case True
    then show ?thesis using arena' wfs(1) by (simp add: wf_arena_def)
  next
    case False
    then show ?thesis using home wfs(3) [OF that] by (auto simp: same_home_def)
  qed
  have "wf_slice a' (f j)" if "j \<noteq> k" for j
    using wf_slice_cong [OF wfs(2)] cells [OF that] fresh by simp
  then show "slices_inv a' (f(k := s'))"
    using wf' arena' base wfs(3) unfolding slices_inv_def by (auto simp: fun_upd_def)
  show "elems a' (f j) = elems a (f j)" if "j \<noteq> k" for j
    by (rule elems_cong [OF cells [OF that]])
qed

locale slice_table =
  fixes ar :: "'m \<Rightarrow> arena"
    and get :: "'k \<Rightarrow> 'm \<Rightarrow> slice"
    and put :: "'k \<Rightarrow> arena \<times> slice \<Rightarrow> 'm \<Rightarrow> 'm"
  assumes ar_put: "ar (put k st m) = fst st"
    and get_put: "get j (put k st m) = (if j = k then snd st else get j m)"
begin

lemma get_put_fun: "(\<lambda>j. get j (put k st m)) = (\<lambda>j. get j m)(k := snd st)"
  by (rule ext) (simp add: get_put)

lemma table_append:
  assumes "slices_inv (ar m) (\<lambda>j. get j m)"
    and m'_def: "m' = put k (go_append grow x (ar m) (get k m)) m"
  shows "slices_inv (ar m') (\<lambda>j. get j m')"
    and "elems (ar m') (get j m') =
      (if j = k then elems (ar m) (get k m) @ [x] else elems (ar m) (get j m))"
proof -
  obtain a s where app: "go_append grow x (ar m) (get k m) = (a, s)" by (rule prod.exhaust)
  note facts = slices_inv_append [OF assms(1) app]
  show "slices_inv (ar m') (\<lambda>j. get j m')"
    using facts(1) by (simp add: m'_def app ar_put get_put_fun)
  show "elems (ar m') (get j m') =
      (if j = k then elems (ar m) (get k m) @ [x] else elems (ar m) (get j m))"
    using facts(2) facts(3) [of j] by (simp add: m'_def app ar_put get_put)
qed

lemma table_delete:
  assumes "slices_inv (ar m) (\<lambda>j. get j m)"
    and m'_def: "m' = put k (res_state (del_member g cid (ar m) (get k m))) m"
  shows "slices_inv (ar m') (\<lambda>j. get j m')"
    and "j \<noteq> k \<Longrightarrow> elems (ar m') (get j m') = elems (ar m) (get j m)"
proof -
  obtain a s where del: "res_state (del_member g cid (ar m) (get k m)) = (a, s)"
    by (rule prod.exhaust)
  have home: "same_home (ar m) (get k m) a s"
    by (rule del_member_home [OF slices_invD(2) [OF assms(1)] del])
  note facts = slices_inv_home [OF assms(1) home]
  show "slices_inv (ar m') (\<lambda>j. get j m')"
    using facts(1) by (simp add: m'_def del ar_put get_put_fun)
  show "elems (ar m') (get j m') = elems (ar m) (get j m)" if "j \<noteq> k"
    using facts(2) [OF that] that by (simp add: m'_def del ar_put get_put)
qed

end

end
