(* ===== verification/GoStrings.thy ===== *)
theory GoStrings
  imports Prelude "HOL-Library.Sublist"
begin

text \<open>
  What the program uses of Go's package strings. A Go string is a sequence of bytes, which
  \<open>string\<close> (a list of 8-bit characters) models exactly; \<open>len(s)\<close> is \<open>length s\<close>.
\<close>

section \<open>strings.Split with a one-byte separator\<close>

fun split_on :: "char \<Rightarrow> string \<Rightarrow> string list" where
  "split_on c [] = [[]]"
| "split_on c (x # xs) =
     (if x = c then [] # split_on c xs
      else (case split_on c xs of [] \<Rightarrow> [[x]] | p # ps \<Rightarrow> (x # p) # ps))"

fun join_on :: "char \<Rightarrow> string list \<Rightarrow> string" where
  "join_on c [] = []"
| "join_on c [p] = p"
| "join_on c (p # q # ps) = p @ c # join_on c (q # ps)"

lemma split_on_nonempty [simp]: "split_on c s \<noteq> []"
  by (induction s) (auto split: list.splits)

lemma split_on_free: "c \<notin> set s \<Longrightarrow> split_on c s = [s]"
  by (induction s) auto

lemma split_on_append:
  "c \<notin> set p \<Longrightarrow> split_on c (p @ c # s) = p # split_on c s"
  by (induction p) auto

lemma split_on_parts_free: "p \<in> set (split_on c s) \<Longrightarrow> c \<notin> set p"
  by (induction s arbitrary: p) (auto split: list.splits if_splits)

lemma join_split: "join_on c (split_on c s) = s"
proof (induction s)
  case Nil
  then show ?case by simp
next
  case (Cons x xs)
  obtain p ps where split: "split_on c xs = p # ps"
    by (cases "split_on c xs") auto
  show ?case
  proof (cases "x = c")
    case True
    then show ?thesis using Cons.IH split by simp
  next
    case False
    then show ?thesis using Cons.IH split by (cases ps) auto
  qed
qed

lemma split_join:
  "ps \<noteq> [] \<Longrightarrow> (\<And>p. p \<in> set ps \<Longrightarrow> c \<notin> set p) \<Longrightarrow> split_on c (join_on c ps) = ps"
  by (induction c ps rule: join_on.induct) (auto simp: split_on_free split_on_append)

lemma length_split_on: "length (split_on c s) = Suc (count_list s c)"
  by (induction s) (auto split: list.splits)

lemma split_on_two_iff:
  "split_on c s = [a, b] \<longleftrightarrow> s = a @ c # b \<and> c \<notin> set a \<and> c \<notin> set b"
proof
  assume split: "split_on c s = [a, b]"
  then have "s = a @ c # b" using join_split [of c s] by simp
  moreover have "c \<notin> set a" and "c \<notin> set b"
    using split_on_parts_free [of a c s] split_on_parts_free [of b c s] split by simp_all
  ultimately show "s = a @ c # b \<and> c \<notin> set a \<and> c \<notin> set b" by simp
next
  assume "s = a @ c # b \<and> c \<notin> set a \<and> c \<notin> set b"
  then show "split_on c s = [a, b]" by (simp add: split_on_append split_on_free)
qed

lemma sep_append_eq:
  "c \<notin> set p \<Longrightarrow> c \<notin> set q \<Longrightarrow> p @ c # s = q @ c # t \<longleftrightarrow> p = q \<and> s = t"
proof (induction p arbitrary: q)
  case Nil
  then show ?case by (cases q) auto
next
  case (Cons x xs)
  then show ?case by (cases q) auto
qed

section \<open>strings.Contains, strings.HasPrefix and strings.Replace\<close>

fun contains :: "string \<Rightarrow> string \<Rightarrow> bool" where
  "contains [] sub = (sub = [])"
| "contains (x # xs) sub = (prefix sub (x # xs) \<or> contains xs sub)"

lemma contains_iff: "contains s sub \<longleftrightarrow> sublist sub s"
  by (induction s) (auto simp: sublist_Cons_right)

text \<open>\<open>strings.Replace(s, old, new, -1)\<close> for a one-byte \<open>old\<close>, with an empty or one-byte \<open>new\<close>.\<close>

definition remove_all :: "char \<Rightarrow> string \<Rightarrow> string" where
  "remove_all c s = filter (\<lambda>x. x \<noteq> c) s"

definition replace_all :: "char \<Rightarrow> char \<Rightarrow> string \<Rightarrow> string" where
  "replace_all c d s = map (\<lambda>x. if x = c then d else x) s"

lemma remove_all_append [simp]: "remove_all c (s @ t) = remove_all c s @ remove_all c t"
  by (simp add: remove_all_def)

lemma remove_all_simps [simp]:
  "remove_all c [] = []" "remove_all c (x # xs) = (if x = c then remove_all c xs else x # remove_all c xs)"
  by (simp_all add: remove_all_def)

lemma remove_all_free: "c \<notin> set s \<Longrightarrow> remove_all c s = s"
  by (simp add: remove_all_def filter_id_conv) (metis)

section \<open>strconv.Itoa for a natural number\<close>

definition digit :: "nat \<Rightarrow> char" where
  "digit d = char_of (48 + d)"

fun itoa :: "nat \<Rightarrow> string" where
  "itoa n = (if n < 10 then [digit n] else itoa (n div 10) @ [digit (n mod 10)])"

declare itoa.simps [simp del]

lemma of_char_digit: "d < 10 \<Longrightarrow> of_char (digit d) = 48 + d"
  by (simp add: digit_def)

lemma itoa_digits: "c \<in> set (itoa n) \<Longrightarrow> 48 \<le> (of_char c :: nat) \<and> (of_char c :: nat) \<le> 57"
proof (induction n rule: itoa.induct)
  case (1 n)
  then show ?case
    by (cases "n < 10") (auto simp: itoa.simps [of n] of_char_digit)
qed

lemma colon_itoa [simp]: "CHR '':'' \<notin> set (itoa n)"
  using itoa_digits [of "CHR '':''" n] by auto

end
