(* ===== verification/Json.thy ===== *)
theory Json
  imports GoStrings
begin

text \<open>
  What the program uses of Go's package encoding/json: the values a message holds once its
  bytes are parsed, how they are stored into the fields of a struct, and the text a value is
  marshalled to. Strings are Go strings (bytes).
\<close>

datatype json =
    JNull
  | JBool bool
  | JInt int
  | JFloat string
  | JStr string
  | JArr "json list"
  | JObj "(string \<times> json) list"

section \<open>Field names\<close>

text \<open>
  A key of an object goes to the field whose name it is, or else to the first field that it
  equals when letter case is ignored. Besides the ASCII letters, case folding identifies the
  long s (bytes C5 BF) with s and the Kelvin sign (bytes E2 84 AA) with k.
\<close>

definition lower :: "char \<Rightarrow> char" where
  "lower c = (let n = of_char c in if 65 \<le> n \<and> n \<le> (90 :: nat) then char_of (n + 32) else c)"

fun fold_name :: "string \<Rightarrow> string" where
  "fold_name [] = []"
| "fold_name (c # s) =
     (if of_char c = (0xC5 :: nat) \<and> s \<noteq> [] \<and> of_char (hd s) = (0xBF :: nat) then CHR ''s'' # fold_name (tl s)
      else if of_char c = (0xE2 :: nat) \<and> 2 \<le> length s \<and> of_char (hd s) = (0x84 :: nat) \<and>
              of_char (s ! 1) = (0xAA :: nat) then CHR ''k'' # fold_name (drop 2 s)
      else lower c # fold_name s)"

definition field_of :: "string list \<Rightarrow> string \<Rightarrow> string option" where
  "field_of names key =
     (if key \<in> set names then Some key
      else List.find (\<lambda>n. fold_name n = fold_name key) names)"

section \<open>Decoding into the fields of a struct\<close>

text \<open>
  The values an object gives to one field, in their order; \<open>null\<close> and anything that is no object
  gives none.
\<close>

definition field_values :: "string list \<Rightarrow> string \<Rightarrow> json \<Rightarrow> json list" where
  "field_values names name j =
     (case j of
        JObj kvs \<Rightarrow> map snd (filter (\<lambda>kv. field_of names (fst kv) = Some name) kvs)
      | _ \<Rightarrow> [])"

definition is_object :: "json \<Rightarrow> bool" where
  "is_object j = (case j of JObj _ \<Rightarrow> True | JNull \<Rightarrow> True | _ \<Rightarrow> False)"

text \<open>
  One value into a field that holds \<open>old\<close>: the new content, and whether the types agree. After a
  mismatch the field keeps what it had and decoding goes on; the error is reported at the end.
\<close>

definition put_string :: "json \<Rightarrow> string \<Rightarrow> string \<times> bool" where
  "put_string j old = (case j of JStr s \<Rightarrow> (s, True) | JNull \<Rightarrow> (old, True) | _ \<Rightarrow> (old, False))"

definition put_int :: "json \<Rightarrow> int \<Rightarrow> int \<times> bool" where
  "put_int j old =
     (case j of
        JInt i \<Rightarrow> (if - (2 ^ 63) \<le> i \<and> i < 2 ^ 63 then (i, True) else (old, False))
      | JNull \<Rightarrow> (old, True)
      | _ \<Rightarrow> (old, False))"

text \<open>A \<open>[]string\<close>: \<open>None\<close> is nil, and the empty array gives a slice that is not nil.\<close>

definition put_strings :: "json \<Rightarrow> string list option \<Rightarrow> string list option \<times> bool" where
  "put_strings j old =
     (case j of
        JArr js \<Rightarrow> (Some (map (\<lambda>x. fst (put_string x [])) js), list_all (\<lambda>x. snd (put_string x [])) js)
      | JNull \<Rightarrow> (None, True)
      | _ \<Rightarrow> (old, False))"

fun put_all :: "(json \<Rightarrow> 'a \<Rightarrow> 'a \<times> bool) \<Rightarrow> json list \<Rightarrow> 'a \<Rightarrow> 'a \<times> bool" where
  "put_all put [] old = (old, True)"
| "put_all put (j # js) old =
     (let (new, ok) = put j old; (final, oks) = put_all put js new in (final, ok \<and> oks))"

definition get_string :: "string list \<Rightarrow> string \<Rightarrow> json \<Rightarrow> string \<times> bool" where
  "get_string names name j = put_all put_string (field_values names name j) []"

definition get_int :: "string list \<Rightarrow> string \<Rightarrow> json \<Rightarrow> int \<times> bool" where
  "get_int names name j = put_all put_int (field_values names name j) 0"

definition get_strings :: "string list \<Rightarrow> string \<Rightarrow> json \<Rightarrow> string list option \<times> bool" where
  "get_strings names name j = put_all put_strings (field_values names name j) None"

section \<open>Marshalling\<close>

text \<open>The size of the well-formed UTF-8 sequence a string starts with, 0 if it starts with none.\<close>

definition in_range :: "nat \<Rightarrow> nat \<Rightarrow> char \<Rightarrow> bool" where
  "in_range lo hi c \<longleftrightarrow> lo \<le> of_char c \<and> of_char c \<le> hi"

fun utf8_size :: "string \<Rightarrow> nat" where
  "utf8_size [] = 0"
| "utf8_size (a # s) =
     (let tails = (\<lambda>n. n \<le> length s \<and> list_all (in_range 0x80 0xBF) (take n s));
          second = (\<lambda>lo hi. s \<noteq> [] \<and> in_range lo hi (hd s))
      in if in_range 0 0x7F a then 1
         else if in_range 0xC2 0xDF a \<and> tails 1 then 2
         else if in_range 0xE0 0xE0 a \<and> second 0xA0 0xBF \<and> tails 2 then 3
         else if in_range 0xED 0xED a \<and> second 0x80 0x9F \<and> tails 2 then 3
         else if in_range 0xE1 0xEF a \<and> \<not> in_range 0xED 0xED a \<and> tails 2 then 3
         else if in_range 0xF0 0xF0 a \<and> second 0x90 0xBF \<and> tails 3 then 4
         else if in_range 0xF1 0xF3 a \<and> tails 3 then 4
         else if in_range 0xF4 0xF4 a \<and> second 0x80 0x8F \<and> tails 3 then 4
         else 0)"

declare utf8_size.simps [simp del]

definition hex_char :: "nat \<Rightarrow> char" where
  "hex_char n = ''0123456789abcdef'' ! n"

text \<open>A byte below 128: as it is, or escaped (the HTML characters too).\<close>

definition escape_byte :: "char \<Rightarrow> string" where
  "escape_byte c =
     (let n = of_char c in
      if c = CHR 0x22 \<or> c = CHR 0x5C then [CHR 0x5C, c]
      else if n = (10 :: nat) then [CHR 0x5C, CHR ''n'']
      else if n = 13 then [CHR 0x5C, CHR ''r'']
      else if n = 9 then [CHR 0x5C, CHR ''t'']
      else if n < 32 \<or> c \<in> set ''<>&'' then CHR 0x5C # ''u00'' @ [hex_char (n div 16), hex_char (n mod 16)]
      else [c])"

text \<open>
  The body of a string literal: a byte that starts no well-formed sequence becomes the
  replacement character, and the two Unicode line separators are escaped.
\<close>

function escape :: "string \<Rightarrow> string" where
  "escape [] = []"
| "escape (c # s) =
     (let n = utf8_size (c # s) in
      if n = 0 then CHR 0x5C # ''ufffd'' @ escape s
      else if n = 1 then escape_byte c @ escape s
      else
        (let ch = take n (c # s); rest = escape (drop (n - 1) s)
         in if ch = map char_of [0xE2, 0x80, 0xA8 :: nat] then CHR 0x5C # ''u2028'' @ rest
            else if ch = map char_of [0xE2, 0x80, 0xA9 :: nat] then CHR 0x5C # ''u2029'' @ rest
            else ch @ rest))"
  by pat_completeness auto
termination by (relation "measure length") (simp_all add: less_Suc_eq_le)

definition quoted :: "string \<Rightarrow> string" where
  "quoted s = CHR 0x22 # escape s @ [CHR 0x22]"

fun commas :: "string list \<Rightarrow> string" where
  "commas [] = []"
| "commas [s] = s"
| "commas (s # t # ss) = s @ '','' @ commas (t # ss)"

fun json_text :: "json \<Rightarrow> string" where
  "json_text JNull = ''null''"
| "json_text (JBool b) = (if b then ''true'' else ''false'')"
| "json_text (JInt i) = (if i < 0 then CHR ''-'' # itoa (nat (- i)) else itoa (nat i))"
| "json_text (JFloat s) = s"
| "json_text (JStr s) = quoted s"
| "json_text (JArr js) = ''['' @ commas (map json_text js) @ '']''"
| "json_text (JObj kvs) = ''{'' @ commas (map (\<lambda>kv. quoted (fst kv) @ '':'' @ json_text (snd kv)) kvs) @ ''}''"

end
