(* ===== verification/Client.thy ===== *)
theory Client
  imports Prelude
begin

text \<open>
  servers/client.go: one websocket connection as the server sees it. A \<open>*Client\<close> pointer is a
  number (\<open>cref\<close>) and the objects are kept in the manager's heap; a \<open>*websocket.Conn\<close> is a
  number too. \<open>GroupList\<close> is a slice that only its own client holds, so a list models it.
\<close>

type_synonym cref = nat
type_synonym conn = nat

record client =
  Addr :: string
  ClientId :: string
  SystemId :: string
  Socket :: "conn option"
  ConnectTime :: "64 word"
  IsDeleted :: bool
  UserId :: string
  Extend :: string
  GroupList :: "string list"

text \<open>
  \<open>NewClient\<close>; \<open>now\<close> is the value of \<open>time.Now().Unix()\<close>, converted to \<open>uint64\<close>. The fields the
  code leaves out get Go's zero values.
\<close>

definition NewClient :: "string \<Rightarrow> string \<Rightarrow> string \<Rightarrow> conn option \<Rightarrow> 64 word \<Rightarrow> client" where
  "NewClient clientId addr systemId socket now =
     \<lparr>Addr = addr, ClientId = clientId, SystemId = systemId, Socket = socket,
      ConnectTime = now, IsDeleted = False, UserId = [], Extend = [], GroupList = []\<rparr>"

lemma NewClient_sel [simp]:
  "Addr (NewClient i a s k t) = a" "ClientId (NewClient i a s k t) = i"
  "SystemId (NewClient i a s k t) = s" "Socket (NewClient i a s k t) = k"
  "GroupList (NewClient i a s k t) = []" "IsDeleted (NewClient i a s k t) = False"
  by (simp_all add: NewClient_def)

end
