(* ===== verification/Define.thy ===== *)
theory Define
  imports Prelude
begin

text \<open>
  define/common.go and define/retcode/retcode.go: the constants of the program, and the Chinese
  string literals of its sources as the UTF-8 bytes they stand for.
\<close>

definition ETCD_SERVER_LIST :: string where
  "ETCD_SERVER_LIST = ''/wsServers/''"

definition ETCD_PREFIX_ACCOUNT_INFO :: string where
  "ETCD_PREFIX_ACCOUNT_INFO = ''ws/account/''"

definition SUCCESS :: int where "SUCCESS = 0"

definition FAIL :: int where "FAIL = -1"

definition SYSTEM_ID_ERROR :: int where "SYSTEM_ID_ERROR = -1001"

definition ONLINE_MESSAGE_CODE :: int where "ONLINE_MESSAGE_CODE = 1001"

definition OFFLINE_MESSAGE_CODE :: int where "OFFLINE_MESSAGE_CODE = 1002"

lemmas retcode_defs = SUCCESS_def FAIL_def SYSTEM_ID_ERROR_def ONLINE_MESSAGE_CODE_def
  OFFLINE_MESSAGE_CODE_def

definition utf8 :: "nat list \<Rightarrow> string" where
  "utf8 bs = map char_of bs"

text \<open>``client online'', ``client offline''.\<close>

definition msg_online :: string where
  "msg_online = utf8 [229, 174, 162, 230, 136, 183, 231, 171, 175, 228, 184, 138, 231, 186, 191]"

definition msg_offline :: string where
  "msg_offline = utf8 [229, 174, 162, 230, 136, 183, 231, 171, 175, 228, 184, 139, 231, 186, 191]"

text \<open>The messages of the errors and of the greeting, by what they say.\<close>

definition msg_system_empty :: string where
  "msg_system_empty = utf8 [231, 179, 187, 231, 187, 159, 73, 68, 228, 184, 141, 232, 131, 189, 228, 184, 186, 231, 169, 186]"

definition msg_registered :: string where
  "msg_registered = utf8 [232, 175, 165, 231, 179, 187, 231, 187, 159, 73, 68, 229, 183, 178, 232, 162, 171, 230, 179, 168, 229, 134, 140]"

definition msg_system_invalid :: string where
  "msg_system_invalid = utf8 [231, 179, 187, 231, 187, 159, 73, 68, 230, 151, 160, 230, 149, 136]"

definition msg_etcd_error :: string where
  "msg_etcd_error = utf8 [101, 116, 99, 100, 230, 156, 141, 229, 138, 161, 229, 153, 168, 233, 148, 153, 232, 175, 175]"

definition msg_connected :: string where
  "msg_connected = utf8 [232, 191, 158, 230, 142, 165, 230, 136, 144, 229, 138, 159]"

definition msg_required :: string where
  "msg_required = utf8 [228, 184, 186, 229, 191, 133, 229, 161, 171, 229, 173, 151, 230, 174, 181]"

end
