(* ===== verification/Setting.thy ===== *)
theory Setting
  imports GoStrings
begin

text \<open>
  pkg/setting/setting.go: the process-wide configuration, read once at start (from the ini
  file, whose parser is a library), and the list of servers that the etcd watcher maintains.
\<close>

record commonConf =
  HttpPort :: string
  RPCPort :: string
  Cluster :: bool
  CryptoKey :: string

record etcdConf =
  Endpoints :: "string list"

text \<open>\<open>ServerListLock\<close> is whether some goroutine holds the lock and will not give it back by itself.\<close>

record global =
  LocalHost :: string
  ServerList :: "(string, string) fmap"
  ServerListLock :: bool

record setting =
  CommonSetting :: commonConf
  EtcdSetting :: etcdConf
  GlobalSetting :: global

section \<open>The address of this machine\<close>

text \<open>
  An interface address of package net is an \<open>*IPNet\<close>, whose \<open>IP\<close> is 4 or 16 bytes, or of
  another type. \<open>To4\<close> is the 4-byte form of an IPv4 address, mapped into IPv6 or not.
\<close>

datatype net_addr = IPNet "8 word list" | OtherAddr

definition To4 :: "8 word list \<Rightarrow> 8 word list option" where
  "To4 ip =
     (if length ip = 4 then Some ip
      else if length ip = 16 \<and> take 12 ip = replicate 10 0 @ [255, 255] then Some (drop 12 ip)
      else None)"

definition IsLoopback :: "8 word list \<Rightarrow> bool" where
  "IsLoopback ip =
     (case To4 ip of Some ip4 \<Rightarrow> hd ip4 = 127 | None \<Rightarrow> ip = replicate 15 0 @ [1])"

definition ip4_string :: "8 word list \<Rightarrow> string" where
  "ip4_string ip = join_on (CHR ''.'') (map (itoa \<circ> unat) ip)"

fun getIntranetIp :: "net_addr list \<Rightarrow> string" where
  "getIntranetIp [] = []"
| "getIntranetIp (IPNet ip # addrs) =
     (if \<not> IsLoopback ip then
        (case To4 ip of Some ip4 \<Rightarrow> ip4_string ip4 | None \<Rightarrow> getIntranetIp addrs)
      else getIntranetIp addrs)"
| "getIntranetIp (OtherAddr # addrs) = getIntranetIp addrs"

section \<open>Initialisation\<close>

text \<open>
  \<open>conf\<close> is what the ini library reads from the two sections of the configuration file, \<open>None\<close>
  where it fails, which ends the process. \<open>Default\<close> leaves the etcd settings alone.
\<close>

definition Setup :: "(commonConf \<times> etcdConf) option \<Rightarrow> net_addr list \<Rightarrow> setting option" where
  "Setup conf addrs =
     (case conf of
        None \<Rightarrow> None
      | Some (common, etcd) \<Rightarrow>
          Some \<lparr>CommonSetting = common, EtcdSetting = etcd,
            GlobalSetting = \<lparr>LocalHost = getIntranetIp addrs, ServerList = fmempty, ServerListLock = False\<rparr>\<rparr>)"

definition Default :: "net_addr list \<Rightarrow> setting \<Rightarrow> setting" where
  "Default addrs st =
     st\<lparr>CommonSetting := \<lparr>HttpPort = ''6000'', RPCPort = ''7000'', Cluster = False,
          CryptoKey = ''Adba723b7fe06819''\<rparr>,
        GlobalSetting := \<lparr>LocalHost = getIntranetIp addrs, ServerList = fmempty, ServerListLock = False\<rparr>\<rparr>"

lemma colon_join_dots: "(\<And>p. p \<in> set ps \<Longrightarrow> CHR '':'' \<notin> set p) \<Longrightarrow> CHR '':'' \<notin> set (join_on (CHR ''.'') ps)"
  by (induction "CHR ''.''" ps rule: join_on.induct) auto

lemma colon_getIntranetIp [simp]: "CHR '':'' \<notin> set (getIntranetIp addrs)"
  by (induction addrs rule: getIntranetIp.induct)
    (auto simp: ip4_string_def intro!: colon_join_dots split: option.splits)

text \<open>The address found is that of the first interface with an IPv4 address that is no loopback.\<close>

definition candidate :: "net_addr \<Rightarrow> 8 word list option" where
  "candidate a = (case a of IPNet ip \<Rightarrow> (if IsLoopback ip then None else To4 ip) | OtherAddr \<Rightarrow> None)"

lemma getIntranetIp_first:
  "getIntranetIp addrs =
     (case List.map_filter candidate addrs of [] \<Rightarrow> [] | ip # _ \<Rightarrow> ip4_string ip)"
  by (induction addrs rule: getIntranetIp.induct)
    (auto simp: candidate_def map_filter_def split: option.splits)

end
