(* ===== verification/Aes.thy ===== *)
theory Aes
  imports Prelude
begin

unbundle bit_operations_syntax

text \<open>
  Go's crypto/aes, the block cipher of tools/crypto/crypto.go, as FIPS 197 defines it: a block
  is a list of 16 bytes, column by column; a key of 16, 24 or 32 bytes gives 11, 13 or 15 round
  keys. The main fact is that deciphering a block inverts enciphering it, under any key.
\<close>

type_synonym byte = "8 word"

section \<open>The S-box\<close>

definition sbox :: "nat list" where
  "sbox =
     [99, 124, 119, 123, 242, 107, 111, 197, 48, 1, 103, 43, 254, 215, 171, 118,
      202, 130, 201, 125, 250, 89, 71, 240, 173, 212, 162, 175, 156, 164, 114, 192,
      183, 253, 147, 38, 54, 63, 247, 204, 52, 165, 229, 241, 113, 216, 49, 21,
      4, 199, 35, 195, 24, 150, 5, 154, 7, 18, 128, 226, 235, 39, 178, 117,
      9, 131, 44, 26, 27, 110, 90, 160, 82, 59, 214, 179, 41, 227, 47, 132,
      83, 209, 0, 237, 32, 252, 177, 91, 106, 203, 190, 57, 74, 76, 88, 207,
      208, 239, 170, 251, 67, 77, 51, 133, 69, 249, 2, 127, 80, 60, 159, 168,
      81, 163, 64, 143, 146, 157, 56, 245, 188, 182, 218, 33, 16, 255, 243, 210,
      205, 12, 19, 236, 95, 151, 68, 23, 196, 167, 126, 61, 100, 93, 25, 115,
      96, 129, 79, 220, 34, 42, 144, 136, 70, 238, 184, 20, 222, 94, 11, 219,
      224, 50, 58, 10, 73, 6, 36, 92, 194, 211, 172, 98, 145, 149, 228, 121,
      231, 200, 55, 109, 141, 213, 78, 169, 108, 86, 244, 234, 101, 122, 174, 8,
      186, 120, 37, 46, 28, 166, 180, 198, 232, 221, 116, 31, 75, 189, 139, 138,
      112, 62, 181, 102, 72, 3, 246, 14, 97, 53, 87, 185, 134, 193, 29, 158,
      225, 248, 152, 17, 105, 217, 142, 148, 155, 30, 135, 233, 206, 85, 40, 223,
      140, 161, 137, 13, 191, 230, 66, 104, 65, 153, 45, 15, 176, 84, 187, 22]"

definition inv_sbox :: "nat list" where
  "inv_sbox =
     [82, 9, 106, 213, 48, 54, 165, 56, 191, 64, 163, 158, 129, 243, 215, 251,
      124, 227, 57, 130, 155, 47, 255, 135, 52, 142, 67, 68, 196, 222, 233, 203,
      84, 123, 148, 50, 166, 194, 35, 61, 238, 76, 149, 11, 66, 250, 195, 78,
      8, 46, 161, 102, 40, 217, 36, 178, 118, 91, 162, 73, 109, 139, 209, 37,
      114, 248, 246, 100, 134, 104, 152, 22, 212, 164, 92, 204, 93, 101, 182, 146,
      108, 112, 72, 80, 253, 237, 185, 218, 94, 21, 70, 87, 167, 141, 157, 132,
      144, 216, 171, 0, 140, 188, 211, 10, 247, 228, 88, 5, 184, 179, 69, 6,
      208, 44, 30, 143, 202, 63, 15, 2, 193, 175, 189, 3, 1, 19, 138, 107,
      58, 145, 17, 65, 79, 103, 220, 234, 151, 242, 207, 206, 240, 180, 230, 115,
      150, 172, 116, 34, 231, 173, 53, 133, 226, 249, 55, 232, 28, 117, 223, 110,
      71, 241, 26, 113, 29, 41, 197, 137, 111, 183, 98, 14, 170, 24, 190, 27,
      252, 86, 62, 75, 198, 210, 121, 32, 154, 219, 192, 254, 120, 205, 90, 244,
      31, 221, 168, 51, 136, 7, 199, 49, 177, 18, 16, 89, 39, 128, 236, 95,
      96, 81, 127, 169, 25, 181, 74, 13, 45, 229, 122, 159, 147, 201, 156, 239,
      160, 224, 59, 77, 174, 42, 245, 176, 200, 235, 187, 60, 131, 83, 153, 97,
      23, 43, 4, 126, 186, 119, 214, 38, 225, 105, 20, 99, 85, 33, 12, 125]"

definition sub_byte :: "byte \<Rightarrow> byte" where
  "sub_byte b = word_of_nat (sbox ! unat b)"

definition inv_sub_byte :: "byte \<Rightarrow> byte" where
  "inv_sub_byte b = word_of_nat (inv_sbox ! unat b)"

lemma inv_sbox_sbox: "map ((!) inv_sbox) sbox = [0..<256]"
  by code_simp

lemma sbox_bytes: "length sbox = 256" "list_all (\<lambda>n. n < 256) sbox"
  by code_simp+

lemma unat_byte: "unat (b :: byte) < 256"
  using unsigned_less [of b] by simp

lemma inv_sub_sub_byte [simp]: "inv_sub_byte (sub_byte b) = b"
proof -
  have "sbox ! unat b < 256" using sbox_bytes unat_byte [of b] by (simp add: list_all_length)
  moreover have "inv_sbox ! (sbox ! unat b) = unat b"
    using arg_cong [OF inv_sbox_sbox, of "\<lambda>xs. xs ! unat b"] unat_byte [of b] sbox_bytes(1) by simp
  ultimately show ?thesis by (simp add: sub_byte_def inv_sub_byte_def unat_of_nat)
qed

section \<open>The steps of a round\<close>

definition add_round_key :: "byte list \<Rightarrow> byte list \<Rightarrow> byte list" where
  "add_round_key k s = map2 (XOR) k s"

definition shift_rows :: "byte list \<Rightarrow> byte list" where
  "shift_rows s = map (\<lambda>i. s ! i) [0, 5, 10, 15, 4, 9, 14, 3, 8, 13, 2, 7, 12, 1, 6, 11]"

definition inv_shift_rows :: "byte list \<Rightarrow> byte list" where
  "inv_shift_rows s = map (\<lambda>i. s ! i) [0, 13, 10, 7, 4, 1, 14, 11, 8, 5, 2, 15, 12, 9, 6, 3]"

text \<open>Multiplication by the polynomial \<open>x\<close> in the field of 256 elements, and by 2 to 14.\<close>

definition xtime :: "byte \<Rightarrow> byte" where
  "xtime b = push_bit 1 b XOR (if bit b 7 then 0x1b else 0)"

fun mix_columns :: "byte list \<Rightarrow> byte list" where
  "mix_columns (a # b # c # d # s) =
     (xtime a XOR (xtime b XOR b) XOR c XOR d) #
     (a XOR xtime b XOR (xtime c XOR c) XOR d) #
     (a XOR b XOR xtime c XOR (xtime d XOR d)) #
     ((xtime a XOR a) XOR b XOR c XOR xtime d) # mix_columns s"
| "mix_columns s = s"

definition mul9 :: "byte \<Rightarrow> byte" where "mul9 b = xtime (xtime (xtime b)) XOR b"
definition mul11 :: "byte \<Rightarrow> byte" where "mul11 b = xtime (xtime (xtime b)) XOR xtime b XOR b"
definition mul13 :: "byte \<Rightarrow> byte" where "mul13 b = xtime (xtime (xtime b)) XOR xtime (xtime b) XOR b"
definition mul14 :: "byte \<Rightarrow> byte" where "mul14 b = xtime (xtime (xtime b)) XOR xtime (xtime b) XOR xtime b"

fun inv_mix_columns :: "byte list \<Rightarrow> byte list" where
  "inv_mix_columns (a # b # c # d # s) =
     (mul14 a XOR mul11 b XOR mul13 c XOR mul9 d) #
     (mul9 a XOR mul14 b XOR mul11 c XOR mul13 d) #
     (mul13 a XOR mul9 b XOR mul14 c XOR mul11 d) #
     (mul11 a XOR mul13 b XOR mul9 c XOR mul14 d) # inv_mix_columns s"
| "inv_mix_columns s = s"

lemma xtime_xor: "xtime (a XOR b) = xtime a XOR xtime b"
  by (simp add: xtime_def bit_xor_iff push_bit_xor ac_simps)

lemma xor_cancel: "a XOR (a XOR b) = (b :: byte)"
  by (simp flip: xor.assoc)

lemma inv_mix_columns_mix [simp]: "inv_mix_columns (mix_columns s) = s"
  by (induction s rule: mix_columns.induct)
    (simp_all add: mul9_def mul11_def mul13_def mul14_def xtime_xor xor.left_commute xor.commute
      xor.assoc xor_cancel)

lemma length_mix_columns [simp]: "length (mix_columns s) = length s"
  by (induction s rule: mix_columns.induct) simp_all

lemma length_shift_rows [simp]: "length (shift_rows s) = 16" "length (inv_shift_rows s) = 16"
  by (simp_all add: shift_rows_def inv_shift_rows_def)

lemma nth_16: "length s = 16 \<Longrightarrow> s = map ((!) s) [0, 1, 2, 3, 4, 5, 6, 7, 8, 9, 10, 11, 12, 13, 14, 15]"
  by (rule nth_equalityI) (auto simp: less_Suc_eq numeral_eq_Suc)

lemma inv_shift_rows_shift [simp]: "length s = 16 \<Longrightarrow> inv_shift_rows (shift_rows s) = s"
  by (subst (2) nth_16) (simp_all add: shift_rows_def inv_shift_rows_def)

lemma add_round_key_twice [simp]:
  "length k = length s \<Longrightarrow> add_round_key k (add_round_key k s) = s"
  by (induction k s rule: list_induct2) (simp_all add: add_round_key_def xor_cancel)

lemma length_add_round_key [simp]: "length (add_round_key k s) = min (length k) (length s)"
  by (simp add: add_round_key_def)

section \<open>The cipher under a list of round keys\<close>

fun enc_rounds :: "byte list list \<Rightarrow> byte list \<Rightarrow> byte list" where
  "enc_rounds [] s = s"
| "enc_rounds [k] s = add_round_key k (shift_rows (map sub_byte s))"
| "enc_rounds (k # ks) s = enc_rounds ks (add_round_key k (mix_columns (shift_rows (map sub_byte s))))"

fun dec_rounds :: "byte list list \<Rightarrow> byte list \<Rightarrow> byte list" where
  "dec_rounds [] s = s"
| "dec_rounds [k] s = map inv_sub_byte (inv_shift_rows (add_round_key k s))"
| "dec_rounds (k # ks) s =
     map inv_sub_byte (inv_shift_rows (inv_mix_columns (add_round_key k (dec_rounds ks s))))"

definition encrypt_block :: "byte list list \<Rightarrow> byte list \<Rightarrow> byte list" where
  "encrypt_block ks s = enc_rounds (tl ks) (add_round_key (hd ks) s)"

definition decrypt_block :: "byte list list \<Rightarrow> byte list \<Rightarrow> byte list" where
  "decrypt_block ks s = add_round_key (hd ks) (dec_rounds (tl ks) s)"

definition wf_keys :: "byte list list \<Rightarrow> bool" where
  "wf_keys ks \<longleftrightarrow> ks \<noteq> [] \<and> (\<forall>k \<in> set ks. length k = 16)"

lemma map_inv_sub_byte [simp]: "map (inv_sub_byte \<circ> sub_byte) s = s"
  by (simp add: map_idI)

lemma dec_enc_rounds:
  "\<forall>k \<in> set ks. length k = 16 \<Longrightarrow> length s = 16 \<Longrightarrow>
   dec_rounds ks (enc_rounds ks s) = s \<and> length (enc_rounds ks s) = 16"
  by (induction ks s rule: enc_rounds.induct) simp_all

lemma decrypt_encrypt_block:
  assumes "wf_keys ks" and "length s = 16"
  shows "decrypt_block ks (encrypt_block ks s) = s" and "length (encrypt_block ks s) = 16"
  using assms dec_enc_rounds [of "tl ks" "add_round_key (hd ks) s"]
  by (cases ks; simp add: decrypt_block_def encrypt_block_def wf_keys_def)+

lemma length_dec_rounds: "length s = 16 \<Longrightarrow> length (dec_rounds ks s) = 16"
  by (cases "(ks, s)" rule: dec_rounds.cases) simp_all

lemma length_decrypt_block:
  "wf_keys ks \<Longrightarrow> length s = 16 \<Longrightarrow> length (decrypt_block ks s) = 16"
  by (cases ks) (simp_all add: decrypt_block_def wf_keys_def length_dec_rounds)

section \<open>Key expansion\<close>

text \<open>
  The words of the key schedule, kept in reverse: the next word is made from the last one and
  the one \<open>nk\<close> words back. \<open>i\<close> is the number of words there are.
\<close>

definition xor_word :: "byte list \<Rightarrow> byte list \<Rightarrow> byte list" where
  "xor_word v w = map2 (XOR) v w"

definition next_word :: "nat \<Rightarrow> nat \<Rightarrow> byte list list \<Rightarrow> byte list" where
  "next_word nk i ws =
     (let w = hd ws;
          w' = (if i mod nk = 0 then xor_word (map sub_byte (rotate1 w)) [(xtime ^^ (i div nk - 1)) 1, 0, 0, 0]
                else if 6 < nk \<and> i mod nk = 4 then map sub_byte w
                else w)
      in xor_word (ws ! (nk - 1)) w')"

fun expand :: "nat \<Rightarrow> nat \<Rightarrow> nat \<Rightarrow> byte list list \<Rightarrow> byte list list" where
  "expand nk 0 i ws = ws"
| "expand nk (Suc n) i ws = expand nk n (Suc i) (next_word nk i ws # ws)"

fun chunk4 :: "'a list \<Rightarrow> 'a list list" where
  "chunk4 (a # b # c # d # s) = [a, b, c, d] # chunk4 s"
| "chunk4 _ = []"

fun join4 :: "'a list list \<Rightarrow> 'a list list" where
  "join4 (a # b # c # d # s) = (a @ b @ c @ d) # join4 s"
| "join4 _ = []"

definition round_keys :: "byte list \<Rightarrow> byte list list" where
  "round_keys key =
     (let nk = length key div 4
      in join4 (rev (expand nk (4 * (nk + 7) - nk) nk (rev (chunk4 key)))))"

lemma length_chunk4 [simp]: "length (chunk4 s) = length s div 4"
  by (induction s rule: chunk4.induct) simp_all

lemma chunk4_words: "\<forall>w \<in> set (chunk4 s). length w = 4"
  by (induction s rule: chunk4.induct) simp_all

lemma expand_words:
  assumes "0 < nk" and "nk \<le> length ws" and "\<forall>w \<in> set ws. length w = 4"
  shows "length (expand nk n i ws) = n + length ws \<and> (\<forall>w \<in> set (expand nk n i ws). length w = 4)"
  using assms
proof (induction nk n i ws rule: expand.induct)
  case (2 nk n i ws)
  have "nk - 1 < length ws" and "ws \<noteq> []" using "2.prems"(1,2) by auto
  then have "length (ws ! (nk - 1)) = 4" and "length (hd ws) = 4"
    using "2.prems"(3) nth_mem hd_in_set by blast+
  then have "length (next_word nk i ws) = 4"
    by (simp add: next_word_def xor_word_def Let_def)
  then have "\<forall>w \<in> set (next_word nk i ws # ws). length w = 4" and "nk \<le> length (next_word nk i ws # ws)"
    using "2.prems"(2,3) by simp_all
  from "2.IH" [OF "2.prems"(1) this(2,1)] show ?case
    by (simp only: expand.simps list.size add_Suc_right add_Suc add_0_right simp_thms) blast
qed simp

lemma join4_blocks: "\<forall>w \<in> set ws. length w = 4 \<Longrightarrow> \<forall>k \<in> set (join4 ws). length k = 16"
  by (induction ws rule: join4.induct) simp_all

lemma join4_empty: "join4 ws = [] \<longleftrightarrow> length ws < 4"
  by (cases ws rule: join4.cases) simp_all

lemma join4_wf: "4 \<le> length ws \<Longrightarrow> \<forall>w \<in> set ws. length w = 4 \<Longrightarrow> wf_keys (join4 ws)"
  using join4_blocks [of ws] join4_empty [of ws] by (simp add: wf_keys_def)

lemma round_keys_wf:
  assumes "4 \<le> length key"
  shows "wf_keys (round_keys key)"
proof -
  define nk n where "nk = length key div 4" and "n = 4 * (nk + 7) - nk"
  have nk: "0 < nk" and n: "4 \<le> n" using assms unfolding nk_def n_def by simp_all
  have "\<forall>w \<in> set (rev (chunk4 key)). length w = 4" and "nk \<le> length (rev (chunk4 key))"
    using chunk4_words [of key] by (simp_all add: nk_def)
  note ws = expand_words [OF nk this(2,1), of n nk]
  then have "wf_keys (join4 (rev (expand nk n nk (rev (chunk4 key)))))"
    using n by (intro join4_wf) simp_all
  then show ?thesis by (simp only: round_keys_def Let_def nk_def n_def)
qed

end
