(* ===== verification/Base64.thy ===== *)
theory Base64
  imports Prelude
begin

text \<open>
  Go's \<open>base64.StdEncoding\<close>: the alphabet, groups of three bytes, padding with \<open>=\<close>. The decoder
  skips line breaks, does not look at the unused bits of a last group, and reports everything
  else as corrupt (\<open>None\<close>).
\<close>

section \<open>The alphabet\<close>

definition b64_char :: "nat \<Rightarrow> char" where
  "b64_char v =
     (if v < 26 then char_of (v + 65)
      else if v < 52 then char_of (v + 71)
      else if v < 62 then char_of (v - 4)
      else if v = 62 then CHR ''+'' else CHR ''/'')"

definition b64_value :: "char \<Rightarrow> nat option" where
  "b64_value c =
     (let n = of_char c in
      if 65 \<le> n \<and> n \<le> 90 then Some (n - 65)
      else if 97 \<le> n \<and> n \<le> 122 then Some (n - 71)
      else if 48 \<le> n \<and> n \<le> 57 then Some (n + 4)
      else if n = 43 then Some 62
      else if n = 47 then Some 63
      else None)"

lemma b64_value_char: "v < 64 \<Longrightarrow> b64_value (b64_char v) = Some v"
  by (auto simp: b64_value_def b64_char_def Let_def of_char_of)

lemma b64_char_values: "v < 64 \<Longrightarrow> of_char (b64_char v) \<in> {43, 47 :: nat} \<union> {48..57} \<union> {65..90} \<union> {97..122}"
  by (auto simp: b64_char_def of_char_of)

lemma b64_char_plain:
  assumes "v < 64"
  shows "b64_char v \<noteq> CHR ''=''" and "b64_char v \<noteq> CHR 0x0A" and "b64_char v \<noteq> CHR 0x0D"
  using b64_char_values [OF assms] by auto

section \<open>Encoding\<close>

fun b64_encode :: "8 word list \<Rightarrow> string" where
  "b64_encode [] = []"
| "b64_encode [a] =
     [b64_char (unat a div 4), b64_char (unat a mod 4 * 16), CHR ''='', CHR ''='']"
| "b64_encode [a, b] =
     [b64_char (unat a div 4), b64_char (unat a mod 4 * 16 + unat b div 16),
      b64_char (unat b mod 16 * 4), CHR ''='']"
| "b64_encode (a # b # c # s) =
     b64_char (unat a div 4) # b64_char (unat a mod 4 * 16 + unat b div 16) #
     b64_char (unat b mod 16 * 4 + unat c div 64) # b64_char (unat c mod 64) # b64_encode s"

section \<open>Decoding\<close>

text \<open>The three bytes that four six-bit values stand for.\<close>

definition byte1 :: "nat \<Rightarrow> nat \<Rightarrow> 8 word" where "byte1 p q = word_of_nat (p * 4 + q div 16)"
definition byte2 :: "nat \<Rightarrow> nat \<Rightarrow> 8 word" where "byte2 q r = word_of_nat (q mod 16 * 16 + r div 4)"
definition byte3 :: "nat \<Rightarrow> nat \<Rightarrow> 8 word" where "byte3 r t = word_of_nat (r mod 4 * 64 + t)"

definition b64_bytes :: "nat list \<Rightarrow> 8 word list" where
  "b64_bytes vs =
     (case vs of
        [p, q] \<Rightarrow> [byte1 p q]
      | [p, q, r] \<Rightarrow> [byte1 p q, byte2 q r]
      | [p, q, r, t] \<Rightarrow> [byte1 p q, byte2 q r, byte3 r t]
      | _ \<Rightarrow> [])"

definition b64_values :: "string \<Rightarrow> nat list option" where
  "b64_values cs = those (map b64_value cs)"

fun b64_groups :: "string \<Rightarrow> 8 word list option" where
  "b64_groups [] = Some []"
| "b64_groups (p # q # r # t # s) =
     (if t = CHR ''='' \<and> s = [] then
        map_option b64_bytes (b64_values (if r = CHR ''='' then [p, q] else [p, q, r]))
      else
        (case b64_values [p, q, r, t] of
           None \<Rightarrow> None
         | Some vs \<Rightarrow> map_option ((@) (b64_bytes vs)) (b64_groups s)))"
| "b64_groups _ = None"

definition b64_decode :: "string \<Rightarrow> 8 word list option" where
  "b64_decode s = b64_groups (filter (\<lambda>c. c \<noteq> CHR 0x0A \<and> c \<noteq> CHR 0x0D) s)"

section \<open>Decoding inverts encoding\<close>

lemma unat_8: "unat (b :: 8 word) < 256"
  using unsigned_less [of b] by simp

lemma digit_bounds:
  "unat (a :: 8 word) div 4 < 64" "unat (a :: 8 word) mod 4 * 16 + unat (b :: 8 word) div 16 < 64"
  "unat (b :: 8 word) mod 16 * 4 + unat (c :: 8 word) div 64 < 64" "unat (c :: 8 word) mod 64 < 64"
  "unat (a :: 8 word) mod 4 * 16 < 64" "unat (b :: 8 word) mod 16 * 4 < 64"
  using unat_8 [of a] unat_8 [of b] unat_8 [of c] by linarith+

lemma word_of_nat_unat_8: "word_of_nat (unat a) = (a :: 8 word)"
  by simp

lemma digits_byte1:
  fixes a b :: "8 word"
  shows "byte1 (unat a div 4) (unat a mod 4 * 16 + unat b div 16) = a"
proof -
  have "unat b div 16 < 16" using unat_8 [of b] by linarith
  then have "unat a div 4 * 4 + (unat a mod 4 * 16 + unat b div 16) div 16 = unat a"
    by (simp add: mult.commute [of _ 4])
  then show ?thesis by (simp only: byte1_def word_of_nat_unat_8)
qed

lemma digits_byte2:
  fixes a b c :: "8 word"
  shows "byte2 (unat a mod 4 * 16 + unat b div 16) (unat b mod 16 * 4 + unat c div 64) = b"
proof -
  have "unat b div 16 < 16" and "unat c div 64 < 4" using unat_8 [of b] unat_8 [of c] by linarith+
  then have "(unat a mod 4 * 16 + unat b div 16) mod 16 * 16 + (unat b mod 16 * 4 + unat c div 64) div 4
      = unat b"
    by (simp add: mult.commute [of _ 16])
  then show ?thesis by (simp only: byte2_def word_of_nat_unat_8)
qed

lemma digits_byte3:
  fixes b c :: "8 word"
  shows "byte3 (unat b mod 16 * 4 + unat c div 64) (unat c mod 64) = c"
proof -
  have "unat c div 64 < 4" using unat_8 [of c] by linarith
  then have "(unat b mod 16 * 4 + unat c div 64) mod 4 * 64 + unat c mod 64 = unat c"
    by (simp add: mult.commute [of _ 64])
  then show ?thesis by (simp only: byte3_def word_of_nat_unat_8)
qed

lemma digits_last:
  fixes a b :: "8 word"
  shows "byte1 (unat a div 4) (unat a mod 4 * 16) = a"
    and "byte2 (unat a mod 4 * 16 + unat b div 16) (unat b mod 16 * 4) = b"
  using digits_byte1 [of a 0] digits_byte2 [of a b 0] by simp_all

lemmas digits_bytes = digits_byte1 digits_byte2 digits_byte3 digits_last

lemma b64_values_digits:
  "list_all (\<lambda>v. v < 64) vs \<Longrightarrow> b64_values (map b64_char vs) = Some vs"
  by (induction vs) (simp_all add: b64_values_def b64_value_char)

lemma b64_groups_encode: "b64_groups (b64_encode s) = Some s"
proof (induction s rule: b64_encode.induct)
  case (2 a)
  then show ?case
    using b64_values_digits [of "[unat a div 4, unat a mod 4 * 16]"]
    by (simp add: digit_bounds b64_bytes_def digits_bytes)
next
  case (3 a b)
  then show ?case
    using b64_values_digits [of "[unat a div 4, unat a mod 4 * 16 + unat b div 16, unat b mod 16 * 4]"]
    by (simp add: digit_bounds b64_bytes_def digits_bytes b64_char_plain)
next
  case (4 a b c s)
  then show ?case
    using b64_values_digits [of "[unat a div 4, unat a mod 4 * 16 + unat b div 16,
        unat b mod 16 * 4 + unat c div 64, unat c mod 64]"]
    by (simp add: digit_bounds b64_bytes_def digits_bytes b64_char_plain)
qed simp

lemma b64_encode_plain: "c \<in> set (b64_encode s) \<Longrightarrow> c \<noteq> CHR 0x0A \<and> c \<noteq> CHR 0x0D"
  by (induction s rule: b64_encode.induct) (auto simp: b64_char_plain digit_bounds)

lemma b64_decode_encode [simp]: "b64_decode (b64_encode s) = Some s"
proof -
  have "filter (\<lambda>c. c \<noteq> CHR 0x0A \<and> c \<noteq> CHR 0x0D) (b64_encode s) = b64_encode s"
    by (rule filter_True) (simp add: b64_encode_plain)
  then show ?thesis by (simp add: b64_decode_def b64_groups_encode)
qed

text \<open>What is decoded: at most three bytes for each four characters.\<close>

lemma length_b64_bytes: "length (b64_bytes vs) \<le> 3"
  by (simp add: b64_bytes_def split: list.split)

lemma length_b64_groups: "b64_groups s = Some d \<Longrightarrow> length d \<le> 3 * (length s div 4)"
proof (induction s arbitrary: d rule: b64_groups.induct)
  case (2 p q r t s)
  have "length (b64_bytes vs @ d') \<le> 3 * (length (p # q # r # t # s) div 4)"
    if "length d' \<le> 3 * (length s div 4)" for vs d'
    using length_b64_bytes [of vs] that by simp
  from this [of _ "[]"] this show ?case using 2 by (auto split: if_splits option.splits)
qed simp_all

lemma length_b64_decode:
  assumes "b64_decode s = Some d"
  shows "length d \<le> 3 * (length s div 4)"
proof -
  let ?s = "filter (\<lambda>c. c \<noteq> CHR 0x0A \<and> c \<noteq> CHR 0x0D) s"
  have "length ?s div 4 \<le> length s div 4" by (rule div_le_mono) (rule length_filter_le)
  then show ?thesis using length_b64_groups [of ?s d] assms by (simp add: b64_decode_def)
qed

lemma groups_of_3: "(n + 5) div 3 = Suc ((n + 2) div 3)" for n :: nat
  using div_add_self2 [of 3 "n + 2"] by (simp add: algebra_simps)

lemma length_b64_encode: "length (b64_encode s) = 4 * ((length s + 2) div 3)"
proof (induction s rule: b64_encode.induct)
  case (4 a b c s)
  then show ?case using groups_of_3 [of "length s"] by (simp add: algebra_simps)
qed simp_all

end
