(* ===== verification/Codec.thy ===== *)
theory Codec
  imports Prelude
begin

text \<open>
  The interface of an encoder and its decoder, both under the same setting \<open>k\<close> (a key and a
  source of randomness, a configuration, or nothing): what a good value is encoded to, the
  decoder turns back into it. Two codecs in a row are a codec.
\<close>

locale codec =
  fixes enc :: "'k \<Rightarrow> 'a \<Rightarrow> ('e, 'b) fallible"
    and dec :: "'k \<Rightarrow> 'b \<Rightarrow> ('e, 'a) fallible"
    and good :: "'k \<Rightarrow> 'a \<Rightarrow> bool"
  assumes encodes: "good k x \<Longrightarrow> \<exists>y. enc k x = Ok y"
    and dec_enc: "good k x \<Longrightarrow> enc k x = Ok y \<Longrightarrow> dec k y = Ok x"
begin

lemma round_trip: "good k x \<Longrightarrow> fallible_then (enc k x) (dec k) = Ok x"
  using encodes [of k x] dec_enc [of k x] by auto

lemma enc_inj: "good k x \<Longrightarrow> good k x' \<Longrightarrow> enc k x = enc k x' \<Longrightarrow> x = x'"
  using encodes [of k x] dec_enc [of k x] dec_enc [of k x'] by auto

end

locale codec_chain = inner: codec e1 d1 good1 + outer: codec e2 d2 good2
  for e1 :: "'k \<Rightarrow> 'a \<Rightarrow> ('e, 'b) fallible" and d1 and good1
    and e2 :: "'k \<Rightarrow> 'b \<Rightarrow> ('e, 'c) fallible" and d2 and good2 +
  assumes link: "good1 k x \<Longrightarrow> e1 k x = Ok y \<Longrightarrow> good2 k y"

sublocale codec_chain \<subseteq> chain: codec
  "\<lambda>k x. fallible_then (e1 k x) (e2 k)" "\<lambda>k z. fallible_then (d2 k z) (d1 k)" good1
proof
  fix k x z
  assume good: "good1 k x"
  then obtain y where y: "e1 k x = Ok y" using inner.encodes by blast
  then have good2: "good2 k y" using link good by blast
  then show "\<exists>z. fallible_then (e1 k x) (e2 k) = Ok z" using y outer.encodes by simp
  assume "fallible_then (e1 k x) (e2 k) = Ok z"
  then show "fallible_then (d2 k z) (d1 k) = Ok x"
    using y outer.dec_enc [OF good2] inner.dec_enc [OF good y] by simp
qed

end
