(* ===== verification/Crypto.thy ===== *)
theory Crypto
  imports Aes Base64 Codec
begin

text \<open>
  tools/crypto/crypto.go: AES in CBC mode with PKCS7 padding and base64 around it. A \<open>[]byte\<close> is
  a list of bytes; the random source is a function giving the bytes it would yield, or \<open>None\<close>
  where reading it fails.
\<close>

type_synonym bytes = "8 word list"

definition string_bytes :: "string \<Rightarrow> bytes" where
  "string_bytes s = map (\<lambda>c. word_of_nat (of_char c)) s"

definition bytes_string :: "bytes \<Rightarrow> string" where
  "bytes_string bs = map (\<lambda>b. char_of (unat b)) bs"

lemma bytes_string_bytes [simp]: "bytes_string (string_bytes s) = s"
  by (simp add: bytes_string_def string_bytes_def o_def unat_of_nat)

lemma length_string_bytes [simp]: "length (string_bytes s) = length s"
  by (simp add: string_bytes_def)

datatype crypto_error = CorruptInputError | KeySizeError nat | RandError | TooShort | NotMultiple | UnPaddingError

section \<open>Padding\<close>

definition pKCS7Padding :: "bytes \<Rightarrow> nat \<Rightarrow> bytes" where
  "pKCS7Padding ciphertext blockSize =
     (let padding = blockSize - length ciphertext mod blockSize
      in ciphertext @ replicate padding (word_of_nat padding))"

text \<open>The last byte of an empty slice is out of range.\<close>

definition pKCS7UnPadding :: "bytes \<Rightarrow> (crypto_error, bytes) fallible" where
  "pKCS7UnPadding origData =
     (if origData = [] then Panic
      else
        (let len = int (length origData); unpadding = uint (last origData)
         in if len - unpadding < 0 \<or> len - unpadding > len then Err UnPaddingError
            else Ok (take (nat (len - unpadding)) origData)))"

section \<open>The block cipher and its chaining\<close>

definition BlockSize :: nat where "BlockSize = 16"

definition NewCipher :: "bytes \<Rightarrow> (crypto_error, byte list list) fallible" where
  "NewCipher key =
     (if length key \<in> {16, 24, 32} then Ok (round_keys key) else Err (KeySizeError (length key)))"

function cbc_encrypt :: "byte list list \<Rightarrow> bytes \<Rightarrow> bytes \<Rightarrow> bytes" where
  "cbc_encrypt ks prev s =
     (if s = [] then []
      else (let c = encrypt_block ks (map2 (XOR) (take 16 s) prev)
            in c @ cbc_encrypt ks c (drop 16 s)))"
  by pat_completeness auto
termination by (relation "measure (\<lambda>(ks, prev, s). length s)") (auto simp: Let_def)

function cbc_decrypt :: "byte list list \<Rightarrow> bytes \<Rightarrow> bytes \<Rightarrow> bytes" where
  "cbc_decrypt ks prev s =
     (if s = [] then []
      else map2 (XOR) (decrypt_block ks (take 16 s)) prev @ cbc_decrypt ks (take 16 s) (drop 16 s))"
  by pat_completeness auto
termination by (relation "measure (\<lambda>(ks, prev, s). length s)") auto

declare cbc_encrypt.simps [simp del] cbc_decrypt.simps [simp del]

definition aesCBCEncrypt :: "(nat \<Rightarrow> byte) option \<Rightarrow> bytes \<Rightarrow> bytes \<Rightarrow> (crypto_error, bytes) fallible" where
  "aesCBCEncrypt rnd rawData key =
     fallible_then (NewCipher key) (\<lambda>block.
       let rawData' = pKCS7Padding rawData BlockSize
       in case rnd of
            None \<Rightarrow> Err RandError
          | Some r \<Rightarrow>
              (let iv = map r [0..<BlockSize]
               in Ok (iv @ cbc_encrypt block iv rawData')))"

definition aesCBCDncrypt :: "bytes \<Rightarrow> bytes \<Rightarrow> (crypto_error, bytes) fallible" where
  "aesCBCDncrypt encryptData key =
     fallible_then (NewCipher key) (\<lambda>block.
       if length encryptData < BlockSize then Err TooShort
       else
         (let iv = take BlockSize encryptData; encryptData' = drop BlockSize encryptData
          in if length encryptData' mod BlockSize \<noteq> 0 then Err NotMultiple
             else pKCS7UnPadding (cbc_decrypt block iv encryptData')))"

section \<open>The exported functions\<close>

definition Encrypt :: "(nat \<Rightarrow> byte) option \<Rightarrow> bytes \<Rightarrow> bytes \<Rightarrow> (crypto_error, string) fallible" where
  "Encrypt rnd rawData key =
     fallible_then (aesCBCEncrypt rnd rawData key) (\<lambda>data. Ok (b64_encode data))"

definition DecodeString :: "string \<Rightarrow> (crypto_error, bytes) fallible" where
  "DecodeString s = (case b64_decode s of None \<Rightarrow> Err CorruptInputError | Some data \<Rightarrow> Ok data)"

definition Decrypt :: "string \<Rightarrow> bytes \<Rightarrow> (crypto_error, string) fallible" where
  "Decrypt rawData key =
     fallible_then (DecodeString rawData) (\<lambda>data.
       fallible_then (aesCBCDncrypt data key) (\<lambda>dnData. Ok (bytes_string dnData)))"

section \<open>Padding is undone\<close>

lemma pad_size: "0 < b \<Longrightarrow> 0 < b - n mod b \<and> b - n mod b \<le> b" for b n :: nat
  by simp

lemma length_pKCS7Padding:
  assumes "0 < b"
  shows "length (pKCS7Padding s b) = b * (length s div b + 1)"
proof -
  have "length s mod b < b" using assms by simp
  then have "length s + (b - length s mod b) = b * (length s div b) + b"
    using mult_div_mod_eq [of b "length s"] by linarith
  then show ?thesis by (simp add: pKCS7Padding_def Let_def)
qed

lemma pKCS7UnPadding_pad:
  assumes "0 < b" and "b < 256"
  shows "pKCS7UnPadding (pKCS7Padding s b) = Ok s"
proof -
  define p where "p = b - length s mod b"
  have p: "0 < p" "p < 256"
    using pad_size [OF assms(1), of "length s"] assms(2) unfolding p_def by (blast, blast intro: le_less_trans)
  then have "last (pKCS7Padding s b) = word_of_nat p"
    by (simp add: pKCS7Padding_def Let_def last_append flip: p_def)
  moreover have "uint (word_of_nat p :: 8 word) = int p"
    using p by (simp add: uint_nat unat_of_nat)
  moreover have "pKCS7Padding s b = s @ replicate p (word_of_nat p)"
    by (simp add: pKCS7Padding_def Let_def flip: p_def)
  ultimately show ?thesis using p(1) by (simp add: pKCS7UnPadding_def)
qed

section \<open>Chaining is undone\<close>

lemma xor_block_twice: "length s = length p \<Longrightarrow> map2 (XOR) (map2 (XOR) s p) p = (s :: bytes)"
  by (induction s p rule: list_induct2) (simp_all add: xor.assoc)

lemma cbc_step:
  assumes "wf_keys ks" and "length prev = 16" and "length s = 16"
  shows "length (encrypt_block ks (map2 (XOR) s prev)) = 16"
    and "map2 (XOR) (decrypt_block ks (encrypt_block ks (map2 (XOR) s prev))) prev = s"
  using assms by (simp_all add: decrypt_encrypt_block xor_block_twice)

lemma cbc_decrypt_encrypt:
  assumes "wf_keys ks" and "length prev = 16" and "16 dvd length s"
  shows "cbc_decrypt ks prev (cbc_encrypt ks prev s) = s \<and> length (cbc_encrypt ks prev s) = length s"
  using assms
proof (induction ks prev s rule: cbc_encrypt.induct)
  case (1 ks prev s)
  show ?case
  proof (cases "s = []")
    case True
    then show ?thesis by (simp add: cbc_encrypt.simps cbc_decrypt.simps)
  next
    case False
    let ?c = "encrypt_block ks (map2 (XOR) (take 16 s) prev)"
    have s16: "16 \<le> length s" using "1.prems"(3) False by (intro dvd_imp_le) auto
    then have c: "length ?c = 16" "map2 (XOR) (decrypt_block ks ?c) prev = take 16 s"
      using cbc_step [OF "1.prems"(1,2), of "take 16 s"] by simp_all
    have "16 dvd length (drop 16 s)" using "1.prems"(3) s16 by (simp add: dvd_diff_nat)
    note IH = "1.IH" [OF False refl "1.prems"(1) c(1) this]
    have enc: "cbc_encrypt ks prev s = ?c @ cbc_encrypt ks ?c (drop 16 s)"
      using False by (subst cbc_encrypt.simps) (simp add: Let_def)
    have "?c @ cbc_encrypt ks ?c (drop 16 s) \<noteq> []" using c(1) by auto
    then have "cbc_decrypt ks prev (?c @ cbc_encrypt ks ?c (drop 16 s)) = take 16 s @ drop 16 s"
      using IH c by (subst cbc_decrypt.simps) (simp del: append_take_drop_id append_is_Nil_conv)
    then show ?thesis unfolding enc using IH c(1) s16 by simp
  qed
qed

lemma length_cbc_decrypt:
  assumes "wf_keys ks" and "length prev = 16" and "16 dvd length s"
  shows "length (cbc_decrypt ks prev s) = length s"
  using assms
proof (induction ks prev s rule: cbc_decrypt.induct)
  case (1 ks prev s)
  show ?case
  proof (cases "s = []")
    case False
    have s16: "16 \<le> length s" using "1.prems"(3) False by (intro dvd_imp_le) auto
    then have "16 dvd length (drop 16 s)" using "1.prems"(3) by (simp add: dvd_diff_nat)
    then have "length (cbc_decrypt ks (take 16 s) (drop 16 s)) = length s - 16"
      using "1.IH" [OF False "1.prems"(1)] s16 by simp
    then show ?thesis
      using False s16 "1.prems"(2) length_decrypt_block [OF "1.prems"(1), of "take 16 s"]
      by (subst cbc_decrypt.simps) simp
  qed (simp add: cbc_decrypt.simps)
qed

section \<open>The codecs\<close>

text \<open>
  Under a key and a random source: padding, the cipher on padded data with its initial vector
  in front, and base64. A key must have one of the three lengths, and the source must deliver.
\<close>

type_synonym crypto_setting = "(nat \<Rightarrow> byte) option \<times> bytes"

definition usable :: "crypto_setting \<Rightarrow> bool" where
  "usable k \<longleftrightarrow> fst k \<noteq> None \<and> length (snd k) \<in> {16, 24, 32}"

lemma NewCipher_wf: "NewCipher key = Ok ks \<Longrightarrow> wf_keys ks"
  by (auto simp: NewCipher_def round_keys_wf split: if_splits)

lemma NewCipher_usable: "usable k \<Longrightarrow> NewCipher (snd k) = Ok (round_keys (snd k))"
  by (simp add: usable_def NewCipher_def)

interpretation cbc: codec "\<lambda>k x. aesCBCEncrypt (fst k) x (snd k)" "\<lambda>k y. aesCBCDncrypt y (snd k)"
  "\<lambda>k _. usable k"
proof
  fix k :: crypto_setting and x y
  assume k: "usable k"
  then obtain r where r: "fst k = Some r" by (auto simp: usable_def)
  show "\<exists>y. aesCBCEncrypt (fst k) x (snd k) = Ok y"
    using r by (simp add: aesCBCEncrypt_def NewCipher_usable [OF k] Let_def)
  let ?ks = "round_keys (snd k)" and ?iv = "map r [0..<16]" and ?x = "pKCS7Padding x 16"
  assume "aesCBCEncrypt (fst k) x (snd k) = Ok y"
  then have y: "y = ?iv @ cbc_encrypt ?ks ?iv ?x"
    using r by (simp add: aesCBCEncrypt_def NewCipher_usable [OF k] Let_def BlockSize_def)
  have len: "16 dvd length ?x" using length_pKCS7Padding [of 16 x] by simp
  note cbc = cbc_decrypt_encrypt [OF NewCipher_wf [OF NewCipher_usable [OF k]] _ len, of ?iv]
  then have "length (cbc_encrypt ?ks ?iv ?x) mod 16 = 0" using len by simp
  then show "aesCBCDncrypt y (snd k) = Ok x"
    using cbc pKCS7UnPadding_pad [of 16 x]
    by (simp add: aesCBCDncrypt_def NewCipher_usable [OF k] Let_def BlockSize_def y)
qed

interpretation b64: codec "\<lambda>_ data. Ok (b64_encode data)" "\<lambda>_. DecodeString" "\<lambda>_ _. True"
  by unfold_locales (auto simp: DecodeString_def)

interpretation go_bytes: codec "\<lambda>_ s. Ok (string_bytes s)" "\<lambda>_ bs. Ok (bytes_string bs)" "\<lambda>_ _. True"
  by unfold_locales auto

interpretation cbc_b64: codec_chain
  "\<lambda>k x. aesCBCEncrypt (fst k) x (snd k)" "\<lambda>k y. aesCBCDncrypt y (snd k)" "\<lambda>k _. usable k"
  "\<lambda>_ data. Ok (b64_encode data)" "\<lambda>_. DecodeString" "\<lambda>_ _. True"
  by unfold_locales simp

interpretation crypt: codec_chain "\<lambda>_ s. Ok (string_bytes s)" "\<lambda>_ bs. Ok (bytes_string bs)" "\<lambda>k _. usable k"
  "\<lambda>k x. fallible_then (aesCBCEncrypt (fst k) x (snd k)) (\<lambda>data. Ok (b64_encode data))"
  "\<lambda>k z. fallible_then (DecodeString z) (\<lambda>y. aesCBCDncrypt y (snd k))" "\<lambda>k _. usable k"
  by unfold_locales auto

lemma Decrypt_chain:
  "Decrypt z key =
     fallible_then (fallible_then (DecodeString z) (\<lambda>y. aesCBCDncrypt y key)) (\<lambda>bs. Ok (bytes_string bs))"
  by (cases "DecodeString z") (simp_all add: Decrypt_def)

section \<open>Sizes\<close>

lemma aesCBCEncrypt_size:
  assumes "aesCBCEncrypt (Some r) raw key = Ok y"
  shows "length y = 16 * (length raw div 16 + 2)"
proof -
  obtain ks where ks: "NewCipher key = Ok ks"
    and y: "y = map r [0..<16] @ cbc_encrypt ks (map r [0..<16]) (pKCS7Padding raw 16)"
    using assms by (auto simp: aesCBCEncrypt_def fallible_then_eq Let_def BlockSize_def)
  have "16 dvd length (pKCS7Padding raw 16)" using length_pKCS7Padding [of 16 raw] by simp
  then show ?thesis
    using cbc_decrypt_encrypt [OF NewCipher_wf [OF ks], of "map r [0..<16]"] length_pKCS7Padding [of 16 raw]
    by (simp add: y algebra_simps)
qed

lemma unpad_cases:
  assumes "d \<noteq> []"
  shows "pKCS7UnPadding d =
    (if unat (last d) \<le> length d then Ok (take (length d - unat (last d)) d) else Err UnPaddingError)"
proof -
  define n where "n = unat (last d)"
  have "uint (last d) = int n" by (simp add: n_def)
  then show ?thesis
    unfolding n_def [symmetric] using assms by (simp add: pKCS7UnPadding_def Let_def nat_diff_distrib)
qed

lemma unpad_size: "pKCS7UnPadding d = Ok x \<Longrightarrow> d \<noteq> [] \<and> length x \<le> length d"
  using unpad_cases [of d] by (cases "d = []") (auto simp: pKCS7UnPadding_def split: if_splits)

text \<open>What reaches the unpadding: one decrypted byte for each byte after the initial vector.\<close>

lemma aesCBCDncrypt_cases:
  "aesCBCDncrypt d key =
     (if length key \<notin> {16, 24, 32} then Err (KeySizeError (length key))
      else if length d < 16 then Err TooShort
      else if \<not> 16 dvd length d then Err NotMultiple
      else pKCS7UnPadding (cbc_decrypt (round_keys key) (take 16 d) (drop 16 d)))"
proof -
  have "(length d - 16) mod 16 = 0 \<longleftrightarrow> 16 dvd length d" if "16 \<le> length d"
    using that by (simp add: dvd_eq_mod_eq_0 le_mod_geq)
  then show ?thesis
    by (cases "16 \<le> length d") (simp_all add: aesCBCDncrypt_def NewCipher_def BlockSize_def Let_def)
qed

lemma length_decrypted:
  assumes "length key \<in> {16, 24, 32}" and "16 \<le> length d" and "16 dvd length d"
  shows "length (cbc_decrypt (round_keys key) (take 16 d) (drop 16 d)) = length d - 16"
proof -
  have "wf_keys (round_keys key)" using assms(1) by (intro round_keys_wf) auto
  moreover have "16 dvd length (drop 16 d)" using assms(2,3) by (simp add: dvd_diff_nat)
  ultimately show ?thesis using length_cbc_decrypt [of _ "take 16 d" "drop 16 d"] assms(2) by simp
qed

section \<open>Properties\<close>

lemma encrypt_decrypt:
  assumes "length key \<in> {16, 24, 32}"
  shows "\<exists>y. aesCBCEncrypt (Some r) (string_bytes s) key = Ok y \<and> Decrypt (b64_encode y) key = Ok s"
proof -
  have good: "usable (Some r, key)" using assms by (simp add: usable_def)
  obtain y where y: "aesCBCEncrypt (Some r) (string_bytes s) key = Ok y"
    using cbc.encodes [OF good] by auto
  have "Decrypt (b64_encode y) key = Ok s"
    using crypt.chain.dec_enc [OF good, of s "b64_encode y"] y by (simp add: Decrypt_chain)
  then show ?thesis using y by blast
qed

text \<open>
  C8. For a key of 16, 24 or 32 bytes, whatever bytes the random source yields, \<open>Encrypt\<close> of any
  string succeeds with base64 text of the stated length, and \<open>Decrypt\<close> of that text under the
  same key gives the string back.
\<close>

theorem Decrypt_Encrypt:
  assumes "length key \<in> {16, 24, 32}"
  shows "\<exists>c. Encrypt (Some r) (string_bytes s) key = Ok c \<and> Decrypt c key = Ok s \<and>
    length c = 4 * ((16 * (length s div 16 + 2) + 2) div 3)"
proof -
  obtain y where y: "aesCBCEncrypt (Some r) (string_bytes s) key = Ok y" and "Decrypt (b64_encode y) key = Ok s"
    using encrypt_decrypt [OF assms] by blast
  then show ?thesis using aesCBCEncrypt_size [OF y] by (simp add: Encrypt_def length_b64_encode)
qed

theorem Decrypt_Encrypt_witness:
  "\<exists>c. Encrypt (Some (\<lambda>i. word_of_nat (i * i))) (string_bytes ''10.0.0.1:7900'') (string_bytes ''Adba723b7fe06819'') = Ok c \<and>
     Decrypt c (string_bytes ''Adba723b7fe06819'') = Ok ''10.0.0.1:7900'' \<and> length c = 44"
  using Decrypt_Encrypt [of "string_bytes ''Adba723b7fe06819''" "\<lambda>i. word_of_nat (i * i)" "''10.0.0.1:7900''"]
  by simp

text \<open>
  C39. \<open>Decrypt\<close> panics (an index out of range in \<open>pKCS7UnPadding\<close>) exactly when the key has a
  valid length and the text is base64 of sixteen bytes: an initial vector and no block.
\<close>

theorem Decrypt_panics_iff:
  "Decrypt s key = Panic \<longleftrightarrow>
     length key \<in> {16, 24, 32} \<and> (\<exists>d. b64_decode s = Some d \<and> length d = 16)"
proof (cases "b64_decode s")
  case None
  then show ?thesis by (simp add: Decrypt_def DecodeString_def)
next
  case (Some d)
  let ?x = "cbc_decrypt (round_keys key) (take 16 d) (drop 16 d)"
  have unpad: "pKCS7UnPadding x = Panic \<longleftrightarrow> x = []" for x by (simp add: pKCS7UnPadding_def Let_def)
  have "?x = [] \<longleftrightarrow> length d = 16"
    if "length key \<in> {16, 24, 32}" and "16 \<le> length d" and "16 dvd length d"
    using length_decrypted [OF that] that(2) by auto
  then show ?thesis
    using Some by (auto simp: Decrypt_def DecodeString_def fallible_then_eq aesCBCDncrypt_cases unpad)
qed

text \<open>
  What \<open>Decrypt\<close> accepts: the key has a valid length, the text decodes to an initial vector
  and at least one whole block, and the result has no more bytes than the blocks.
\<close>

theorem Decrypt_accepts:
  assumes "Decrypt s key = Ok x"
  shows "length key \<in> {16, 24, 32} \<and>
    (\<exists>d. b64_decode s = Some d \<and> 32 \<le> length d \<and> 16 dvd length d \<and> length x + 16 \<le> length d)"
proof -
  obtain d bs where d: "b64_decode s = Some d" and bs: "aesCBCDncrypt d key = Ok bs" "x = bytes_string bs"
    using assms by (auto simp: Decrypt_def DecodeString_def fallible_then_eq split: option.splits)
  then have key: "length key \<in> {16, 24, 32}" and len: "16 \<le> length d" "16 dvd length d"
    and un: "pKCS7UnPadding (cbc_decrypt (round_keys key) (take 16 d) (drop 16 d)) = Ok bs"
    by (auto simp: aesCBCDncrypt_cases split: if_splits)
  have "length d \<noteq> 16" and "length bs + 16 \<le> length d"
    using unpad_size [OF un] length_decrypted [OF key len] len(1) by auto
  moreover have "length d \<noteq> 16 \<longrightarrow> 32 \<le> length d" using len by (auto elim!: dvdE)
  ultimately show ?thesis using key d len bs(2) by (auto simp: bytes_string_def)
qed

theorem Decrypt_accepts_witness:
  "\<exists>s d. Decrypt s (string_bytes ''Adba723b7fe06819'') = Ok ''10.0.0.1:7900'' \<and> b64_decode s = Some d \<and> 32 \<le> length d"
proof -
  let ?key = "string_bytes ''Adba723b7fe06819''"
  obtain y where y: "aesCBCEncrypt (Some (\<lambda>_. 7)) (string_bytes ''10.0.0.1:7900'') ?key = Ok y"
    and "Decrypt (b64_encode y) ?key = Ok ''10.0.0.1:7900''"
    using encrypt_decrypt [of ?key] by fastforce
  then show ?thesis using Decrypt_accepts by blast
qed

text \<open>
  Unpadding looks at the last byte only: the bytes \<open>pad\<close> before it are dropped with it when
  it is one more than their number, whatever they are, and data that ends in a zero byte is
  taken as it is.
\<close>

theorem unpadding_unchecked:
  assumes "length pad < 255"
  shows "pKCS7UnPadding (s @ pad @ [word_of_nat (Suc (length pad))]) = Ok s \<and>
    pKCS7UnPadding (s @ [0]) = Ok (s @ [0])"
proof -
  define b :: "8 word" where "b = word_of_nat (Suc (length pad))"
  have "unat b = Suc (length pad)" unfolding b_def unat_of_nat using assms by simp
  then show ?thesis unfolding b_def [symmetric] by (simp add: unpad_cases)
qed

theorem unpadding_unchecked_witness:
  "pKCS7UnPadding ([65, 66] @ [9, 200] @ [3]) = Ok [65, 66] \<and> pKCS7UnPadding ([65, 66] @ [0]) = Ok [65, 66, 0]"
  using unpadding_unchecked [of "[9, 200]" "[65, 66]"] by simp

end
