(* ===== verification/Util.thy ===== *)
theory Util
  imports GoStrings Setting Crypto
begin

text \<open>
  tools/util/util.go: identifiers and addresses. The random source is a parameter, as in
  theory Crypto.
\<close>

section \<open>Message ids\<close>

text \<open>
  The UUID library that \<open>GenUUID\<close> calls: 16 random bytes, the version (4) in the high half of
  the seventh, the variant (binary 10) in the two high bits of the ninth, printed in
  hexadecimal with dashes.
\<close>

definition hextable :: string where "hextable = ''0123456789abcdef''"

fun hex_encode :: "bytes \<Rightarrow> string" where
  "hex_encode [] = []"
| "hex_encode (b # bs) = hextable ! (unat b div 16) # hextable ! (unat b mod 16) # hex_encode bs"

definition NewV4 :: "(nat \<Rightarrow> byte) \<Rightarrow> bytes" where
  "NewV4 r =
     (let u = map r [0..<16];
          u1 = u[6 := (u ! 6 AND 0x0f) OR push_bit 4 4];
          u2 = u1[8 := (u1 ! 8 AND drop_bit 2 0xff) OR push_bit 6 2]
      in u2)"

definition uuid_String :: "bytes \<Rightarrow> string" where
  "uuid_String u =
     hex_encode (take 4 u) @ ''-'' @ hex_encode (take 2 (drop 4 u)) @ ''-'' @
     hex_encode (take 2 (drop 6 u)) @ ''-'' @ hex_encode (take 2 (drop 8 u)) @ ''-'' @
     hex_encode (drop 10 u)"

definition GenUUID :: "(nat \<Rightarrow> byte) \<Rightarrow> string" where
  "GenUUID r =
     (let uuidStr = remove_all (CHR ''-'') (uuid_String (NewV4 r)) in take (24 - 8) (drop 8 uuidStr))"

section \<open>Addresses\<close>

datatype util_error = CryptoError crypto_error | AddrError

text \<open>An address of the form host:port.\<close>

definition ParseRedisAddrValue :: "string \<Rightarrow> (util_error, string \<times> string) fallible" where
  "ParseRedisAddrValue redisValue =
     (if redisValue = [] then Err AddrError
      else (let addr = split_on (CHR '':'') redisValue
            in if length addr \<noteq> 2 then Err AddrError else Ok (addr ! 0, addr ! 1)))"

definition IsAddrLocal :: "setting \<Rightarrow> string \<Rightarrow> string \<Rightarrow> bool" where
  "IsAddrLocal st host port \<longleftrightarrow>
     host = LocalHost (GlobalSetting st) \<and> port = RPCPort (CommonSetting st)"

definition IsCluster :: "setting \<Rightarrow> bool" where
  "IsCluster st = Cluster (CommonSetting st)"

section \<open>Client ids that hide the address of their server\<close>

definition GenClientId :: "(nat \<Rightarrow> byte) option \<Rightarrow> setting \<Rightarrow> (util_error, string) fallible" where
  "GenClientId rnd st =
     (let raw = string_bytes (LocalHost (GlobalSetting st) @ '':'' @ RPCPort (CommonSetting st))
      in case Encrypt rnd raw (string_bytes (CryptoKey (CommonSetting st))) of
           Ok str \<Rightarrow> Ok str
         | Err e \<Rightarrow> Panic
         | Panic \<Rightarrow> Panic)"

definition GetAddrInfoAndIsLocal ::
  "setting \<Rightarrow> string \<Rightarrow> (util_error, string \<times> string \<times> string \<times> bool) fallible" where
  "GetAddrInfoAndIsLocal st clientId =
     (case Decrypt clientId (string_bytes (CryptoKey (CommonSetting st))) of
        Err e \<Rightarrow> Err (CryptoError e)
      | Panic \<Rightarrow> Panic
      | Ok addr \<Rightarrow>
          fallible_then (ParseRedisAddrValue addr) (\<lambda>(host, port).
            Ok (addr, host, port, IsAddrLocal st host port)))"

section \<open>Group keys\<close>

definition GenGroupKey :: "string \<Rightarrow> string \<Rightarrow> string" where
  "GenGroupKey systemId groupName = systemId @ '':'' @ groupName"

lemma GenGroupKey_inj:
  "CHR '':'' \<notin> set s \<Longrightarrow> CHR '':'' \<notin> set s' \<Longrightarrow>
   GenGroupKey s g = GenGroupKey s' g' \<longleftrightarrow> s = s' \<and> g = g'"
  by (simp add: GenGroupKey_def sep_append_eq)

section \<open>Facts about addresses\<close>

lemma ParseRedisAddrValue_iff:
  "ParseRedisAddrValue v = Ok (h, p) \<longleftrightarrow> v = h @ '':'' @ p \<and> CHR '':'' \<notin> set h \<and> CHR '':'' \<notin> set p"
proof -
  have "ParseRedisAddrValue v = Ok (h, p) \<longleftrightarrow> v \<noteq> [] \<and> split_on (CHR '':'') v = [h, p]"
    by (auto simp: ParseRedisAddrValue_def Let_def numeral_2_eq_2 length_Suc_conv)
  then show ?thesis by (auto simp: split_on_two_iff)
qed

lemma ParseRedisAddrValue_no_panic: "ParseRedisAddrValue v \<noteq> Panic"
  by (simp add: ParseRedisAddrValue_def Let_def)

interpretation host_port: codec "\<lambda>_ (h, p). Ok (h @ '':'' @ p)" "\<lambda>_. ParseRedisAddrValue"
  "\<lambda>_ (h, p). CHR '':'' \<notin> set h \<and> CHR '':'' \<notin> set p"
  by unfold_locales (auto simp: ParseRedisAddrValue_iff)

section \<open>Properties\<close>

text \<open>
  C26. On a server whose own address has no further colon and whose key has a valid length, the
  client id that \<open>GenClientId\<close> makes is recognised by \<open>GetAddrInfoAndIsLocal\<close> as local, with the
  server's host and port; on another server with the same key it gives the same host and port,
  and is local only if these are that server's own.
\<close>

theorem client_id_finds_server:
  assumes "length (CryptoKey (CommonSetting st)) \<in> {16, 24, 32}"
    and "CHR '':'' \<notin> set (LocalHost (GlobalSetting st))" and "CHR '':'' \<notin> set (RPCPort (CommonSetting st))"
    and "CryptoKey (CommonSetting st') = CryptoKey (CommonSetting st)"
  shows "\<exists>i. GenClientId (Some r) st = Ok i \<and>
    GetAddrInfoAndIsLocal st' i =
      Ok (LocalHost (GlobalSetting st) @ '':'' @ RPCPort (CommonSetting st),
          LocalHost (GlobalSetting st), RPCPort (CommonSetting st),
          LocalHost (GlobalSetting st) = LocalHost (GlobalSetting st') \<and>
          RPCPort (CommonSetting st) = RPCPort (CommonSetting st'))"
proof -
  let ?h = "LocalHost (GlobalSetting st)" and ?p = "RPCPort (CommonSetting st)"
  let ?k = "string_bytes (CryptoKey (CommonSetting st))"
  obtain y where "aesCBCEncrypt (Some r) (string_bytes (?h @ '':'' @ ?p)) ?k = Ok y"
    and dec: "Decrypt (b64_encode y) ?k = Ok (?h @ '':'' @ ?p)"
    using encrypt_decrypt [of ?k r "?h @ '':'' @ ?p"] assms(1) by (auto simp del: append.simps)
  then have "GenClientId (Some r) st = Ok (b64_encode y)"
    by (simp add: GenClientId_def Encrypt_def)
  moreover have "ParseRedisAddrValue (?h @ '':'' @ ?p) = Ok (?h, ?p)"
    using assms(2,3) by (simp only: ParseRedisAddrValue_iff) simp
  ultimately show ?thesis
    using dec assms(4) by (auto simp: GetAddrInfoAndIsLocal_def IsAddrLocal_def simp del: append.simps)
qed

lemma Default_sel [simp]:
  "CryptoKey (CommonSetting (Default addrs st)) = ''Adba723b7fe06819''"
  "RPCPort (CommonSetting (Default addrs st)) = ''7000''"
  "LocalHost (GlobalSetting (Default addrs st)) = getIntranetIp addrs"
  "Cluster (CommonSetting (Default addrs st)) = False"
  by (simp_all add: Default_def)

definition no_setting :: setting where
  "no_setting = \<lparr>CommonSetting = \<lparr>HttpPort = [], RPCPort = [], Cluster = False, CryptoKey = []\<rparr>,
     EtcdSetting = \<lparr>Endpoints = []\<rparr>,
     GlobalSetting = \<lparr>LocalHost = [], ServerList = fmempty, ServerListLock = False\<rparr>\<rparr>"

theorem client_id_finds_server_witness:
  "\<exists>i. GenClientId (Some (\<lambda>_. 5)) (Default [IPNet [127, 0, 0, 1], IPNet [10, 0, 0, 7]] no_setting) = Ok i \<and>
     GetAddrInfoAndIsLocal (Default [IPNet [10, 0, 0, 8]] no_setting) i = Ok (''10.0.0.7:7000'', ''10.0.0.7'', ''7000'', False)"
proof -
  have ips: "getIntranetIp [IPNet [127, 0, 0, 1], IPNet [10, 0, 0, 7]] = ''10.0.0.7''"
    "getIntranetIp [IPNet [10, 0, 0, 8]] = ''10.0.0.8''"
    by code_simp+
  show ?thesis
    using client_id_finds_server [of "Default [IPNet [127, 0, 0, 1], IPNet [10, 0, 0, 7]] no_setting"
        "Default [IPNet [10, 0, 0, 8]] no_setting" "\<lambda>_. 5"]
    by (simp add: ips del: getIntranetIp.simps)
qed

text \<open>
  An address in a client id is accepted exactly when the id decrypts to two colon-free parts with
  one colon between them.
\<close>

lemma GetAddrInfo_accepts:
  "GetAddrInfoAndIsLocal st i = Ok (addr, host, port, isLocal) \<longleftrightarrow>
     Decrypt i (string_bytes (CryptoKey (CommonSetting st))) = Ok addr \<and>
     addr = host @ '':'' @ port \<and> CHR '':'' \<notin> set host \<and> CHR '':'' \<notin> set port \<and>
     isLocal = (host = LocalHost (GlobalSetting st) \<and> port = RPCPort (CommonSetting st))"
proof (cases "Decrypt i (string_bytes (CryptoKey (CommonSetting st)))")
  case (Ok a)
  show ?thesis
  proof (cases "ParseRedisAddrValue a")
    case (Ok hp)
    obtain h p where hp: "hp = (h, p)" by (cases hp)
    then have "a = h @ '':'' @ p" and "CHR '':'' \<notin> set h" and "CHR '':'' \<notin> set p"
      using Ok unfolding hp ParseRedisAddrValue_iff by blast+
    then show ?thesis
      using \<open>Decrypt i _ = fallible.Ok a\<close> Ok hp
      by (auto simp: GetAddrInfoAndIsLocal_def IsAddrLocal_def sep_append_eq)
  next
    case (Err e)
    then have "ParseRedisAddrValue addr \<noteq> fallible.Ok (host, port)" if "a = addr" using that by simp
    then show ?thesis
      using \<open>Decrypt i _ = fallible.Ok a\<close> Err
      by (auto simp: GetAddrInfoAndIsLocal_def ParseRedisAddrValue_iff simp del: append.simps)
  next
    case Panic
    then show ?thesis using ParseRedisAddrValue_no_panic by blast
  qed
qed (simp_all add: GetAddrInfoAndIsLocal_def)

text \<open>
  Two systems share a group key, for some groups of theirs, exactly when one system id
  followed by a colon starts the other one: then a group of the first is a group of the second.
\<close>

theorem GenGroupKey_collides:
  assumes "s \<noteq> s'"
  shows "(\<exists>g g'. GenGroupKey s g = GenGroupKey s' g') \<longleftrightarrow> prefix (s @ '':'') s' \<or> prefix (s' @ '':'') s"
proof
  assume "\<exists>g g'. GenGroupKey s g = GenGroupKey s' g'"
  then obtain g g' where eq: "s @ '':'' @ g = s' @ '':'' @ g'" by (auto simp: GenGroupKey_def)
  then obtain t where "s = s' @ t \<and> t @ '':'' @ g = '':'' @ g' \<or> s @ t = s' \<and> '':'' @ g = t @ '':'' @ g'"
    using append_eq_append_conv2 [THEN iffD1, OF eq] by blast
  then show "prefix (s @ '':'') s' \<or> prefix (s' @ '':'') s"
    using assms by (cases t) (auto simp: prefix_def)
next
  assume "prefix (s @ '':'') s' \<or> prefix (s' @ '':'') s"
  then obtain t where "s' = s @ '':'' @ t \<or> s = s' @ '':'' @ t" by (auto simp: prefix_def)
  then have "GenGroupKey s (t @ '':'' @ []) = GenGroupKey s' [] \<or> GenGroupKey s [] = GenGroupKey s' (t @ '':'' @ [])"
    by (auto simp: GenGroupKey_def)
  then show "\<exists>g g'. GenGroupKey s g = GenGroupKey s' g'" by blast
qed

theorem GenGroupKey_collides_witness:
  "\<exists>g g'. GenGroupKey ''im'' g = GenGroupKey ''im:eu'' g'"
  using GenGroupKey_collides [of "''im''" "''im:eu''"] by simp

section \<open>The shape of message ids\<close>

lemma length_hex_encode [simp]: "length (hex_encode bs) = 2 * length bs"
  by (induction bs) simp_all

lemma hex_encode_append [simp]: "hex_encode (bs @ cs) = hex_encode bs @ hex_encode cs"
  by (induction bs) simp_all

lemma hextable_facts: "length hextable = 16" "distinct hextable" "CHR ''-'' \<notin> set hextable"
  by (simp_all add: hextable_def)

lemma half_byte: "unat (b :: byte) div 16 < 16" "unat (b :: byte) mod 16 < 16"
proof -
  show "unat b div 16 < 16" using unat_byte [of b] by linarith
qed simp

lemma hextable_eq: "d < 16 \<Longrightarrow> e < 16 \<Longrightarrow> hextable ! d = hextable ! e \<longleftrightarrow> d = e"
  using hextable_facts by (simp add: nth_eq_iff_index_eq)

lemma hextable_in: "d < 16 \<Longrightarrow> hextable ! d \<in> set hextable"
  by (simp add: hextable_facts)

lemma set_hex_encode: "set (hex_encode bs) \<subseteq> set hextable"
  by (induction bs) (simp_all add: hextable_in half_byte)

lemma dash_hex: "CHR ''-'' \<notin> set (hex_encode bs)"
  using set_hex_encode [of bs] hextable_facts(3) by blast

lemma hex_encode_split: "hex_encode u = hex_encode (take n u) @ hex_encode (drop n u)"
  by (metis append_take_drop_id hex_encode_append)

lemma uuid_hex: "remove_all (CHR ''-'') (uuid_String u) = hex_encode u"
proof -
  have "hex_encode u = hex_encode (take 4 u) @ hex_encode (take 2 (drop 4 u)) @
      hex_encode (take 2 (drop 6 u)) @ hex_encode (take 2 (drop 8 u)) @ hex_encode (drop 10 u)"
    using hex_encode_split [of u 4] hex_encode_split [of "drop 4 u" 2] hex_encode_split [of "drop 6 u" 2]
      hex_encode_split [of "drop 8 u" 2] by simp
  then show ?thesis by (simp add: uuid_String_def remove_all_free dash_hex)
qed

text \<open>The 16 characters are those of the bytes 4 to 11 of the UUID.\<close>

lemma take_drop_hex: "take (2 * n) (drop (2 * k) (hex_encode u)) = hex_encode (take n (drop k u))"
proof (induction u arbitrary: k n)
  case (Cons b u)
  then show ?case
  proof (cases k)
    case 0
    then show ?thesis using Cons.IH [of _ 0] by (cases n) simp_all
  qed simp
qed simp

lemma GenUUID_hex: "GenUUID r = hex_encode (take 8 (drop 4 (NewV4 r)))"
  using take_drop_hex [of 8 4 "NewV4 r"] by (simp add: GenUUID_def uuid_hex)

lemma below_16: "[0..<16] = [0, 1, 2, 3, 4, 5, 6, 7, 8, 9, 10, 11, 12, 13, 14, 15]"
  by code_simp

lemma NewV4_middle:
  "take 8 (drop 4 (NewV4 r)) =
     [r 4, r 5, (r 6 AND 0x0f) OR 0x40, r 7, (r 8 AND 0x3f) OR 0x80, r 9, r 10, r 11]"
proof -
  have masks: "drop_bit 2 0xff = (0x3f :: byte)" "push_bit 4 4 = (0x40 :: byte)" "push_bit 6 2 = (0x80 :: byte)"
    by simp_all
  show ?thesis unfolding NewV4_def Let_def below_16 masks by (simp add: numeral_eq_Suc)
qed

lemma hex_encode_inj: "hex_encode bs = hex_encode cs \<longleftrightarrow> bs = cs"
proof (induction bs arbitrary: cs)
  case Nil
  then show ?case by (cases cs) simp_all
next
  case (Cons b bs)
  have "b = c" if "unat b div 16 = unat c div 16" and "unat b mod 16 = unat c mod 16" for c :: byte
    using that by (metis div_mult_mod_eq unsigned_word_eqI)
  then show ?case using Cons by (cases cs) (auto simp: hextable_eq half_byte)
qed

text \<open>A fact about one byte under a mask, checked on all values up to the mask.\<close>

lemma all_masked:
  fixes b m :: byte
  assumes "list_all (\<lambda>n. P (word_of_nat n)) [0..<Suc (unat m)]"
  shows "P (b AND m)"
proof -
  have "unat (b AND m) < Suc (unat m)"
    using word_and_le1 [of b m] by (simp add: word_le_nat_alt less_Suc_eq_le)
  moreover have "\<forall>n < Suc (unat m). P (word_of_nat n)" using assms by (auto simp: list_all_iff less_Suc_eq)
  ultimately have "P (word_of_nat (unat (b AND m)))" by blast
  then show ?thesis by simp
qed
lemma version_digit: "unat ((b AND 0x0f) OR 0x40 :: byte) div 16 = 4"
  by (rule all_masked [of "\<lambda>x. unat (x OR 0x40) div 16 = 4"]) code_simp

lemma variant_digit: "unat ((b AND 0x3f) OR 0x80 :: byte) div 16 \<in> {8, 9, 10, 11}"
  by (rule all_masked [of "\<lambda>x. unat (x OR 0x80) div 16 \<in> {8, 9, 10, 11}"]) code_simp
lemma marked_byte:
  fixes x y :: byte
  assumes "k AND m = 0"
  shows "(x AND m) OR k = (y AND m) OR k \<longleftrightarrow> x AND m = y AND m"
proof
  assume "(x AND m) OR k = (y AND m) OR k"
  then have "((x AND m) OR k) AND m = ((y AND m) OR k) AND m" by simp
  then show "x AND m = y AND m" using assms by (simp add: bit.conj_disj_distrib2 and.assoc)
qed simp

text \<open>
  A message id is 16 lower-case hexadecimal digits, of which the fifth is 4 and the ninth
  one of 8, 9, a, b; two ids are equal exactly when the random bytes 4 to 11 agree, but for the
  six bits that the version and the variant overwrite: 58 random bits in all.
\<close>

theorem GenUUID_shape:
  "length (GenUUID r) = 16 \<and> set (GenUUID r) \<subseteq> set ''0123456789abcdef'' \<and>
   GenUUID r ! 4 = CHR ''4'' \<and> GenUUID r ! 8 \<in> set ''89ab'' \<and>
   (GenUUID r = GenUUID r' \<longleftrightarrow>
      r 4 = r' 4 \<and> r 5 = r' 5 \<and> r 6 AND 0x0f = r' 6 AND 0x0f \<and> r 7 = r' 7 \<and>
      r 8 AND 0x3f = r' 8 AND 0x3f \<and> r 9 = r' 9 \<and> r 10 = r' 10 \<and> r 11 = r' 11)"
proof (intro conjI)
  show "length (GenUUID r) = 16" by (simp add: GenUUID_hex NewV4_middle)
  show "set (GenUUID r) \<subseteq> set ''0123456789abcdef''"
    using set_hex_encode by (simp only: GenUUID_hex hextable_def)
  show "GenUUID r ! 4 = CHR ''4''"
    by (simp add: GenUUID_hex NewV4_middle version_digit hextable_def)
  have "GenUUID r ! 8 = hextable ! (unat ((r 8 AND 0x3f) OR 0x80) div 16)"
    by (simp add: GenUUID_hex NewV4_middle)
  then show "GenUUID r ! 8 \<in> set ''89ab''"
    using variant_digit [of "r 8"] by (auto simp: hextable_def)
  show "GenUUID r = GenUUID r' \<longleftrightarrow>
      r 4 = r' 4 \<and> r 5 = r' 5 \<and> r 6 AND 0x0f = r' 6 AND 0x0f \<and> r 7 = r' 7 \<and>
      r 8 AND 0x3f = r' 8 AND 0x3f \<and> r 9 = r' 9 \<and> r 10 = r' 10 \<and> r 11 = r' 11"
    unfolding GenUUID_hex hex_encode_inj NewV4_middle by (auto simp: marked_byte)
qed

end
