(* ===== verification/ClientManager.thy ===== *)
theory ClientManager
  imports GoSlice GoStrings Json Client Define Util
begin

text \<open>
  servers/clientmanager.go: the table of connections of one server. The record has the fields
  of \<open>ClientManager\<close> (the channels as the queues of what is waiting in them) and the heap
  objects reached from them: the inner maps of \<open>ClientIdMap\<close>, which Go shares by reference,
  the backing arrays of the member lists, and the client objects. Each method is one atomic
  function of this state. Most hold one lock for their whole body; \<open>AddClient2SystemClient\<close> and
  \<open>DelClient\<close> are sequences of calls that take a lock each, and \<open>AddClient2LocalGroup\<close> changes the
  client without one: these three stand for runs in which no other goroutine comes in between.
  Logging is left out.
\<close>

type_synonym mref = nat

record manager =
  ClientIdMap :: "(string, mref) fmap"
  PlatformAccountMap :: "(string, string list) fmap"
  Connect :: "cref list"
  DisConnect :: "cref list"
  Groups :: "(string, slice) fmap"
  SystemClients :: "(string, slice) fmap"
  amaps :: "mref \<Rightarrow> (string, cref) fmap"
  next_amap :: mref
  arrays :: arena
  clients :: "cref \<Rightarrow> client"
  next_client :: cref

definition NewClientManager :: manager where
  "NewClientManager =
     \<lparr>ClientIdMap = fmempty, PlatformAccountMap = fmempty, Connect = [], DisConnect = [],
      Groups = fmempty, SystemClients = fmempty, amaps = (\<lambda>_. fmempty), next_amap = 0,
      arrays = empty_arena, clients = (\<lambda>_. NewClient [] [] [] None 0), next_client = 0\<rparr>"

text \<open>Allocation of a client object and of an empty inner map.\<close>

definition new_client :: "client \<Rightarrow> manager \<Rightarrow> cref \<times> manager" where
  "new_client cl m =
     (next_client m, m\<lparr>clients := (clients m)(next_client m := cl), next_client := Suc (next_client m)\<rparr>)"

definition make_amap :: "manager \<Rightarrow> mref \<times> manager" where
  "make_amap m =
     (next_amap m, m\<lparr>amaps := (amaps m)(next_amap m := fmempty), next_amap := Suc (next_amap m)\<rparr>)"

definition amap_put :: "mref \<Rightarrow> string \<Rightarrow> cref \<Rightarrow> manager \<Rightarrow> manager" where
  "amap_put r addr c m = m\<lparr>amaps := (amaps m)(r := fmupd addr c (amaps m r))\<rparr>"

section \<open>Platform accounts\<close>

text \<open>
  A client id of the form \<open>platform_account\<close> or \<open>platform_x_account\<close> belongs to a platform
  account; with more parts both names stay empty, with one part the id is invalid.
\<close>

fun platform_account :: "string list \<Rightarrow> string \<times> string" where
  "platform_account [platform, account] = (platform, account)"
| "platform_account [platform, _, account] = (platform, account)"
| "platform_account _ = ([], [])"

definition platform_key :: "string \<Rightarrow> string option" where
  "platform_key clientId =
     (let infos = split_on (CHR ''_'') clientId
      in if length infos < 2 then None
         else (let (platform, account) = platform_account infos in Some (platform @ ''_'' @ account)))"

section \<open>AddClient\<close>

text \<open>
  The second half of \<open>AddClient\<close>; \<open>n\<close> is \<open>len(addrToClientMap)\<close> of the variable declared before
  the branch.
\<close>

definition AddClient_account :: "nat \<Rightarrow> string \<Rightarrow> manager \<Rightarrow> manager" where
  "AddClient_account n clientId m =
     (if n < 2 then
        (case platform_key clientId of
           None \<Rightarrow> m
         | Some key \<Rightarrow> m\<lparr>PlatformAccountMap :=
             fmupd key (map_get [] (PlatformAccountMap m) key @ [clientId]) (PlatformAccountMap m)\<rparr>)
      else m)"

text \<open>
  The branch for other ids declares a variable \<open>addrToClientMap\<close> of its own, so after it the
  outer one is still nil and has length 0. A nil client panics on its first field access and
  the deferred recover leaves the state as it was.
\<close>

fun AddClient :: "cref option \<Rightarrow> manager \<Rightarrow> manager" where
  "AddClient None m = m"
| "AddClient (Some c) m =
     (let clientId = ClientId (clients m c); addr = Addr (clients m c)
      in if contains clientId ''APP_'' then
           (let m1 = m\<lparr>ClientIdMap := fmdrop clientId (ClientIdMap m)\<rparr>;
                (r, m2) = make_amap m1;
                m3 = m2\<lparr>ClientIdMap := fmupd clientId r (ClientIdMap m2)\<rparr>;
                m4 = amap_put r addr c m3
            in AddClient_account (map_len (amaps m4 r)) clientId m4)
         else
           (case fmlookup (ClientIdMap m) clientId of
              Some r \<Rightarrow> amap_put r addr c m
            | None \<Rightarrow>
                (let (r, m1) = make_amap m;
                     m2 = m1\<lparr>ClientIdMap := fmupd clientId r (ClientIdMap m1)\<rparr>;
                     m3 = amap_put r addr c m2
                 in AddClient_account 0 clientId m3)))"

section \<open>Queries\<close>

datatype manager_error = ClientNotExist

text \<open>\<open>GetByClientId\<close> copies the inner map, so its result is a value.\<close>

definition GetByClientId :: "string \<Rightarrow> manager \<Rightarrow> manager_error + (string, cref) fmap" where
  "GetByClientId clientId m =
     (case fmlookup (ClientIdMap m) clientId of
        None \<Rightarrow> Inl ClientNotExist
      | Some r \<Rightarrow> Inr (amaps m r))"

definition Count :: "manager \<Rightarrow> nat" where
  "Count m = map_len (ClientIdMap m)"

definition PlatformAccountCount :: "string \<Rightarrow> string \<Rightarrow> manager \<Rightarrow> string list \<times> nat" where
  "PlatformAccountCount platform account m =
     (let key = platform @ ''_'' @ account; result = [] @ map_get [] (PlatformAccountMap m) key
      in (result, length result))"

text \<open>
  \<open>AllClient\<close> ranges over the outer map in the order \<open>keys\<close>. It copies each inner map into a new
  map, but it is the original that it stores in the result.
\<close>

fun AllClient_loop :: "string list \<Rightarrow> (string, mref) fmap \<Rightarrow> manager \<Rightarrow> (string, mref) fmap \<times> manager" where
  "AllClient_loop [] result m = (result, m)"
| "AllClient_loop (key # keys) result m =
     (case fmlookup (ClientIdMap m) key of
        None \<Rightarrow> AllClient_loop keys result m
      | Some v \<Rightarrow>
          (let (r, result', m1) = (case fmlookup result key of
                 Some r \<Rightarrow> (r, result, m)
               | None \<Rightarrow> (let (r, m1) = make_amap m in (r, fmupd key v result, m1)))
           in AllClient_loop keys result' (m1\<lparr>amaps := (amaps m1)(r := fmadd (amaps m1 r) (amaps m1 v))\<rparr>)))"

definition AllClient :: "string list \<Rightarrow> manager \<Rightarrow> (string, mref) fmap \<times> manager" where
  "AllClient keys m = AllClient_loop keys fmempty m"

section \<open>Deletion\<close>

fun removeElement :: "string list \<Rightarrow> string \<Rightarrow> string list" where
  "removeElement [] val = []"
| "removeElement (num # nums) val =
     (if num \<noteq> val then num # removeElement nums val else removeElement nums val)"

text \<open>\<open>delClientIdMap\<close>: the key it deletes from the inner map is \<open>clientId\<close>, not \<open>addr\<close>.\<close>

definition delClientIdMap :: "string \<Rightarrow> string \<Rightarrow> manager \<Rightarrow> manager" where
  "delClientIdMap clientId addr m =
     (case fmlookup (ClientIdMap m) clientId of
        None \<Rightarrow> m
      | Some r \<Rightarrow>
          (if addr |\<notin>| fmdom (amaps m r) then m
           else
             (let m1 = m\<lparr>amaps := (amaps m)(r := fmdrop clientId (amaps m r))\<rparr>
              in if map_len (amaps m1 r) = 0 then
                   (let m2 = m1\<lparr>ClientIdMap := fmdrop clientId (ClientIdMap m1)\<rparr>
                    in case platform_key clientId of
                         None \<Rightarrow> m2
                       | Some key \<Rightarrow>
                           (case fmlookup (PlatformAccountMap m2) key of
                              None \<Rightarrow> m2
                            | Some ids \<Rightarrow> m2\<lparr>PlatformAccountMap :=
                                fmupd key (removeElement ids clientId) (PlatformAccountMap m2)\<rparr>))
                 else m1)))"

text \<open>
  \<open>delGroupClient\<close> and \<open>delSystemClient\<close>: the loop \<open>del_member\<close> on one member list, stored back.
  Both compare against \<open>len(manager.Groups)\<close>. For a missing key the loop does not run and
  nothing is stored. A cut out of range panics, after the deferred unlock.
\<close>

definition delGroupClient :: "string \<Rightarrow> string \<Rightarrow> manager \<Rightarrow> manager res" where
  "delGroupClient groupKey clientId m =
     (case fmlookup (Groups m) groupKey of
        None \<Rightarrow> Done m
      | Some s \<Rightarrow>
          (let store = (\<lambda>(a, s'). m\<lparr>arrays := a, Groups := fmupd groupKey s' (Groups m)\<rparr>)
           in case del_member (map_len (Groups m)) clientId (arrays m) s of
                Done st \<Rightarrow> Done (store st)
              | Panicked st \<Rightarrow> Panicked (store st)))"

definition delSystemClient :: "cref \<Rightarrow> manager \<Rightarrow> manager res" where
  "delSystemClient c m =
     (let systemId = SystemId (clients m c); clientId = ClientId (clients m c)
      in case fmlookup (SystemClients m) systemId of
           None \<Rightarrow> Done m
         | Some s \<Rightarrow>
             (let store = (\<lambda>(a, s'). m\<lparr>arrays := a, SystemClients := fmupd systemId s' (SystemClients m)\<rparr>)
              in case del_member (map_len (Groups m)) clientId (arrays m) s of
                   Done st \<Rightarrow> Done (store st)
                 | Panicked st \<Rightarrow> Panicked (store st)))"

fun delGroups :: "cref \<Rightarrow> string list \<Rightarrow> manager \<Rightarrow> manager res" where
  "delGroups c [] m = Done m"
| "delGroups c (groupName # gs) m =
     res_then (delGroupClient (GenGroupKey (SystemId (clients m c)) groupName) (ClientId (clients m c)) m)
       (delGroups c gs)"

text \<open>
  \<open>DelClient\<close> recovers from a panic: the state reached so far stays. Each of the deletions takes the
  lock of its own table.
\<close>

fun DelClient :: "cref option \<Rightarrow> manager \<Rightarrow> manager" where
  "DelClient None m = m"
| "DelClient (Some c) m =
     (if ClientId (clients m c) = [] then m
      else
        (let m1 = delClientIdMap (ClientId (clients m c)) (Addr (clients m c)) m
         in res_state (res_then (delGroups c (GroupList (clients m1 c)) m1) (delSystemClient c))))"

section \<open>Member lists\<close>

definition addClient2Group :: "growth \<Rightarrow> string \<Rightarrow> cref \<Rightarrow> manager \<Rightarrow> manager" where
  "addClient2Group grow groupKey c m =
     (let (a, s) = go_append grow (ClientId (clients m c)) (arrays m) (map_get nil_slice (Groups m) groupKey)
      in m\<lparr>arrays := a, Groups := fmupd groupKey s (Groups m)\<rparr>)"

definition GetGroupClientList :: "string \<Rightarrow> manager \<Rightarrow> slice" where
  "GetGroupClientList groupKey m = map_get nil_slice (Groups m) groupKey"

text \<open>First \<open>AddClient\<close> under the lock of the connections, then the append under that of the systems.\<close>

definition AddClient2SystemClient :: "growth \<Rightarrow> string \<Rightarrow> string \<Rightarrow> cref \<Rightarrow> manager \<Rightarrow> manager" where
  "AddClient2SystemClient grow systemId addr c m =
     (let m1 = AddClient (Some c) m;
          (a, s) = go_append grow (ClientId (clients m1 c)) (arrays m1) (map_get nil_slice (SystemClients m1) systemId)
      in m1\<lparr>arrays := a, SystemClients := fmupd systemId s (SystemClients m1)\<rparr>)"

definition GetSystemClientList :: "string \<Rightarrow> manager \<Rightarrow> slice" where
  "GetSystemClientList systemId m = map_get nil_slice (SystemClients m) systemId"

text \<open>
  \<open>AddClient2LocalGroup\<close>. It ends with a call of \<open>SendMessage2Group\<close> (servers/server.go), which
  only sends: the call is part of the result, for the server to run. The data is a map
  literal marshalled to JSON, which orders the keys.
\<close>

record group_call =
  call_system :: string
  call_sender :: string
  call_group :: string
  call_code :: int
  call_msg :: string
  call_data :: "string option"

definition set_client :: "cref \<Rightarrow> client \<Rightarrow> manager \<Rightarrow> manager" where
  "set_client c cl m = m\<lparr>clients := (clients m)(c := cl)\<rparr>"

definition AddClient2LocalGroup ::
  "growth \<Rightarrow> string \<Rightarrow> cref \<Rightarrow> string \<Rightarrow> string \<Rightarrow> manager \<Rightarrow> manager \<times> group_call option" where
  "AddClient2LocalGroup grow groupName c userId ext m =
     (let m1 = set_client c ((clients m c)\<lparr>UserId := userId, Extend := ext\<rparr>) m
      in if groupName \<in> set (GroupList (clients m1 c)) then (m1, None)
         else
           (let groupKey = GenGroupKey (SystemId (clients m1 c)) groupName;
                m2 = addClient2Group grow groupKey c m1;
                m3 = set_client c ((clients m2 c)\<lparr>GroupList := GroupList (clients m2 c) @ [groupName]\<rparr>) m2
            in (m3, Some \<lparr>call_system = SystemId (clients m3 c), call_sender = [], call_group = groupName,
                  call_code = ONLINE_MESSAGE_CODE, call_msg = msg_online,
                  call_data = Some (json_text (JObj [(''clientId'', JStr (ClientId (clients m3 c))),
                    (''extend'', JStr (Extend (clients m3 c))), (''userId'', JStr (UserId (clients m3 c)))]))\<rparr>)))"

section \<open>The table of connections, abstractly\<close>

text \<open>
  What the outer map and the inner maps it refers to hold together: for a client id, the map
  from addresses to clients, if there is one. The references must not be shared.
\<close>

definition table :: "manager \<Rightarrow> string \<Rightarrow> (string, cref) fmap option" where
  "table m i = map_option (amaps m) (fmlookup (ClientIdMap m) i)"

definition refs_inv :: "manager \<Rightarrow> bool" where
  "refs_inv m \<longleftrightarrow>
     (\<forall>i r. fmlookup (ClientIdMap m) i = Some r \<longrightarrow> r < next_amap m) \<and>
     (\<forall>i j r. fmlookup (ClientIdMap m) i = Some r \<longrightarrow> fmlookup (ClientIdMap m) j = Some r \<longrightarrow> i = j)"

text \<open>Every registered client is an allocated object, under its own id and address.\<close>

definition table_inv :: "manager \<Rightarrow> bool" where
  "table_inv m \<longleftrightarrow> (\<forall>i t. table m i = Some t \<longrightarrow> t \<noteq> fmempty \<and>
     (\<forall>a c. fmlookup t a = Some c \<longrightarrow>
        c < next_client m \<and> ClientId (clients m c) = i \<and> Addr (clients m c) = a))"

text \<open>The account lists hold exactly the registered ids of the account, and an id that is not an
  app's at most once.\<close>

definition account_ids :: "manager \<Rightarrow> string \<Rightarrow> string list" where
  "account_ids m k = map_get [] (PlatformAccountMap m) k"

definition account_inv :: "manager \<Rightarrow> bool" where
  "account_inv m \<longleftrightarrow>
     (\<forall>k. set (account_ids m k) = {i. table m i \<noteq> None \<and> platform_key i = Some k}) \<and>
     (\<forall>k i. \<not> contains i ''APP_'' \<longrightarrow> count_list (account_ids m k) i \<le> 1)"

lemma GetByClientId_table:
  "GetByClientId i m = (case table m i of None \<Rightarrow> Inl ClientNotExist | Some t \<Rightarrow> Inr t)"
  by (simp add: GetByClientId_def table_def split: option.splits)

lemma table_None_iff: "table m i = None \<longleftrightarrow> i |\<notin>| fmdom (ClientIdMap m)"
  by (auto simp: table_def fmlookup_dom_iff)

lemma refs_invD:
  assumes "refs_inv m" and "fmlookup (ClientIdMap m) i = Some r"
  shows "r < next_amap m" and "fmlookup (ClientIdMap m) j = Some r \<Longrightarrow> i = j"
  using assms unfolding refs_inv_def by blast+

lemma table_invD:
  assumes "table_inv m" and "table m i = Some t"
  shows "t \<noteq> fmempty" and "fmlookup t a = Some c \<Longrightarrow> c < next_client m"
    and "fmlookup t a = Some c \<Longrightarrow> ClientId (clients m c) = i"
    and "fmlookup t a = Some c \<Longrightarrow> Addr (clients m c) = a"
  using assms unfolding table_inv_def by blast+

text \<open>Writing to one inner map changes the table at its id only.\<close>

lemma table_amap:
  assumes "refs_inv m" and "fmlookup (ClientIdMap m) i = Some r"
  shows "table (m\<lparr>amaps := (amaps m)(r := t)\<rparr>) = (table m)(i \<mapsto> t)"
proof
  fix j
  show "table (m\<lparr>amaps := (amaps m)(r := t)\<rparr>) j = ((table m)(i \<mapsto> t)) j"
  proof (cases "j = i")
    case True
    then show ?thesis using assms(2) by (simp add: table_def)
  next
    case False
    then have "fmlookup (ClientIdMap m) j \<noteq> Some r" using refs_invD(2) [OF assms] by metis
    then show ?thesis using False by (cases "fmlookup (ClientIdMap m) j") (auto simp: table_def)
  qed
qed

lemma refs_inv_amap: "refs_inv m \<Longrightarrow> refs_inv (m\<lparr>amaps := f\<rparr>)"
  by (simp add: refs_inv_def)

text \<open>A fresh inner map with one entry, stored under an id (whatever was there before).\<close>

definition fresh_entry :: "string \<Rightarrow> string \<Rightarrow> cref \<Rightarrow> manager \<Rightarrow> manager" where
  "fresh_entry i addr c m =
     m\<lparr>next_amap := Suc (next_amap m), ClientIdMap := fmupd i (next_amap m) (ClientIdMap m),
       amaps := (amaps m)(next_amap m := fmupd addr c fmempty)\<rparr>"

lemma table_fresh_entry:
  assumes "refs_inv m"
  shows "table (fresh_entry i addr c m) = (table m)(i \<mapsto> fmupd addr c fmempty)"
proof
  fix j
  show "table (fresh_entry i addr c m) j = ((table m)(i \<mapsto> fmupd addr c fmempty)) j"
    using refs_invD(1) [OF assms]
    by (cases "fmlookup (ClientIdMap m) j") (auto simp: table_def fresh_entry_def)
qed

lemma refs_inv_fresh_entry: "refs_inv m \<Longrightarrow> refs_inv (fresh_entry i addr c m)"
  unfolding refs_inv_def fresh_entry_def
  by (auto simp: less_Suc_eq)

lemma fmupd_drop: "fmupd k v (fmdrop k m) = fmupd k v m"
  by (rule fmap_ext) simp

text \<open>\<open>AddClient\<close> on each of its branches, with the intermediate states folded away.\<close>

definition is_app :: "string \<Rightarrow> bool" where
  "is_app i \<longleftrightarrow> contains i ''APP_''"

lemma AddClient_app:
  assumes "is_app (ClientId (clients m c))"
  shows "AddClient (Some c) m =
    AddClient_account 1 (ClientId (clients m c))
      (fresh_entry (ClientId (clients m c)) (Addr (clients m c)) c m)"
  using assms
  by (simp add: is_app_def make_amap_def amap_put_def fresh_entry_def Let_def fmupd_drop
      map_len_upd)

lemma AddClient_again:
  assumes "\<not> is_app (ClientId (clients m c))" and "fmlookup (ClientIdMap m) (ClientId (clients m c)) = Some r"
  shows "AddClient (Some c) m = amap_put r (Addr (clients m c)) c m"
  using assms by (simp add: is_app_def Let_def)

lemma AddClient_new:
  assumes "\<not> is_app (ClientId (clients m c))" and "fmlookup (ClientIdMap m) (ClientId (clients m c)) = None"
  shows "AddClient (Some c) m =
    AddClient_account 0 (ClientId (clients m c))
      (fresh_entry (ClientId (clients m c)) (Addr (clients m c)) c m)"
  using assms by (simp add: is_app_def make_amap_def amap_put_def fresh_entry_def Let_def)

declare AddClient.simps(2) [simp del]

text \<open>Both values of \<open>len(addrToClientMap)\<close> that occur are below 2: the account is always counted.\<close>

definition count_account :: "string \<Rightarrow> manager \<Rightarrow> manager" where
  "count_account i m =
     (case platform_key i of
        None \<Rightarrow> m
      | Some key \<Rightarrow> m\<lparr>PlatformAccountMap := fmupd key (account_ids m key @ [i]) (PlatformAccountMap m)\<rparr>)"

lemma AddClient_account_count:
  "AddClient_account 0 i m = count_account i m" "AddClient_account 1 i m = count_account i m"
  by (simp_all add: AddClient_account_def count_account_def account_ids_def split: option.split)

lemma count_account_frame [simp]:
  "ClientIdMap (count_account i m) = ClientIdMap m" "amaps (count_account i m) = amaps m"
  "next_amap (count_account i m) = next_amap m" "clients (count_account i m) = clients m"
  "next_client (count_account i m) = next_client m" "arrays (count_account i m) = arrays m"
  "Groups (count_account i m) = Groups m" "SystemClients (count_account i m) = SystemClients m"
  "Connect (count_account i m) = Connect m" "DisConnect (count_account i m) = DisConnect m"
  "table (count_account i m) = table m" "refs_inv (count_account i m) = refs_inv m"
  by (simp_all add: count_account_def table_def [abs_def] refs_inv_def split: option.splits)

lemma account_ids_count:
  "account_ids (count_account i m) k =
     (if platform_key i = Some k then account_ids m k @ [i] else account_ids m k)"
  by (simp add: count_account_def account_ids_def split: option.splits)

section \<open>AddClient on the table\<close>

definition old_conns :: "manager \<Rightarrow> string \<Rightarrow> (string, cref) fmap" where
  "old_conns m i = (case table m i of None \<Rightarrow> fmempty | Some t \<Rightarrow> t)"

definition conns_after_add :: "manager \<Rightarrow> cref \<Rightarrow> (string, cref) fmap" where
  "conns_after_add m c =
     fmupd (Addr (clients m c)) c
       (if is_app (ClientId (clients m c)) then fmempty else old_conns m (ClientId (clients m c)))"

lemma amap_put_frame [simp]:
  "ClientIdMap (amap_put r a c m) = ClientIdMap m" "clients (amap_put r a c m) = clients m"
  "next_client (amap_put r a c m) = next_client m" "arrays (amap_put r a c m) = arrays m"
  "next_amap (amap_put r a c m) = next_amap m"
  "PlatformAccountMap (amap_put r a c m) = PlatformAccountMap m"
  "Groups (amap_put r a c m) = Groups m" "SystemClients (amap_put r a c m) = SystemClients m"
  "Connect (amap_put r a c m) = Connect m" "DisConnect (amap_put r a c m) = DisConnect m"
  by (simp_all add: amap_put_def)

lemma fresh_entry_frame [simp]:
  "clients (fresh_entry i a c m) = clients m" "next_client (fresh_entry i a c m) = next_client m"
  "arrays (fresh_entry i a c m) = arrays m" "Groups (fresh_entry i a c m) = Groups m"
  "PlatformAccountMap (fresh_entry i a c m) = PlatformAccountMap m"
  "SystemClients (fresh_entry i a c m) = SystemClients m"
  "Connect (fresh_entry i a c m) = Connect m" "DisConnect (fresh_entry i a c m) = DisConnect m"
  by (simp_all add: fresh_entry_def)

lemma AddClient_cases:
  obtains (fresh) "AddClient (Some c) m = count_account (ClientId (clients m c))
      (fresh_entry (ClientId (clients m c)) (Addr (clients m c)) c m)"
      and "is_app (ClientId (clients m c)) \<or> table m (ClientId (clients m c)) = None"
  | (again) r where "AddClient (Some c) m = amap_put r (Addr (clients m c)) c m"
      and "\<not> is_app (ClientId (clients m c))" and "table m (ClientId (clients m c)) = Some (amaps m r)"
      and "fmlookup (ClientIdMap m) (ClientId (clients m c)) = Some r"
proof (cases "is_app (ClientId (clients m c))")
  case True
  then show thesis using AddClient_app [OF True] AddClient_account_count(2) fresh by simp
next
  case False
  show thesis
  proof (cases "fmlookup (ClientIdMap m) (ClientId (clients m c))")
    case None
    then show thesis
      using AddClient_new [OF False None] AddClient_account_count(1) fresh by (simp add: table_def)
  next
    case (Some r)
    then show thesis using AddClient_again [OF False Some] False again by (simp add: table_def)
  qed
qed

lemma AddClient_frame_Some:
  "clients (AddClient (Some c) m) = clients m \<and> next_client (AddClient (Some c) m) = next_client m \<and>
   arrays (AddClient (Some c) m) = arrays m \<and> Groups (AddClient (Some c) m) = Groups m \<and>
   SystemClients (AddClient (Some c) m) = SystemClients m \<and>
   Connect (AddClient (Some c) m) = Connect m \<and> DisConnect (AddClient (Some c) m) = DisConnect m"
  by (rule AddClient_cases [of c m]) simp_all

lemma AddClient_frame [simp]:
  "clients (AddClient c m) = clients m" "next_client (AddClient c m) = next_client m"
  "arrays (AddClient c m) = arrays m" "Groups (AddClient c m) = Groups m"
  "SystemClients (AddClient c m) = SystemClients m"
  "Connect (AddClient c m) = Connect m" "DisConnect (AddClient c m) = DisConnect m"
  by (cases c; simp add: AddClient_frame_Some)+

lemma table_AddClient:
  assumes "refs_inv m"
  shows "table (AddClient (Some c) m) = (table m)(ClientId (clients m c) \<mapsto> conns_after_add m c)"
proof (cases rule: AddClient_cases [of c m])
  case fresh
  then show ?thesis
    using table_fresh_entry [OF assms] by (auto simp: conns_after_add_def old_conns_def)
next
  case (again r)
  then show ?thesis
    using table_amap [OF assms again(4)]
    by (simp add: conns_after_add_def old_conns_def amap_put_def)
qed

lemma AddClient_refs: "refs_inv m \<Longrightarrow> refs_inv (AddClient (Some c) m)"
  by (rule AddClient_cases [of c m])
    (simp_all add: refs_inv_fresh_entry, simp add: amap_put_def refs_inv_amap)

lemma table_inv_upd:
  assumes "table_inv m" and "c < next_client m"
  shows "fmlookup (conns_after_add m c) a = Some d \<Longrightarrow>
    d < next_client m \<and> ClientId (clients m d) = ClientId (clients m c) \<and> Addr (clients m d) = a"
  using assms table_invD(2-4) [OF assms(1)]
  by (auto simp: conns_after_add_def old_conns_def split: if_splits option.splits)

lemma AddClient_table_inv:
  assumes "refs_inv m" and "table_inv m" and "c < next_client m"
  shows "table_inv (AddClient (Some c) m)"
proof -
  have "conns_after_add m c \<noteq> fmempty"
    by (metis conns_after_add_def fmempty_lookup fmupd_lookup option.distinct(1))
  then show ?thesis
    using table_AddClient [OF assms(1), of c] table_inv_upd [OF assms(2,3)] table_invD [OF assms(2)]
    unfolding table_inv_def by (auto split: if_splits)
qed

lemma account_ids_AddClient:
  "account_ids (AddClient (Some c) m) k =
     (let i = ClientId (clients m c)
      in if platform_key i = Some k \<and> (is_app i \<or> table m i = None)
         then account_ids m k @ [i] else account_ids m k)"
  by (rule AddClient_cases [of c m])
    (auto simp: account_ids_count, auto simp: account_ids_def)

lemma account_invD:
  assumes "account_inv m"
  shows "set (account_ids m k) = {i. table m i \<noteq> None \<and> platform_key i = Some k}"
    and "\<not> is_app i \<Longrightarrow> count_list (account_ids m k) i \<le> 1"
  using assms by (simp_all add: account_inv_def is_app_def)

lemma account_invI:
  "(\<And>k. set (account_ids m k) = {i. table m i \<noteq> None \<and> platform_key i = Some k}) \<Longrightarrow>
   (\<And>k i. \<not> is_app i \<Longrightarrow> count_list (account_ids m k) i \<le> 1) \<Longrightarrow> account_inv m"
  by (simp add: account_inv_def is_app_def)

lemma AddClient_account_inv:
  assumes "refs_inv m" and inv: "account_inv m"
  shows "account_inv (AddClient (Some c) m)"
proof (rule account_invI)
  show "set (account_ids (AddClient (Some c) m) k) =
      {i. table (AddClient (Some c) m) i \<noteq> None \<and> platform_key i = Some k}" for k
    using account_invD(1) [OF inv, of k]
    by (auto simp: account_ids_AddClient table_AddClient [OF assms(1)] Let_def split: if_splits)
  show "count_list (account_ids (AddClient (Some c) m) k) i \<le> 1" if "\<not> is_app i" for k i
  proof (cases "table m i = None")
    case True
    then have "i \<notin> set (account_ids m k)" using account_invD(1) [OF inv, of k] by simp
    then show ?thesis using that by (simp add: account_ids_AddClient Let_def)
  next
    case False
    then show ?thesis
      using that account_invD(2) [OF inv that, of k] by (auto simp: account_ids_AddClient Let_def)
  qed
qed

section \<open>Deletion on the table\<close>

lemma delClientIdMap_cases:
  obtains (absent) "delClientIdMap i addr m = m"
      and "\<And>t. table m i = Some t \<Longrightarrow> addr |\<notin>| fmdom t"
  | (kept) r t where "table m i = Some t" and "addr |\<in>| fmdom t" and "fmdrop i t \<noteq> fmempty"
      and "fmlookup (ClientIdMap m) i = Some r" and "amaps m r = t"
      and "delClientIdMap i addr m = m\<lparr>amaps := (amaps m)(r := fmdrop i t)\<rparr>"
  | (gone) r t P where "table m i = Some t" and "addr |\<in>| fmdom t" and "fmdrop i t = fmempty"
      and "fmlookup (ClientIdMap m) i = Some r" and "amaps m r = t"
      and "delClientIdMap i addr m = m\<lparr>amaps := (amaps m)(r := fmempty),
        ClientIdMap := fmdrop i (ClientIdMap m), PlatformAccountMap := P\<rparr>"
      and "\<And>k. map_get [] P k =
        (if platform_key i = Some k then removeElement (account_ids m k) i else account_ids m k)"
proof (cases "fmlookup (ClientIdMap m) i")
  case None
  then show thesis by (intro absent) (simp_all add: delClientIdMap_def table_def)
next
  case (Some r)
  let ?t = "amaps m r"
  have t: "table m i = Some ?t" using Some by (simp add: table_def)
  consider "addr |\<notin>| fmdom ?t" | "addr |\<in>| fmdom ?t" "fmdrop i ?t \<noteq> fmempty"
    | "addr |\<in>| fmdom ?t" "fmdrop i ?t = fmempty" by blast
  then show thesis
  proof cases
    case 1
    then show thesis using Some t by (intro absent) (simp_all add: delClientIdMap_def)
  next
    case 2
    then show thesis using Some t by (intro kept) (simp_all add: delClientIdMap_def)
  next
    case 3
    let ?P = "case platform_key i of None \<Rightarrow> PlatformAccountMap m
      | Some key \<Rightarrow> (case fmlookup (PlatformAccountMap m) key of None \<Rightarrow> PlatformAccountMap m
          | Some ids \<Rightarrow> fmupd key (removeElement ids i) (PlatformAccountMap m))"
    show thesis
    proof (rule gone [OF t 3 Some refl, of ?P])
      show "delClientIdMap i addr m = m\<lparr>amaps := (amaps m)(r := fmempty),
        ClientIdMap := fmdrop i (ClientIdMap m), PlatformAccountMap := ?P\<rparr>"
        using 3 Some by (simp add: delClientIdMap_def Let_def split: option.split)
      show "map_get [] ?P k =
        (if platform_key i = Some k then removeElement (account_ids m k) i else account_ids m k)" for k
        by (auto simp: account_ids_def map_get_def split: option.split)
    qed
  qed
qed

text \<open>What \<open>delClientIdMap\<close> does to the table: it drops the key \<open>clientId\<close> from the inner map.\<close>

definition table_after_del :: "string \<Rightarrow> string \<Rightarrow> manager \<Rightarrow> string \<Rightarrow> (string, cref) fmap option" where
  "table_after_del i addr m =
     (case table m i of
        None \<Rightarrow> table m
      | Some t \<Rightarrow>
          if addr |\<notin>| fmdom t then table m
          else if fmdrop i t = fmempty then (table m)(i := None) else (table m)(i \<mapsto> fmdrop i t))"

lemma delClientIdMap_frame [simp]:
  "clients (delClientIdMap i a m) = clients m" "next_client (delClientIdMap i a m) = next_client m"
  "arrays (delClientIdMap i a m) = arrays m" "Groups (delClientIdMap i a m) = Groups m"
  "SystemClients (delClientIdMap i a m) = SystemClients m"
  "Connect (delClientIdMap i a m) = Connect m" "DisConnect (delClientIdMap i a m) = DisConnect m"
  "next_amap (delClientIdMap i a m) = next_amap m"
  by (simp_all add: delClientIdMap_def Let_def split: option.splits)

lemma table_delClientIdMap:
  assumes "refs_inv m"
  shows "table (delClientIdMap i addr m) = table_after_del i addr m"
proof (cases rule: delClientIdMap_cases [of i addr m])
  case absent
  then show ?thesis by (auto simp: table_after_del_def split: option.splits)
next
  case (kept r t)
  then show ?thesis
    using table_amap [OF assms kept(4), of "fmdrop i t"] by (simp add: table_after_del_def)
next
  case (gone r t P)
  have "table (delClientIdMap i addr m) j = ((table m)(i := None)) j" for j
    using refs_invD(2) [OF assms gone(4), of j] gone(6)
    by (cases "fmlookup (ClientIdMap m) j") (auto simp: table_def)
  then show ?thesis using gone(1-3) by (auto simp: table_after_del_def)
qed

lemma delClientIdMap_refs: "refs_inv m \<Longrightarrow> refs_inv (delClientIdMap i addr m)"
  by (rule delClientIdMap_cases [of i addr m])
    (auto simp: refs_inv_def split: if_splits)

lemma table_after_del_Some:
  assumes "table_after_del i addr m j = Some t"
  shows "\<exists>t0. table m j = Some t0 \<and> (t \<noteq> fmempty \<or> t = t0) \<and>
    (\<forall>a c. fmlookup t a = Some c \<longrightarrow> fmlookup t0 a = Some c)"
  using assms by (auto simp: table_after_del_def split: option.splits if_splits)

lemma delClientIdMap_table_inv:
  assumes "refs_inv m" and "table_inv m"
  shows "table_inv (delClientIdMap i addr m)"
  unfolding table_inv_def table_delClientIdMap [OF assms(1)]
proof (intro allI impI)
  fix j t
  assume "table_after_del i addr m j = Some t"
  then obtain t0 where t0: "table m j = Some t0" "t \<noteq> fmempty \<or> t = t0"
    and sub: "\<And>a c. fmlookup t a = Some c \<Longrightarrow> fmlookup t0 a = Some c"
    using table_after_del_Some by metis
  have "c < next_client m \<and> ClientId (clients m c) = j \<and> Addr (clients m c) = a"
    if "fmlookup t a = Some c" for a c
    using sub [OF that] table_invD(2-4) [OF assms(2) t0(1)] by simp
  then show "t \<noteq> fmempty \<and> (\<forall>a c. fmlookup t a = Some c \<longrightarrow>
      c < next_client (delClientIdMap i addr m) \<and>
      ClientId (clients (delClientIdMap i addr m) c) = j \<and>
      Addr (clients (delClientIdMap i addr m) c) = a)"
    using table_invD(1) [OF assms(2) t0(1)] t0(2) by auto
qed

lemma set_removeElement: "set (removeElement xs x) = set xs - {x}"
  by (induction xs) auto

lemma count_removeElement:
  "count_list (removeElement xs x) y = (if y = x then 0 else count_list xs y)"
  by (induction xs) auto

lemma delClientIdMap_account_inv:
  assumes "refs_inv m" and "account_inv m"
  shows "account_inv (delClientIdMap i addr m)"
proof (cases rule: delClientIdMap_cases [of i addr m])
  case absent
  then show ?thesis using assms(2) by simp
next
  case (kept r t)
  have "table (delClientIdMap i addr m) = (table m)(i \<mapsto> fmdrop i t)"
    using kept(1-3) table_delClientIdMap [OF assms(1), of i addr] by (simp add: table_after_del_def)
  moreover have "account_ids (delClientIdMap i addr m) = account_ids m"
    using kept(6) by (simp add: account_ids_def [abs_def])
  ultimately show ?thesis using assms(2) kept(1) by (auto simp: account_inv_def)
next
  case (gone r t P)
  have tab: "table (delClientIdMap i addr m) = (table m)(i := None)"
    using gone(1-3) table_delClientIdMap [OF assms(1), of i addr] by (simp add: table_after_del_def)
  have ids: "account_ids (delClientIdMap i addr m) k =
      (if platform_key i = Some k then removeElement (account_ids m k) i else account_ids m k)" for k
    using gone(6,7) by (simp add: account_ids_def)
  show ?thesis
    using assms(2) unfolding account_inv_def
    by (auto simp: tab ids set_removeElement count_removeElement split: if_splits)
qed

section \<open>The member lists, abstractly\<close>

text \<open>
  The lists of both tables under one kind of key. \<open>members m k\<close> is the list a caller sees.
\<close>

datatype list_key = Group string | System string

fun list_slice :: "list_key \<Rightarrow> manager \<Rightarrow> slice" where
  "list_slice (Group k) m = map_get nil_slice (Groups m) k"
| "list_slice (System k) m = map_get nil_slice (SystemClients m) k"

fun list_store :: "list_key \<Rightarrow> arena \<times> slice \<Rightarrow> manager \<Rightarrow> manager" where
  "list_store (Group k) (a, s) m = m\<lparr>arrays := a, Groups := fmupd k s (Groups m)\<rparr>"
| "list_store (System k) (a, s) m = m\<lparr>arrays := a, SystemClients := fmupd k s (SystemClients m)\<rparr>"

definition members :: "manager \<Rightarrow> list_key \<Rightarrow> string list" where
  "members m k = elems (arrays m) (list_slice k m)"

definition lists_inv :: "manager \<Rightarrow> bool" where
  "lists_inv m \<longleftrightarrow> slices_inv (arrays m) (\<lambda>k. list_slice k m)"

interpretation lists: slice_table arrays list_slice list_store
proof unfold_locales
  fix k :: list_key and st :: "arena \<times> slice" and m :: manager
  show "arrays (list_store k st m) = fst st"
    by (cases k; cases st) simp_all
next
  fix j k :: list_key and st :: "arena \<times> slice" and m :: manager
  show "list_slice j (list_store k st m) = (if j = k then snd st else list_slice j m)"
    by (cases k; cases st; cases j) simp_all
qed

lemma list_store_frame [simp]:
  "ClientIdMap (list_store k st m) = ClientIdMap m" "amaps (list_store k st m) = amaps m"
  "next_amap (list_store k st m) = next_amap m" "clients (list_store k st m) = clients m"
  "next_client (list_store k st m) = next_client m"
  "PlatformAccountMap (list_store k st m) = PlatformAccountMap m"
  "Connect (list_store k st m) = Connect m" "DisConnect (list_store k st m) = DisConnect m"
  by (cases k; cases st; simp)+

lemma addClient2Group_store:
  "addClient2Group grow k c m =
     list_store (Group k) (go_append grow (ClientId (clients m c)) (arrays m) (list_slice (Group k) m)) m"
  by (simp add: addClient2Group_def split: prod.split)

lemma AddClient2SystemClient_store:
  "AddClient2SystemClient grow sys addr c m =
     (let m1 = AddClient (Some c) m
      in list_store (System sys)
           (go_append grow (ClientId (clients m1 c)) (arrays m1) (list_slice (System sys) m1)) m1)"
  by (simp add: AddClient2SystemClient_def Let_def split: prod.split)

lemma delGroupClient_store:
  "res_state (delGroupClient k cid m) =
     (if k |\<in>| fmdom (Groups m)
      then list_store (Group k)
        (res_state (del_member (map_len (Groups m)) cid (arrays m) (list_slice (Group k) m))) m
      else m)"
  by (auto simp: delGroupClient_def Let_def map_get_def fmlookup_dom_iff
      split: option.splits res.splits prod.splits)

lemma delSystemClient_store:
  "res_state (delSystemClient c m) =
     (if SystemId (clients m c) |\<in>| fmdom (SystemClients m)
      then list_store (System (SystemId (clients m c)))
        (res_state (del_member (map_len (Groups m)) (ClientId (clients m c)) (arrays m)
          (list_slice (System (SystemId (clients m c))) m))) m
      else m)"
  by (auto simp: delSystemClient_def Let_def map_get_def fmlookup_dom_iff
      split: option.splits res.splits prod.splits)

lemma table_list_store [simp]:
  "table (list_store k st m) = table m" "refs_inv (list_store k st m) = refs_inv m"
  "table_inv (list_store k st m) = table_inv m" "account_inv (list_store k st m) = account_inv m"
  by (simp_all add: table_def [abs_def] refs_inv_def table_inv_def account_inv_def account_ids_def)

lemma lists_inv_store_append:
  "lists_inv m \<Longrightarrow> lists_inv (list_store k (go_append grow x (arrays m) (list_slice k m)) m)"
  unfolding lists_inv_def by (rule lists.table_append(1)) auto

lemma members_store_append:
  "lists_inv m \<Longrightarrow> members (list_store k (go_append grow x (arrays m) (list_slice k m)) m)
     = (members m)(k := members m k @ [x])"
  unfolding members_def [abs_def] lists_inv_def fun_upd_def
  by (rule ext) (rule lists.table_append(2) [OF _ refl])

lemma lists_inv_store_delete:
  "lists_inv m \<Longrightarrow>
   lists_inv (list_store k (res_state (del_member g cid (arrays m) (list_slice k m))) m)"
  unfolding lists_inv_def by (rule lists.table_delete(1)) auto

lemma members_store_delete:
  "lists_inv m \<Longrightarrow> j \<noteq> k \<Longrightarrow>
   members (list_store k (res_state (del_member g cid (arrays m) (list_slice k m))) m) j = members m j"
  unfolding members_def lists_inv_def by (rule lists.table_delete(2) [OF _ refl])

section \<open>The invariant of the manager\<close>

definition mgr_inv :: "manager \<Rightarrow> bool" where
  "mgr_inv m \<longleftrightarrow> refs_inv m \<and> table_inv m \<and> account_inv m \<and> lists_inv m"

lemma mgr_invI [go_inv]:
  "refs_inv m \<Longrightarrow> table_inv m \<Longrightarrow> account_inv m \<Longrightarrow> lists_inv m \<Longrightarrow> mgr_inv m"
  by (simp add: mgr_inv_def)

lemma mgr_invD:
  assumes "mgr_inv m"
  shows "refs_inv m" and "table_inv m" and "account_inv m" and "lists_inv m"
  using assms by (simp_all add: mgr_inv_def)

lemma mgr_inv_init: "mgr_inv NewClientManager"
proof -
  have "list_slice k NewClientManager = nil_slice" for k
    by (cases k) (simp_all add: NewClientManager_def)
  then have "lists_inv NewClientManager"
    using slices_inv_nil [OF wf_empty_arena] by (simp add: lists_inv_def NewClientManager_def)
  then show ?thesis
    by (simp add: mgr_inv_def refs_inv_def table_inv_def account_inv_def account_ids_def table_def
        NewClientManager_def)
qed

lemma lists_inv_frame:
  "arrays m' = arrays m \<Longrightarrow> Groups m' = Groups m \<Longrightarrow> SystemClients m' = SystemClients m \<Longrightarrow>
   lists_inv m' = lists_inv m \<and> members m' = members m"
proof -
  assume *: "arrays m' = arrays m" "Groups m' = Groups m" "SystemClients m' = SystemClients m"
  have "list_slice k m' = list_slice k m" for k
    by (cases k) (simp_all add: *)
  then show ?thesis by (simp add: lists_inv_def members_def [abs_def] *)
qed

lemma mgr_inv_list_store:
  "mgr_inv m \<Longrightarrow> lists_inv (list_store k st m) \<Longrightarrow> mgr_inv (list_store k st m)"
  by (simp add: mgr_inv_def)

lemma AddClient_inv [go_inv]:
  assumes "mgr_inv m" and "c < next_client m"
  shows "mgr_inv (AddClient (Some c) m)"
  using mgr_invD [OF assms(1)] assms(2) lists_inv_frame [of "AddClient (Some c) m" m]
  by (intro mgr_invI AddClient_refs AddClient_table_inv AddClient_account_inv) simp_all

lemma delClientIdMap_inv [go_inv]:
  assumes "mgr_inv m"
  shows "mgr_inv (delClientIdMap i a m)"
  using mgr_invD [OF assms] lists_inv_frame [of "delClientIdMap i a m" m]
  by (intro mgr_invI delClientIdMap_refs delClientIdMap_table_inv delClientIdMap_account_inv) simp_all

lemma addClient2Group_inv [go_inv]: "mgr_inv m \<Longrightarrow> mgr_inv (addClient2Group grow k c m)"
  unfolding addClient2Group_store
  by (intro mgr_inv_list_store lists_inv_store_append mgr_invD)

lemma AddClient2SystemClient_inv [go_inv]:
  "mgr_inv m \<Longrightarrow> c < next_client m \<Longrightarrow> mgr_inv (AddClient2SystemClient grow sys addr c m)"
  unfolding AddClient2SystemClient_store Let_def
  by (intro mgr_inv_list_store lists_inv_store_append mgr_invD(4) AddClient_inv)

lemma mgr_inv_store_delete:
  "mgr_inv m \<Longrightarrow> mgr_inv (list_store k (res_state (del_member g cid (arrays m) (list_slice k m))) m)"
  by (intro mgr_inv_list_store lists_inv_store_delete mgr_invD(4))

lemma delGroupClient_inv [go_inv]: "mgr_inv m \<Longrightarrow> mgr_inv (res_state (delGroupClient k cid m))"
  unfolding delGroupClient_store by (simp add: mgr_inv_store_delete del: list_slice.simps)

lemma delSystemClient_inv [go_inv]: "mgr_inv m \<Longrightarrow> mgr_inv (res_state (delSystemClient c m))"
  unfolding delSystemClient_store by (simp add: mgr_inv_store_delete del: list_slice.simps)

lemma delGroups_inv [go_inv]: "mgr_inv m \<Longrightarrow> mgr_inv (res_state (delGroups c gs m))"
  by (induction c gs m rule: delGroups.induct) (auto intro: res_state_then delGroupClient_inv)

lemma DelClient_inv [go_inv]:
  assumes "mgr_inv m"
  shows "mgr_inv (DelClient (Some c) m)"
  using assms
  by (auto simp: Let_def intro!: res_state_then delGroups_inv delClientIdMap_inv delSystemClient_inv)

text \<open>Updates of a client object that keep its id and address.\<close>

lemma set_client_frame [simp]:
  "ClientIdMap (set_client c cl m) = ClientIdMap m" "amaps (set_client c cl m) = amaps m"
  "next_amap (set_client c cl m) = next_amap m" "arrays (set_client c cl m) = arrays m"
  "next_client (set_client c cl m) = next_client m" "Groups (set_client c cl m) = Groups m"
  "PlatformAccountMap (set_client c cl m) = PlatformAccountMap m"
  "SystemClients (set_client c cl m) = SystemClients m"
  "Connect (set_client c cl m) = Connect m" "DisConnect (set_client c cl m) = DisConnect m"
  "clients (set_client c cl m) = (clients m)(c := cl)"
  "table (set_client c cl m) = table m" "refs_inv (set_client c cl m) = refs_inv m"
  "account_inv (set_client c cl m) = account_inv m"
  by (simp_all add: set_client_def table_def [abs_def] refs_inv_def account_inv_def account_ids_def)

lemma set_client_inv [go_inv]:
  assumes "mgr_inv m" and "ClientId cl = ClientId (clients m c)" and "Addr cl = Addr (clients m c)"
  shows "mgr_inv (set_client c cl m)"
proof -
  have "table_inv (set_client c cl m)"
    using mgr_invD(2) [OF assms(1)] assms(2,3) by (auto simp: table_inv_def)
  then show ?thesis
    using mgr_invD [OF assms(1)] lists_inv_frame [of "set_client c cl m" m] by (simp add: mgr_inv_def)
qed

lemma addClient2Group_frame [simp]:
  "clients (addClient2Group grow k c m) = clients m"
  "next_client (addClient2Group grow k c m) = next_client m"
  "table (addClient2Group grow k c m) = table m"
  "SystemClients (addClient2Group grow k c m) = SystemClients m"
  by (simp_all add: addClient2Group_def table_def [abs_def] split: prod.splits)

lemma AddClient2SystemClient_frame [simp]:
  "clients (AddClient2SystemClient grow sys addr c m) = clients m"
  "next_client (AddClient2SystemClient grow sys addr c m) = next_client m"
  "table (AddClient2SystemClient grow sys addr c m) = table (AddClient (Some c) m)"
  "Groups (AddClient2SystemClient grow sys addr c m) = Groups m"
  by (simp_all add: AddClient2SystemClient_def table_def [abs_def] Let_def split: prod.splits)

lemma AddClient2LocalGroup_inv [go_inv]:
  "mgr_inv m \<Longrightarrow> mgr_inv (fst (AddClient2LocalGroup grow g c userId ext m))"
  by (auto simp: AddClient2LocalGroup_def Let_def intro!: set_client_inv addClient2Group_inv)

lemma new_client_inv [go_inv]:
  assumes "mgr_inv m"
  shows "mgr_inv (snd (new_client cl m))"
proof -
  let ?m = "snd (new_client cl m)"
  have tab: "table ?m = table m" by (simp add: new_client_def table_def [abs_def])
  have "table_inv ?m"
    unfolding table_inv_def tab
  proof (intro allI impI)
    fix i t assume t: "table m i = Some t"
    have "d < next_client ?m \<and> ClientId (clients ?m d) = i \<and> Addr (clients ?m d) = a"
      if "fmlookup t a = Some d" for a d
      using table_invD(2-4) [OF mgr_invD(2) [OF assms] t that] by (simp add: new_client_def)
    then show "t \<noteq> fmempty \<and> (\<forall>a d. fmlookup t a = Some d \<longrightarrow>
        d < next_client ?m \<and> ClientId (clients ?m d) = i \<and> Addr (clients ?m d) = a)"
      using table_invD(1) [OF mgr_invD(2) [OF assms] t] by blast
  qed
  moreover have "account_inv ?m"
    using mgr_invD(3) [OF assms] by (simp add: account_inv_def tab account_ids_def)
      (simp add: new_client_def)
  moreover have "refs_inv ?m" using mgr_invD(1) [OF assms] by (simp add: refs_inv_def new_client_def)
  ultimately show ?thesis
    using mgr_invD(4) [OF assms] lists_inv_frame [of ?m m] by (simp add: mgr_inv_def new_client_def)
qed

section \<open>DelClient and its parts\<close>

lemma del_members_table [simp]:
  "table (res_state (delGroupClient k cid m)) = table m"
  "table (res_state (delSystemClient c m)) = table m"
  by (simp_all add: delGroupClient_store delSystemClient_store del: list_slice.simps)

lemma delGroups_table [simp]: "table (res_state (delGroups c gs m)) = table m"
proof (induction c gs m rule: delGroups.induct)
  case (2 c g gs m)
  show ?case using 2 by (cases "delGroupClient (GenGroupKey (SystemId (clients m c)) g) (ClientId (clients m c)) m")
      (auto dest: arg_cong [of _ _ "\<lambda>r. table (res_state r)"])
qed simp

lemma DelClient_table:
  assumes "refs_inv m"
  shows "table (DelClient (Some c) m) =
    (if ClientId (clients m c) = [] then table m
     else table_after_del (ClientId (clients m c)) (Addr (clients m c)) m)"
proof (cases "ClientId (clients m c) = []")
  case False
  let ?m1 = "delClientIdMap (ClientId (clients m c)) (Addr (clients m c)) m"
  have "table (res_state (res_then (delGroups c gs ?m1) (delSystemClient c))) = table ?m1" for gs
    by (rule res_state_then [of "\<lambda>m'. table m' = table ?m1"]) simp_all
  then show ?thesis using False table_delClientIdMap [OF assms] by (simp add: Let_def)
qed simp

text \<open>The member lists: what a deletion leaves of the one list it works on.\<close>

lemma delGroupClient_members_other:
  "lists_inv m \<Longrightarrow> j \<noteq> Group k \<Longrightarrow> members (res_state (delGroupClient k cid m)) j = members m j"
  using members_store_delete by (simp add: delGroupClient_store del: list_slice.simps)

lemma delSystemClient_members_other:
  "lists_inv m \<Longrightarrow> j \<noteq> System (SystemId (clients m c)) \<Longrightarrow>
   members (res_state (delSystemClient c m)) j = members m j"
  using members_store_delete by (simp add: delSystemClient_store del: list_slice.simps)

lemma members_store:
  "members (list_store k st m) k = elems (fst st) (snd st)"
  by (simp add: members_def lists.ar_put lists.get_put)

lemma lists_invD:
  assumes "lists_inv m"
  shows "wf_slice (arrays m) (list_slice k m)" and "length (members m k) = slen (list_slice k m)"
  using slices_invD(2) [of "arrays m" "\<lambda>k. list_slice k m"] assms
  by (simp_all add: lists_inv_def members_def length_elems)

lemma list_slice_present:
  "members m (Group k) \<noteq> [] \<Longrightarrow> k |\<in>| fmdom (Groups m)"
  "members m (System k) \<noteq> [] \<Longrightarrow> k |\<in>| fmdom (SystemClients m)"
  by (auto simp: members_def map_get_def fmlookup_dom_iff split: option.splits)

lemma delGroupClient_distinct:
  assumes inv: "lists_inv m" and dist: "distinct (members m (Group k))"
    and n: "n < length (members m (Group k))"
  shows "\<exists>m'. delGroupClient k (members m (Group k) ! n) m = Done m' \<and> members m' (Group k) =
    (if Suc n < map_len (Groups m) then remove1 (members m (Group k) ! n) (members m (Group k))
     else take n (members m (Group k)))"
proof -
  let ?s = "list_slice (Group k) m"
  note facts = lists_invD [OF inv, of "Group k"]
  obtain a' s' where del: "del_member (map_len (Groups m)) (members m (Group k) ! n) (arrays m) ?s
      = Done (a', s')" and res: "elems a' s' =
      (if Suc n < map_len (Groups m) then remove1 (members m (Group k) ! n) (members m (Group k))
       else take n (members m (Group k)))"
    using del_member_distinct [OF facts(1), of n "map_len (Groups m)"] dist n facts(2)
    by (auto simp: members_def)
  have "members m (Group k) \<noteq> []" using n by auto
  then obtain s where s: "fmlookup (Groups m) k = Some s" and "?s = s"
    using list_slice_present(1) by (fastforce simp: fmlookup_dom_iff map_get_def)
  then have "delGroupClient k (members m (Group k) ! n) m = Done (list_store (Group k) (a', s') m)"
    using del by (simp add: delGroupClient_def)
  then show ?thesis using res members_store [of "Group k" "(a', s')" m] by simp
qed

lemma delSystemClient_few_groups:
  assumes inv: "lists_inv m" and few: "map_len (Groups m) \<le> 1"
  shows "\<exists>m'. delSystemClient c m = Done m' \<and>
    members m' = (members m)(System (SystemId (clients m c)) :=
      truncated (ClientId (clients m c)) (members m (System (SystemId (clients m c)))))"
proof -
  let ?k = "SystemId (clients m c)" and ?i = "ClientId (clients m c)"
  let ?s = "list_slice (System ?k) m"
  obtain s' where del: "del_member (map_len (Groups m)) ?i (arrays m) ?s = Done (arrays m, s')"
    and res: "elems (arrays m) s' = truncated ?i (members m (System ?k))"
    using del_member_truncates [OF lists_invD(1) [OF inv] few] unfolding members_def by metis
  show ?thesis
  proof (cases "fmlookup (SystemClients m) ?k")
    case None
    then have "members m (System ?k) = []" by (simp add: members_def map_get_def)
    then show ?thesis using None
      by (simp add: delSystemClient_def Let_def truncated_def) (metis fun_upd_triv)
  next
    case (Some s)
    let ?m = "list_store (System ?k) (arrays m, s') m"
    have "delSystemClient c m = Done ?m"
      using del Some by (simp add: delSystemClient_def Let_def map_get_def)
    moreover have "members ?m = (members m)(System ?k := truncated ?i (members m (System ?k)))"
      using res by (auto simp: fun_eq_iff members_def lists.ar_put lists.get_put
          simp del: list_store.simps list_slice.simps)
    ultimately show ?thesis by blast
  qed
qed

section \<open>Groups\<close>

lemma members_set_client [simp]: "members (set_client c cl m) = members m"
  using lists_inv_frame [of "set_client c cl m" m] by simp

lemma lists_inv_set_client [simp]: "lists_inv (set_client c cl m) = lists_inv m"
  using lists_inv_frame [of "set_client c cl m" m] by simp

lemma members_addClient2Group:
  "lists_inv m \<Longrightarrow> members (addClient2Group grow k c m) =
     (members m)(Group k := members m (Group k) @ [ClientId (clients m c)])"
  unfolding addClient2Group_store by (rule members_store_append)

lemma members_AddClient [simp]: "members (AddClient (Some c) m) = members m"
  "lists_inv (AddClient (Some c) m) = lists_inv m"
  using lists_inv_frame [of "AddClient (Some c) m" m] by simp_all

lemma members_AddClient2SystemClient:
  "lists_inv m \<Longrightarrow> members (AddClient2SystemClient grow sys addr c m) =
     (members m)(System sys := members m (System sys) @ [ClientId (clients m c)])"
  unfolding AddClient2SystemClient_store Let_def
  by (subst members_store_append) simp_all

section \<open>AllClient\<close>

lemma AllClient_loop_shares:
  assumes "distinct keys" and "\<And>k. k \<in> set keys \<Longrightarrow> k |\<notin>| fmdom result"
    and "n \<le> next_amap m" and "AllClient_loop keys result m = (result', m')"
  shows "(\<forall>k. fmlookup result' k = (if k \<in> set keys \<and> k |\<in>| fmdom (ClientIdMap m)
      then fmlookup (ClientIdMap m) k else fmlookup result k)) \<and>
    (\<forall>r < n. amaps m' r = amaps m r) \<and> ClientIdMap m' = ClientIdMap m"
  using assms
proof (induction keys arbitrary: result m)
  case Nil
  then show ?case by simp
next
  case (Cons k keys)
  show ?case
  proof (cases "fmlookup (ClientIdMap m) k")
    case None
    then show ?thesis
      using Cons.IH [of result m] Cons.prems by (auto simp: fmlookup_dom_iff)
  next
    case (Some v)
    let ?m = "m\<lparr>next_amap := Suc (next_amap m), amaps := (amaps m)(next_amap m :=
      (if v = next_amap m then fmempty else amaps m v))\<rparr>"
    have "fmlookup result k = None" using Cons.prems(2) by (simp add: fmdom_notD)
    then have loop: "AllClient_loop keys (fmupd k v result) ?m = (result', m')"
      using Some Cons.prems(4) by (simp add: make_amap_def)
    have "(\<forall>j. fmlookup result' j = (if j \<in> set keys \<and> j |\<in>| fmdom (ClientIdMap ?m)
      then fmlookup (ClientIdMap ?m) j else fmlookup (fmupd k v result) j)) \<and>
      (\<forall>r < n. amaps m' r = amaps ?m r) \<and> ClientIdMap m' = ClientIdMap ?m"
    proof (rule Cons.IH [OF _ _ _ loop])
      show "distinct keys" and "n \<le> next_amap ?m" using Cons.prems(1,3) by simp_all
      show "j |\<notin>| fmdom (fmupd k v result)" if "j \<in> set keys" for j
        using that Cons.prems(1,2) by auto
    qed
    then show ?thesis using Cons.prems(1,3) Some by (auto simp: fmlookup_dom_iff)
  qed
qed

section \<open>Runs of the manager\<close>

text \<open>
  One step for each operation that writes to the manager, on any allocated client, with the
  growth policy of \<open>append\<close> chosen anew each time.
\<close>

inductive mgr_step :: "manager \<Rightarrow> manager \<Rightarrow> bool" where
  new: "mgr_step m (snd (new_client (NewClient i a s k t) m))"
| add: "c < next_client m \<Longrightarrow> mgr_step m (AddClient (Some c) m)"
| add_system: "c < next_client m \<Longrightarrow> mgr_step m (AddClient2SystemClient grow sys addr c m)"
| join: "c < next_client m \<Longrightarrow> mgr_step m (fst (AddClient2LocalGroup grow g c userId ext m))"
| drop_member: "mgr_step m (res_state (delGroupClient k cid m))"
| del: "c < next_client m \<Longrightarrow> mgr_step m (DelClient (Some c) m)"

inductive mgr_reach :: "manager \<Rightarrow> bool" where
  init: "mgr_reach NewClientManager"
| step: "mgr_reach m \<Longrightarrow> mgr_step m m' \<Longrightarrow> mgr_reach m'"

inductive_cases mgr_stepE: "mgr_step m m'"

lemma mgr_step_inv:
  assumes "mgr_step m m'" and "mgr_inv m"
  shows "mgr_inv m'"
  using assms(1,2)
  by (cases rule: mgr_step.cases)
    (simp_all only: new_client_inv AddClient_inv AddClient2SystemClient_inv AddClient2LocalGroup_inv
      delGroupClient_inv DelClient_inv)

lemma mgr_reach_inv: "mgr_reach m \<Longrightarrow> mgr_inv m"
  by (induction rule: mgr_reach.induct) (auto intro: mgr_inv_init mgr_step_inv)

end
