(* ===== verification/ManagerFacts.thy ===== *)
theory ManagerFacts
  imports ClientManager
begin

text \<open>
  What the operations of servers/clientmanager.go do to what its callers can observe: the
  lookup by client id, the number of entries, the online ids of an account, and the member
  lists. The lemmas of the component are in \<open>ClientManager\<close>; here are its properties, each with
  a concrete run where its hypotheses hold.
\<close>

section \<open>Concrete managers for the witnesses\<close>

definition web7 :: client where
  "web7 = NewClient ''web_7'' ''10.0.0.9:4001'' ''web_7'' (Some 1) 0"

definition app7 :: client where
  "app7 = NewClient ''APP_7'' ''10.0.0.9:4002'' ''APP_7'' (Some 2) 0"

definition m_web :: manager where
  "m_web = snd (new_client web7 NewClientManager)"

definition m_app :: manager where
  "m_app = snd (new_client app7 NewClientManager)"

lemma m_web_simps [simp]:
  "clients m_web 0 = web7" "next_client m_web = 1"
  "ClientId web7 = ''web_7''" "Addr web7 = ''10.0.0.9:4001''" "SystemId web7 = ''web_7''"
  "GroupList web7 = []"
  by (simp_all add: m_web_def web7_def new_client_def NewClientManager_def)

lemma m_app_simps [simp]:
  "clients m_app 0 = app7" "next_client m_app = 1"
  "ClientId app7 = ''APP_7''" "Addr app7 = ''10.0.0.9:4002''" "SystemId app7 = ''APP_7''"
  by (simp_all add: m_app_def app7_def new_client_def NewClientManager_def)

lemma m_web_reach: "mgr_reach m_web"
  unfolding m_web_def web7_def by (rule mgr_reach.step [OF mgr_reach.init mgr_step.new])

lemma m_app_reach: "mgr_reach m_app"
  unfolding m_app_def app7_def by (rule mgr_reach.step [OF mgr_reach.init mgr_step.new])

lemma m_web_empty [simp]: "table m_web i = None" "Groups m_web = fmempty" "members m_web k = []"
  by (cases k; simp add: m_web_def new_client_def NewClientManager_def table_def members_def)+

lemma m_app_empty [simp]: "table m_app i = None" "account_ids m_app k = []"
  by (simp_all add: m_app_def new_client_def NewClientManager_def table_def account_ids_def)

lemma not_app_web [simp]: "\<not> is_app ''web_7''"
  by (simp add: is_app_def)

lemma app_app [simp]: "is_app ''APP_7''"
  by (simp add: is_app_def)

lemma key_app [simp]: "platform_key ''APP_7'' = Some ''APP_7''"
  by (simp add: platform_key_def)

lemma m_web_inv: "mgr_inv m_web"
  by (rule mgr_reach_inv [OF m_web_reach])

section \<open>The invariant\<close>

text \<open>
  C6. In every state that any sequence of the manager's operations reaches: no two client ids
  share an inner map, every registered client is an allocated object stored under its own id
  and address and no inner map is empty, the account lists hold exactly the registered ids of
  their account (an id that is not an app's at most once), and no two member lists share a
  backing array.
\<close>

theorem manager_invariant: "mgr_reach m \<Longrightarrow> mgr_inv m"
  by (rule mgr_reach_inv)

lemma manager_invariant_witness:
  "mgr_inv (DelClient (Some 0) (AddClient2SystemClient (\<lambda>old need. 2 * old) ''web_7'' ''10.0.0.9:4001'' 0 m_web))"
proof -
  let ?m = "AddClient2SystemClient (\<lambda>old need. 2 * old) ''web_7'' ''10.0.0.9:4001'' 0 m_web"
  have "mgr_reach ?m" by (rule mgr_reach.step [OF m_web_reach mgr_step.add_system]) simp
  then have "mgr_reach (DelClient (Some 0) ?m)" by (rule mgr_reach.step [OF _ mgr_step.del]) simp
  then show ?thesis by (rule manager_invariant)
qed

section \<open>AddClient\<close>

text \<open>
  C16. After \<open>AddClient\<close> the client is found under its id at its address. For an id that contains
  \<open>APP_\<close> it is the only connection left (a new login replaces all others); for any other id the
  connections at other addresses stay. Other ids are not touched.
\<close>

theorem AddClient_lookup:
  assumes "mgr_inv m" and "i = ClientId (clients m c)"
  shows "GetByClientId j (AddClient (Some c) m) =
    (if j = i then Inr (fmupd (Addr (clients m c)) c
        (if contains i ''APP_'' then fmempty
         else (case GetByClientId i m of Inl _ \<Rightarrow> fmempty | Inr t \<Rightarrow> t)))
     else GetByClientId j m)"
  using table_AddClient [OF mgr_invD(1) [OF assms(1)], of c] assms(2)
  by (simp add: GetByClientId_table conns_after_add_def old_conns_def is_app_def split: option.split)

lemma AddClient_lookup_witness:
  "GetByClientId ''web_7'' (AddClient (Some 0) m_web) = Inr (fmupd ''10.0.0.9:4001'' 0 fmempty)"
  using AddClient_lookup [OF m_web_inv, of "''web_7''" 0 "''web_7''"]
  by (simp add: GetByClientId_table)

text \<open>
  A client id of an app is counted for its account once for each \<open>AddClient\<close>. The connect
  handler and the connect event both call it, so one connection of an app counts twice.
\<close>

theorem AddClient_app_counted_twice:
  assumes "contains (ClientId (clients m c)) ''APP_''"
    and "platform_key (ClientId (clients m c)) = Some (p @ ''_'' @ a)"
  shows "fst (PlatformAccountCount p a (AddClient (Some c) (AddClient (Some c) m))) =
    fst (PlatformAccountCount p a m) @ [ClientId (clients m c), ClientId (clients m c)]"
  using assms account_ids_AddClient [of c _ "p @ ''_'' @ a"]
  by (simp add: PlatformAccountCount_def is_app_def Let_def flip: account_ids_def)

lemma AddClient_app_counted_twice_witness:
  "PlatformAccountCount ''APP'' ''7'' (AddClient (Some 0) (AddClient (Some 0) m_app)) =
     ([''APP_7'', ''APP_7''], 2)"
proof -
  have "fst (PlatformAccountCount ''APP'' ''7'' (AddClient (Some 0) (AddClient (Some 0) m_app))) =
      fst (PlatformAccountCount ''APP'' ''7'' m_app) @ [''APP_7'', ''APP_7'']"
    using AddClient_app_counted_twice [of m_app 0 "''APP''" "''7''"] by simp
  then show ?thesis
    using m_app_empty(2) [of "''APP_7''"] by (simp add: PlatformAccountCount_def Let_def account_ids_def)
qed

section \<open>DelClient\<close>

text \<open>
  C17. \<open>DelClient\<close> on a client with an id: if the client's address is registered under its id, the
  entry removed from the inner map is the one at the address equal to the \<^emph>\<open>id\<close>; the id goes when
  that leaves nothing. Every other id keeps its connections.
\<close>

theorem DelClient_lookup:
  assumes "mgr_inv m" and "i = ClientId (clients m c)" and "i \<noteq> []"
  shows "GetByClientId j (DelClient (Some c) m) =
    (case GetByClientId i m of
       Inl _ \<Rightarrow> GetByClientId j m
     | Inr t \<Rightarrow>
         if j \<noteq> i \<or> Addr (clients m c) |\<notin>| fmdom t then GetByClientId j m
         else if fmdrop i t = fmempty then Inl ClientNotExist else Inr (fmdrop i t))"
  using DelClient_table [OF mgr_invD(1) [OF assms(1)], of c] assms(2,3)
  by (auto simp: GetByClientId_table table_after_del_def split: option.splits)

lemma DelClient_lookup_witness:
  "GetByClientId ''web_7'' (DelClient (Some 0) (AddClient (Some 0) m_web)) =
     Inr (fmupd ''10.0.0.9:4001'' 0 fmempty)"
proof -
  have inv: "mgr_inv (AddClient (Some 0) m_web)" by (rule AddClient_inv [OF m_web_inv]) simp
  have "GetByClientId ''web_7'' (AddClient (Some 0) m_web) = Inr (fmupd ''10.0.0.9:4001'' 0 fmempty)"
    using table_AddClient [OF mgr_invD(1) [OF m_web_inv], of 0]
    by (simp add: GetByClientId_table conns_after_add_def old_conns_def)
  moreover have "fmdrop ''web_7'' (fmupd ''10.0.0.9:4001'' (0::nat) fmempty)
      = fmupd ''10.0.0.9:4001'' 0 fmempty"
    by (rule fmap_ext) simp
  moreover have "fmupd ''10.0.0.9:4001'' (0::nat) fmempty \<noteq> fmempty"
    by (metis fmempty_lookup fmupd_lookup option.distinct(1))
  ultimately show ?thesis
    using DelClient_lookup [OF inv, of "''web_7''" 0 "''web_7''"]
    by (simp del: DelClient.simps)
qed

text \<open>
  C18. So a disconnect removes no connection at all unless the client id equals the address of one
  of its connections: every lookup answers as before, the deleted client included.
\<close>

theorem DelClient_removes_nothing:
  assumes "mgr_inv m" and "\<And>t. GetByClientId (ClientId (clients m c)) m = Inr t \<Longrightarrow>
      ClientId (clients m c) |\<notin>| fmdom t"
  shows "GetByClientId j (DelClient (Some c) m) = GetByClientId j m \<and>
    Count (DelClient (Some c) m) = Count m"
proof
  let ?i = "ClientId (clients m c)"
  have "table_after_del ?i a m = table m" for a
  proof (cases "table m ?i")
    case (Some t)
    then have "?i |\<notin>| fmdom t" using assms(2) by (simp add: GetByClientId_table)
    then have "fmdrop ?i t = t" by (rule fmdrop_idle)
    then show ?thesis
      using Some table_invD(1) [OF mgr_invD(2) [OF assms(1)] Some]
      by (simp add: table_after_del_def fun_upd_idem)
  qed (simp add: table_after_del_def)
  then have tab: "table (DelClient (Some c) m) = table m"
    using DelClient_table [OF mgr_invD(1) [OF assms(1)], of c] by simp
  then show "GetByClientId j (DelClient (Some c) m) = GetByClientId j m"
    by (simp add: GetByClientId_table)
  have "fmdom (ClientIdMap (DelClient (Some c) m)) = fmdom (ClientIdMap m)"
    using tab table_None_iff by (metis (mono_tags) fset_eqI)
  then show "Count (DelClient (Some c) m) = Count m" by (simp add: Count_def map_len_def)
qed

lemma DelClient_removes_nothing_witness:
  "Count (DelClient (Some 0) (AddClient (Some 0) m_web)) = Count (AddClient (Some 0) m_web)"
proof (rule DelClient_removes_nothing [THEN conjunct2])
  show "mgr_inv (AddClient (Some 0) m_web)" by (rule AddClient_inv [OF m_web_inv]) simp
  show "ClientId (clients (AddClient (Some 0) m_web) 0) |\<notin>| fmdom t"
    if "GetByClientId (ClientId (clients (AddClient (Some 0) m_web) 0)) (AddClient (Some 0) m_web) = Inr t"
    for t
    using that table_AddClient [OF mgr_invD(1) [OF m_web_inv], of 0]
    by (auto simp: GetByClientId_table conns_after_add_def old_conns_def)
qed

section \<open>Counting\<close>

lemma Count_mono: "(\<And>i. table m i \<noteq> None \<Longrightarrow> table m' i \<noteq> None) \<Longrightarrow> Count m \<le> Count m'"
  unfolding Count_def map_len_def
  by (rule fcard_mono) (auto simp: table_None_iff)

lemma mgr_step_table:
  assumes "mgr_step m m'" and "refs_inv m"
  shows "table m' = table m \<or> (\<exists>i t. table m' = (table m)(i \<mapsto> t)) \<or>
    (\<exists>c. table m' = table_after_del (ClientId (clients m c)) (Addr (clients m c)) m)"
  using assms(1)
proof (cases rule: mgr_step.cases)
  case (new i a s k t)
  then show ?thesis by (simp add: new_client_def table_def [abs_def])
next
  case (join c grow g userId ext)
  then show ?thesis by (simp add: AddClient2LocalGroup_def Let_def)
next
  case (del c)
  then show ?thesis using DelClient_table [OF assms(2), of c] by (auto simp del: DelClient.simps)
qed (auto simp: table_AddClient [OF assms(2)] simp del: DelClient.simps)

text \<open>
  C35. The table of connections only grows. Whatever the manager does, as long as no client id
  equals the address of one of its own connections, no id ever disappears from the table and
  the number of entries never falls.
\<close>

theorem Count_never_falls:
  assumes "mgr_reach m" and "mgr_step m m'"
    and "\<And>i t. GetByClientId i m = Inr t \<Longrightarrow> i |\<notin>| fmdom t"
  shows "Count m \<le> Count m' \<and>
    (\<forall>i. GetByClientId i m' = Inl ClientNotExist \<longrightarrow> GetByClientId i m = Inl ClientNotExist)"
proof -
  have inv: "mgr_inv m" by (rule mgr_reach_inv [OF assms(1)])
  have keep: "table_after_del i a m = table m" for i a
  proof (cases "table m i")
    case (Some t)
    then have "fmdrop i t = t" using assms(3) by (simp add: GetByClientId_table fmdrop_idle)
    then show ?thesis
      using Some table_invD(1) [OF mgr_invD(2) [OF inv] Some]
      by (simp add: table_after_del_def fun_upd_idem)
  qed (simp add: table_after_del_def)
  have grow: "table m' i \<noteq> None" if "table m i \<noteq> None" for i
    using mgr_step_table [OF assms(2) mgr_invD(1) [OF inv]] that by (auto simp: keep)
  then have "Count m \<le> Count m'" by (rule Count_mono)
  then show ?thesis using grow by (force simp: GetByClientId_table split: option.splits)
qed

lemma Count_never_falls_witness:
  "Count m_web \<le> Count (AddClient (Some 0) m_web)"
  by (rule Count_never_falls [THEN conjunct1, OF m_web_reach mgr_step.add])
    (simp_all add: GetByClientId_table)

section \<open>Accounts\<close>

text \<open>
  C36. In every reachable state the list that \<open>PlatformAccountCount\<close> returns holds exactly the ids
  in the table whose platform and account are the ones asked for, its length is the count
  returned with it, and an id that does not contain \<open>APP_\<close> occurs in it at most once.
\<close>

theorem PlatformAccountCount_exact:
  assumes "mgr_reach m" and "PlatformAccountCount p a m = (ids, n)"
  shows "set ids = {i. platform_key i = Some (p @ ''_'' @ a) \<and> GetByClientId i m \<noteq> Inl ClientNotExist} \<and>
    n = length ids \<and> (\<forall>i. \<not> contains i ''APP_'' \<longrightarrow> count_list ids i \<le> 1)"
proof -
  have inv: "account_inv m" by (rule mgr_invD(3) [OF mgr_reach_inv [OF assms(1)]])
  have "ids = account_ids m (p @ ''_'' @ a)" and "n = length ids"
    using assms(2) by (auto simp: PlatformAccountCount_def Let_def account_ids_def)
  then show ?thesis
    using account_invD [OF inv] by (auto simp: GetByClientId_table is_app_def split: option.splits)
qed

lemma PlatformAccountCount_exact_witness:
  "set (fst (PlatformAccountCount ''APP'' ''7'' (AddClient (Some 0) m_app))) = {''APP_7''}"
proof -
  have reach: "mgr_reach (AddClient (Some 0) m_app)"
    by (rule mgr_reach.step [OF m_app_reach mgr_step.add]) simp
  have "table (AddClient (Some 0) m_app) i \<noteq> None \<longleftrightarrow> i = ''APP_7''" for i
    using table_AddClient [OF mgr_invD(1) [OF mgr_reach_inv [OF m_app_reach]], of 0] by simp
  then show ?thesis
    using PlatformAccountCount_exact [OF reach prod.collapse [symmetric], of "''APP''" "''7''"]
    by (auto simp: GetByClientId_table split: option.splits)
qed

text \<open>
  Which account an id belongs to: \<open>p_a\<close> and \<open>p_x_a\<close> both to \<open>a\<close> on \<open>p\<close>, whatever \<open>x\<close> is; an id
  without an underscore to none, and every id with three or more underscores to the account
  with empty platform and empty name.
\<close>

theorem platform_key_cases:
  assumes "CHR ''_'' \<notin> set p" and "CHR ''_'' \<notin> set x" and "CHR ''_'' \<notin> set a"
  shows "platform_key (p @ ''_'' @ a) = Some (p @ ''_'' @ a) \<and>
    platform_key (p @ ''_'' @ x @ ''_'' @ a) = Some (p @ ''_'' @ a) \<and>
    platform_key p = None \<and>
    (\<forall>i. 3 \<le> count_list i (CHR ''_'') \<longrightarrow> platform_key i = Some ''_'')"
proof -
  have many: "platform_account xs = ([], [])" if "4 \<le> length xs" for xs
    using that by (cases xs rule: platform_account.cases) simp_all
  show ?thesis
    using assms many by (simp add: platform_key_def split_on_append split_on_free length_split_on)
qed

lemma platform_key_cases_witness:
  "platform_key ''web_eu_7'' = Some ''web_7'' \<and> platform_key ''a_b_c_d'' = Some ''_''"
  using platform_key_cases [of "''web''" "''eu''" "''7''"] by simp

section \<open>Member lists\<close>

text \<open>
  C29. Adding to a member list is what it says on the lists that callers see: a connection is
  appended to the list of its system, joining a group appends the client to the group's list
  (once: a second join changes no list), and no other list changes, although the lists share
  one arena of backing arrays.
\<close>

theorem joins_append:
  assumes "mgr_inv m"
  shows "members (AddClient2SystemClient grow sys addr c m) =
      (members m)(System sys := members m (System sys) @ [ClientId (clients m c)]) \<and>
    members (fst (AddClient2LocalGroup grow g c userId ext m)) =
      (if g \<in> set (GroupList (clients m c)) then members m
       else (members m)(Group (GenGroupKey (SystemId (clients m c)) g) :=
         members m (Group (GenGroupKey (SystemId (clients m c)) g)) @ [ClientId (clients m c)]))"
  using mgr_invD(4) [OF assms]
  by (simp add: members_AddClient2SystemClient AddClient2LocalGroup_def Let_def members_addClient2Group)

definition join_im :: "cref \<Rightarrow> manager \<Rightarrow> manager" where
  "join_im c m = fst (AddClient2LocalGroup (\<lambda>old need. 2 * old) ''im'' c ''u'' [] m)"

definition pair0 :: manager where
  "pair0 = snd (new_client (NewClient ''b'' ''10.0.0.2:1'' ''s'' (Some 2) 0)
     (snd (new_client (NewClient ''a'' ''10.0.0.1:1'' ''s'' (Some 1) 0) NewClientManager)))"

definition m_pair :: manager where
  "m_pair = join_im 1 (join_im 0 pair0)"

lemma join_im_inv: "mgr_inv m \<Longrightarrow> mgr_inv (join_im c m)"
  unfolding join_im_def by (rule AddClient2LocalGroup_inv)

lemma pair0_inv: "mgr_inv pair0"
  unfolding pair0_def by (intro new_client_inv mgr_inv_init)

lemma pair0_simps [simp]:
  "clients pair0 0 = NewClient ''a'' ''10.0.0.1:1'' ''s'' (Some 1) 0"
  "clients pair0 1 = NewClient ''b'' ''10.0.0.2:1'' ''s'' (Some 2) 0"
  "members pair0 (Group k) = []" "Groups pair0 = fmempty"
  by (simp_all add: pair0_def new_client_def NewClientManager_def members_def)

lemma clients_join_im:
  "d \<noteq> c \<Longrightarrow> clients (join_im c m) d = clients m d"
  by (simp add: join_im_def AddClient2LocalGroup_def Let_def)

lemma joins_append_witness: "members m_pair (Group ''s:im'') = [''a'', ''b'']"
proof -
  note join = joins_append [THEN conjunct2, of _ "\<lambda>old need. 2 * old" "''im''" _ "''u''" "[]",
      folded join_im_def]
  have "members (join_im 0 pair0) (Group ''s:im'') = [''a'']"
    using join [OF pair0_inv, of 0] by (simp add: GenGroupKey_def)
  then show ?thesis
    using join [OF join_im_inv [OF pair0_inv], of 1 0] clients_join_im [of 1 0 pair0] pair0_simps(2)
    unfolding m_pair_def by (simp add: GenGroupKey_def)
qed

text \<open>
  C30. Deleting the \<open>n\<close>-th member of a group without duplicates: the call never panics; it removes
  that member and nothing else exactly when \<open>n + 1\<close> is below the number of \<^emph>\<open>groups\<close> or the
  member is the last one, and otherwise it drops every later member too.
\<close>

theorem delGroupClient_spec:
  assumes "mgr_inv m" and "members m (Group k) = ms" and "distinct ms" and "n < length ms"
  shows "\<exists>m'. delGroupClient k (ms ! n) m = Done m' \<and>
    members m' (Group k) = (if Suc n < map_len (Groups m) then remove1 (ms ! n) ms else take n ms) \<and>
    (members m' (Group k) = remove1 (ms ! n) ms \<longleftrightarrow> Suc n < map_len (Groups m) \<or> Suc n = length ms) \<and>
    (\<forall>j. j \<noteq> Group k \<longrightarrow> members m' j = members m j)"
proof -
  note inv = mgr_invD(4) [OF assms(1)]
  obtain m' where del: "delGroupClient k (ms ! n) m = Done m'" and res: "members m' (Group k) =
      (if Suc n < map_len (Groups m) then remove1 (ms ! n) ms else take n ms)"
    using delGroupClient_distinct [OF inv, of k n] assms(2-4) by auto
  have others: "members m' j = members m j" if "j \<noteq> Group k" for j
    using delGroupClient_members_other [OF inv that, of "ms ! n"] del by simp
  have "take n ms = remove1 (ms ! n) ms \<longleftrightarrow> Suc n = length ms"
    using remove1_nth [OF assms(3,4)] assms(4) by auto
  then show ?thesis using del res others by auto
qed

lemma m_pair_inv: "mgr_inv m_pair"
  unfolding m_pair_def by (intro join_im_inv pair0_inv)

lemma m_pair_members: "members m_pair (Group ''s:im'') = [''a'', ''b'']"
proof -
  have join: "members (join_im c m) (Group ''s:im'') = members m (Group ''s:im'') @ [ClientId (clients m c)]"
    if "mgr_inv m" "GroupList (clients m c) = []" "SystemId (clients m c) = ''s''" for c m
    using that members_addClient2Group mgr_invD(4)
    by (simp add: join_im_def AddClient2LocalGroup_def Let_def GenGroupKey_def)
  show ?thesis
    using join [OF join_im_inv [OF pair0_inv], of 0 1] join [OF pair0_inv, of 0]
      clients_join_im [of 1 0 pair0] pair0_simps(2)
    unfolding m_pair_def by simp
qed

lemma m_pair_groups: "map_len (Groups m_pair) = 1"
  by (simp add: m_pair_def join_im_def AddClient2LocalGroup_def Let_def addClient2Group_def
      GenGroupKey_def map_len_upd pair0_def new_client_def NewClientManager_def
      split: prod.splits)

lemma delGroupClient_spec_witness:
  "\<exists>m'. delGroupClient ''s:im'' ''a'' m_pair = Done m' \<and> members m' (Group ''s:im'') = []"
  using delGroupClient_spec [OF m_pair_inv m_pair_members, of 0] m_pair_groups by auto

text \<open>
  C40. Deleting a client from its system's list while there is at most one group (there is none
  unless some client joined one) never panics and truncates the list at the \<^emph>\<open>last\<close> entry of the
  client: all entries after it are lost. Other lists do not change.
\<close>

theorem delSystemClient_truncates:
  assumes "mgr_inv m" and "map_len (Groups m) \<le> 1"
    and "members m (System (SystemId (clients m c))) = ms @ ClientId (clients m c) # rest"
    and "ClientId (clients m c) \<notin> set rest"
  shows "\<exists>m'. delSystemClient c m = Done m' \<and> members m' = (members m)(System (SystemId (clients m c)) := ms)"
proof -
  have "last_pos (ClientId (clients m c)) (ms @ ClientId (clients m c) # rest) = Some (length ms)"
    using assms(4) by (induction rest rule: rev_induct) (auto simp flip: append_Cons append_assoc)
  then have "truncated (ClientId (clients m c)) (members m (System (SystemId (clients m c)))) = ms"
    by (simp add: truncated_def assms(3))
  then show ?thesis
    using delSystemClient_few_groups [OF mgr_invD(4) [OF assms(1)] assms(2), of c] by simp
qed

definition add_web :: "manager \<Rightarrow> manager" where
  "add_web m = AddClient2SystemClient (\<lambda>old need. 2 * old) ''web_7'' ''10.0.0.9:4001'' 0 m"

lemma add_web_inv: "mgr_inv m \<Longrightarrow> 0 < next_client m \<Longrightarrow> mgr_inv (add_web m)"
  unfolding add_web_def by (rule AddClient2SystemClient_inv)

lemma add_web_frame [simp]:
  "clients (add_web m) = clients m" "next_client (add_web m) = next_client m"
  "Groups (add_web m) = Groups m"
  by (simp_all add: add_web_def)

lemma members_add_web:
  "mgr_inv m \<Longrightarrow> clients m 0 = web7 \<Longrightarrow>
   members (add_web m) (System ''web_7'') = members m (System ''web_7'') @ [''web_7'']"
  using members_AddClient2SystemClient mgr_invD(4) by (simp add: add_web_def)

lemma delSystemClient_truncates_witness:
  "\<exists>m'. delSystemClient 0 (add_web m_web) = Done m' \<and> members m' (System ''web_7'') = []"
proof -
  have "mgr_inv (add_web m_web)" by (rule add_web_inv [OF m_web_inv]) simp
  then show ?thesis
    using delSystemClient_truncates [of "add_web m_web" 0 "[]" "[]"] members_add_web [OF m_web_inv]
    by auto
qed

text \<open>
  On the lists the server builds (the client id is the system id, so all entries of a
  system's list are equal) the same deletion takes exactly one entry away: each reslice shows
  the entries again that the one before cut off.
\<close>

theorem delSystemClient_one_entry:
  assumes "mgr_inv m" and "map_len (Groups m) \<le> 1"
    and "members m (System (SystemId (clients m c))) = replicate n (ClientId (clients m c))"
  shows "\<exists>m'. delSystemClient c m = Done m' \<and>
    members m' = (members m)(System (SystemId (clients m c)) := replicate (n - 1) (ClientId (clients m c)))"
proof -
  have "truncated x (replicate n x) = replicate (n - 1) x" for x
    by (cases "n = 0") (simp_all add: truncated_def last_pos_replicate)
  then show ?thesis
    using delSystemClient_few_groups [OF mgr_invD(4) [OF assms(1)] assms(2), of c] assms(3) by simp
qed

lemma delSystemClient_one_entry_witness:
  "\<exists>m'. delSystemClient 0 (add_web (add_web m_web)) = Done m' \<and>
     members m' (System ''web_7'') = [''web_7'']"
proof -
  have inv: "mgr_inv (add_web m_web)" by (rule add_web_inv [OF m_web_inv]) simp
  then have "mgr_inv (add_web (add_web m_web))" by (rule add_web_inv) simp
  moreover have "members (add_web (add_web m_web)) (System ''web_7'') = replicate 2 ''web_7''"
    using members_add_web [OF inv] members_add_web [OF m_web_inv] by (simp add: numeral_2_eq_2)
  ultimately show ?thesis
    using delSystemClient_one_entry [of "add_web (add_web m_web)" 0 2]
    by (auto simp: numeral_2_eq_2)
qed

section \<open>AllClient and GetByClientId\<close>

text \<open>
  \<open>AllClient\<close> returns the manager's own inner maps: its result has the keys of the table, and
  a client that is added to a known id later shows up in the map returned before. (The map
  that \<open>GetByClientId\<close> returned before does not change: it is a copy, here a value.)
\<close>

theorem AllClient_shares:
  assumes "mgr_inv m" and "distinct keys" and "set keys = fset (fmdom (ClientIdMap m))"
    and "AllClient keys m = (result, m1)"
    and "fmlookup result (ClientId (clients m1 c)) = Some r" and "\<not> contains (ClientId (clients m1 c)) ''APP_''"
  shows "result = ClientIdMap m \<and> (\<forall>i. GetByClientId i m1 = GetByClientId i m) \<and>
    amaps (AddClient (Some c) m1) r = fmupd (Addr (clients m1 c)) c (amaps m r)"
proof -
  note refs = mgr_invD(1) [OF assms(1)]
  have loop: "(\<forall>k. fmlookup result k = (if k \<in> set keys \<and> k |\<in>| fmdom (ClientIdMap m)
      then fmlookup (ClientIdMap m) k else fmlookup fmempty k)) \<and>
    (\<forall>r < next_amap m. amaps m1 r = amaps m r) \<and> ClientIdMap m1 = ClientIdMap m"
    using assms(4) unfolding AllClient_def
    by (rule AllClient_loop_shares [OF assms(2) _ order_refl, rotated]) simp
  then have "fmlookup result k = fmlookup (ClientIdMap m) k" for k
    using assms(3) by (auto simp: fmdom_notD)
  then have result: "result = ClientIdMap m" by (rule fmap_ext)
  have same: "amaps m1 q = amaps m q" if "fmlookup (ClientIdMap m) j = Some q" for j q
    using loop refs_invD(1) [OF refs that] by simp
  then have "GetByClientId i m1 = GetByClientId i m" for i
    using loop by (simp add: GetByClientId_def split: option.split)
  moreover have "amaps (AddClient (Some c) m1) r = fmupd (Addr (clients m1 c)) c (amaps m1 r)"
    using AddClient_again [of m1 c r] assms(5,6) loop result by (simp add: is_app_def amap_put_def)
  ultimately show ?thesis using result same assms(5) by auto
qed

lemma AllClient_shares_witness:
  "\<exists>r. fmlookup (fst (AllClient [''web_7''] (AddClient (Some 0) m_web))) ''web_7'' = Some r"
proof -
  let ?m = "AddClient (Some 0) m_web"
  have inv: "mgr_inv ?m" by (rule AddClient_inv [OF m_web_inv]) simp
  have "fmlookup (ClientIdMap m_web) i = None" for i
    using m_web_empty(1) [of i] by (simp add: table_def)
  then have empty: "ClientIdMap m_web = fmempty" by (intro fmap_ext) simp
  have add: "?m = AddClient_account 0 ''web_7'' (fresh_entry ''web_7'' ''10.0.0.9:4001'' 0 m_web)"
    using AddClient_new [of m_web 0] empty by simp
  have map: "ClientIdMap ?m = fmupd ''web_7'' (next_amap m_web) fmempty"
    unfolding add by (simp add: AddClient_account_count(1) fresh_entry_def empty)
  obtain result m1 where all: "AllClient [''web_7''] ?m = (result, m1)" by (rule prod.exhaust)
  have "clients m1 = clients ?m" and look: "fmlookup result ''web_7'' = Some (next_amap m_web)"
    using all by (auto simp: AllClient_def map make_amap_def)
  then have "clients m1 0 = web7" by simp
  then have "result = ClientIdMap ?m"
    using AllClient_shares [OF inv _ _ all, of 0 "next_amap m_web"] look map
    by (simp add: is_app_def)
  then show ?thesis using all map by simp
qed

end
