(* ===== verification/ManagerSpec.thy ===== *)
theory ManagerSpec
  imports ManagerFacts
begin

text \<open>
  servers/clientmanager.go against a specification without heap: what the in-place deletion
  loop of the member lists computes, as a function of the list, and the manager as a record of
  plain maps and lists whose operations the real ones implement.
\<close>

section \<open>The deletion loop as a function on lists\<close>

text \<open>
  \<open>skip_cut cid m xs\<close> examines \<open>m\<close> positions from the left and takes an element equal to \<open>cid\<close>
  out; the element that moves into its place is not examined any more.
\<close>

fun skip_cut :: "string \<Rightarrow> nat \<Rightarrow> string list \<Rightarrow> string list" where
  "skip_cut cid 0 xs = xs"
| "skip_cut cid (Suc m) [] = []"
| "skip_cut cid (Suc m) [x] = (if x = cid then [] else [x])"
| "skip_cut cid (Suc m) (x # y # xs) =
     (if x = cid then y # skip_cut cid m xs else x # skip_cut cid m (y # xs))"

text \<open>
  With \<open>g\<close> groups the positions below \<open>g - 1\<close> are cut and the later ones truncate. Each cut
  leaves a copy of the last element behind in the array, which the loop examines too: if that
  is \<open>cid\<close>, a cut at it panics and a truncation at it shows the copies before it again.
\<close>

definition cut_panics :: "string \<Rightarrow> nat \<Rightarrow> string list \<Rightarrow> bool" where
  "cut_panics cid m xs \<longleftrightarrow> xs \<noteq> [] \<and> last xs = cid \<and>
     (\<exists>i < min m (length xs). length (skip_cut cid i xs) \<le> i)"

definition deleted :: "nat \<Rightarrow> string \<Rightarrow> string list \<Rightarrow> string list res" where
  "deleted g cid xs =
     (let ys = skip_cut cid (g - 1) xs; buf = ys @ replicate (length xs - length ys) (last xs)
      in if cut_panics cid (g - 1) xs then Panicked ys
         else Done (case last_pos cid buf of
                Some j \<Rightarrow> if g \<le> Suc j then take j buf else ys
              | None \<Rightarrow> ys))"

text \<open>One more position: what one round of the loop does to the list.\<close>

lemma skip_cut_Suc:
  "skip_cut cid (Suc i) xs =
     (let ys = skip_cut cid i xs
      in if i < length ys \<and> ys ! i = cid then take i ys @ drop (Suc i) ys else ys)"
proof (induction cid i xs rule: skip_cut.induct)
  case (1 cid xs)
  then show ?case by (cases "(cid, Suc 0, xs)" rule: skip_cut.cases) (auto simp: Let_def)
qed (auto simp: Let_def)

declare skip_cut.simps(2-4) [simp del]

lemma length_skip_cut: "length (skip_cut cid i xs) \<le> length xs"
  by (induction i) (auto simp: skip_cut_Suc Let_def)

lemma last_skip_cut:
  "i < length (skip_cut cid i xs) \<Longrightarrow> last (skip_cut cid i xs) = last xs"
proof (induction i)
  case (Suc i)
  let ?ys = "skip_cut cid i xs"
  show ?case
  proof (cases "i < length ?ys \<and> ?ys ! i = cid")
    case True
    then have cut: "skip_cut cid (Suc i) xs = take i ?ys @ drop (Suc i) ?ys"
      by (simp add: skip_cut_Suc Let_def)
    then have "Suc (Suc i) < length ?ys" using Suc.prems True by auto
    then show ?thesis using cut Suc.IH by simp
  next
    case False
    then show ?thesis using Suc by (auto simp: skip_cut_Suc Let_def)
  qed
qed simp

text \<open>The array while the loop runs: the list so far, then copies of the last element.\<close>

definition shows_buf :: "arena \<Rightarrow> slice \<Rightarrow> string list \<Rightarrow> string list \<Rightarrow> bool" where
  "shows_buf a s xs ys \<longleftrightarrow> wf_slice a s \<and> slen s = length ys \<and> length ys \<le> length xs \<and>
     take (length xs) (cells a (sbase s)) = ys @ replicate (length xs - length ys) (last xs) \<and>
     length xs \<le> scap s"

lemma shows_buf_init: "wf_slice a s \<Longrightarrow> shows_buf a s (elems a s) (elems a s)"
  using length_elems [of a s] by (simp add: shows_buf_def elems_def) (simp add: wf_slice_def)

lemma shows_buf_elems: "shows_buf a s xs ys \<Longrightarrow> elems a s = ys"
  unfolding shows_buf_def elems_def
  by (metis append_eq_conv_conj append_take_drop_id min.absorb1 take_take)

lemma shows_buf_nth:
  assumes "shows_buf a s xs ys" and "i < length xs"
  shows "cells a (sbase s) ! i = (if i < length ys then ys ! i else last xs)"
proof -
  have "cells a (sbase s) ! i = take (length xs) (cells a (sbase s)) ! i" using assms(2) by simp
  also have "\<dots> = (ys @ replicate (length xs - length ys) (last xs)) ! i"
    using assms(1) by (simp add: shows_buf_def)
  finally show ?thesis using assms(2) by (simp add: nth_append)
qed

lemma shows_buf_cut:
  assumes buf: "shows_buf a s xs ys" and i: "i < length ys" and last: "last ys = last xs"
  shows "\<exists>a' s'. go_cut i a s = Some (a', s') \<and> shows_buf a' s' xs (take i ys @ drop (Suc i) ys)"
proof -
  let ?A = "cells a (sbase s)" and ?n = "length xs" and ?k = "length ys"
  have wf: "wf_slice a s" and k: "slen s = ?k" "?k \<le> ?n" "?n \<le> scap s"
    using buf by (simp_all add: shows_buf_def)
  have len: "?n \<le> length ?A" using k wf by (simp add: wf_slice_def)
  obtain a' s' where cut: "go_cut i a s = Some (a', s')"
    using i k by (auto simp: go_cut_def Let_def)
  let ?A' = "take i ?A @ take (?k - Suc i) (drop (Suc i) ?A) @ drop (?k - 1) ?A"
  have A': "cells a' (sbase s') = ?A'" and s': "slen s' = ?k - 1"
    using cut k(1) by (auto simp: go_cut_def Let_def split: if_splits)
  note wf' = cut_wf [OF cut wf]
  have "take ?n ?A' = (take i ys @ drop (Suc i) ys) @ replicate (?n - (?k - 1)) (last xs)"
  proof (rule nth_equalityI)
    show "length (take ?n ?A') = length ((take i ys @ drop (Suc i) ys) @ replicate (?n - (?k - 1)) (last xs))"
      using len i k by simp
  next
    fix j assume j: "j < length (take ?n ?A')"
    then have jn: "j < ?n" by (simp only: length_take min_less_iff_conj)
    have at: "?A ! l = (if l < ?k then ys ! l else last xs)" if "l < ?n" for l
      using shows_buf_nth [OF buf that] .
    consider "j < i" | "i \<le> j" "j < ?k - 1" | "?k - 1 \<le> j" by linarith
    then have "?A' ! j = ((take i ys @ drop (Suc i) ys) @ replicate (?n - (?k - 1)) (last xs)) ! j"
    proof cases
      case 1
      then show ?thesis using jn i k len at [of j] by (simp add: nth_append)
    next
      case 2
      then have j': "j - i < ?k - Suc i" "Suc j < ?k" "Suc j < ?n" using i k by linarith+
      then have "?A' ! j = ?A ! Suc j" using 2 i k len by (simp add: nth_append)
      then show ?thesis using at [OF j'(3)] j' 2 i by (simp add: nth_append)
    next
      case 3
      then have "\<not> j < i" "\<not> j - i < ?k - Suc i" using i by linarith+
      then have "?A' ! j = ?A ! j" using 3 jn i k len by (simp add: nth_append)
      moreover have "?A ! j = last xs"
      proof (cases "j < ?k")
        case True
        then have "j = ?k - 1" and "ys \<noteq> []" using 3 i by auto
        then show ?thesis using at [OF jn] last True by (simp add: last_conv_nth)
      qed (simp add: at [OF jn])
      moreover have "\<not> j < length (take i ys @ drop (Suc i) ys)" using 3 i by simp
      ultimately show ?thesis using 3 jn i k by (simp only: nth_append) simp
    qed
    then show "take ?n ?A' ! j = ((take i ys @ drop (Suc i) ys) @ replicate (?n - (?k - 1)) (last xs)) ! j"
      by (simp only: nth_take [OF jn])
  qed
  then have "shows_buf a' s' xs (take i ys @ drop (Suc i) ys)"
    using wf' A' s' i k by (simp add: shows_buf_def)
  then show ?thesis using cut by blast
qed


lemma cut_panics_Suc:
  "i < length xs \<Longrightarrow> cut_panics cid (Suc i) xs \<longleftrightarrow>
     cut_panics cid i xs \<or> (last xs = cid \<and> length (skip_cut cid i xs) \<le> i)"
  unfolding cut_panics_def by (auto simp: less_Suc_eq)

lemma skip_cut_stable:
  assumes "length (skip_cut cid j xs) \<le> j" and "j \<le> i"
  shows "skip_cut cid i xs = skip_cut cid j xs"
  using assms(2,1) by (induction i rule: dec_induct) (simp_all add: skip_cut_Suc Let_def)

lemma cut_panics_stable:
  assumes "cut_panics cid i xs"
  shows "skip_cut cid (Suc i) xs = skip_cut cid i xs"
proof -
  obtain j where "j < i" and "length (skip_cut cid j xs) \<le> j"
    using assms unfolding cut_panics_def by fastforce
  then show ?thesis using skip_cut_stable [of cid j xs] by (metis le_SucI less_imp_le_nat)
qed

lemma del_loop_cuts:
  assumes "wf_slice a s" and xs: "xs = elems a s" and "i \<le> min (g - 1) (length xs)"
  shows "\<exists>a' s'. del_loop g cid [0..<i] (a, s) =
      (if cut_panics cid i xs then Panicked (a', s') else Done (a', s')) \<and>
    shows_buf a' s' xs (skip_cut cid i xs)"
  using assms(3)
proof (induction i)
  case 0
  then show ?case using shows_buf_init [OF assms(1)] by (simp add: cut_panics_def xs)
next
  case (Suc i)
  let ?ys = "skip_cut cid i xs"
  have i: "i < length xs" "i + 1 < g" using Suc.prems by auto
  obtain a' s' where IH: "del_loop g cid [0..<i] (a, s) =
      (if cut_panics cid i xs then Panicked (a', s') else Done (a', s'))"
    and buf: "shows_buf a' s' xs ?ys"
    using Suc by auto
  have cell: "cells a' (sbase s') ! i = (if i < length ?ys then ?ys ! i else last xs)"
    by (rule shows_buf_nth [OF buf i(1)])
  consider "cut_panics cid i xs"
    | "\<not> cut_panics cid i xs" "cells a' (sbase s') ! i \<noteq> cid"
    | "\<not> cut_panics cid i xs" "cells a' (sbase s') ! i = cid" "i < length ?ys"
    | "\<not> cut_panics cid i xs" "cells a' (sbase s') ! i = cid" "\<not> i < length ?ys" by blast
  then show ?case
  proof cases
    case 1
    then show ?thesis
      using IH buf cut_panics_stable [OF 1] cut_panics_Suc [OF i(1)] by (auto simp: del_loop_append)
  next
    case 2
    then have "\<not> cut_panics cid (Suc i) xs" and "skip_cut cid (Suc i) xs = ?ys"
      using cell cut_panics_Suc [OF i(1)] by (auto simp: skip_cut_Suc Let_def)
    then show ?thesis using IH buf 2 by (auto simp: del_loop_append)
  next
    case 3
    obtain a'' s'' where cut: "go_cut i a' s' = Some (a'', s'')"
      and "shows_buf a'' s'' xs (take i ?ys @ drop (Suc i) ?ys)"
      using shows_buf_cut [OF buf 3(3) last_skip_cut [OF 3(3)]] by blast
    moreover have "\<not> cut_panics cid (Suc i) xs" using 3 cut_panics_Suc [OF i(1)] by auto
    moreover have "skip_cut cid (Suc i) xs = take i ?ys @ drop (Suc i) ?ys"
      using 3 cell by (simp add: skip_cut_Suc Let_def)
    ultimately show ?thesis using IH 3 i(2) by (auto simp: del_loop_append)
  next
    case 4
    then have "cut_panics cid (Suc i) xs" and "skip_cut cid (Suc i) xs = ?ys"
      using cell cut_panics_Suc [OF i(1)] by (auto simp: skip_cut_Suc Let_def)
    moreover have "go_cut i a' s' = None" using 4(3) buf by (auto simp: go_cut_def shows_buf_def)
    ultimately show ?thesis using IH buf 4 i(2) by (auto simp: del_loop_append)
  qed
qed

lemma del_loop_reslices:
  assumes "wf_slice a s" and "n \<le> scap s" and "g \<le> Suc m" and "m \<le> k" and "k \<le> n"
  shows "del_loop g cid [m..<k] (a, s) = Done (a, s\<lparr>slen :=
    (case last_pos cid (take k (cells a (sbase s))) of
       Some j \<Rightarrow> if m \<le> j then j else slen s | None \<Rightarrow> slen s)\<rparr>)"
  using assms(4,5)
proof (induction k rule: dec_induct)
  case base
  show ?case using last_pos_less [of cid "take m (cells a (sbase s))"] by (auto split: option.split)
next
  case (step k)
  have k: "k < length (cells a (sbase s))" "k \<le> scap s"
    using assms(1,2) step.prems by (simp_all add: wf_slice_def)
  then have "take (Suc k) (cells a (sbase s)) = take k (cells a (sbase s)) @ [cells a (sbase s) ! k]"
    and "length (take k (cells a (sbase s))) = k"
    by (simp_all add: take_Suc_conv_app_nth)
  then show ?case
    using step k assms(3) by (simp add: del_loop_append go_reslice_def)
qed

theorem del_member_deleted:
  assumes wf: "wf_slice a s"
  shows "\<exists>a' s'. del_member g cid a s =
      (case deleted g cid (elems a s) of Done _ \<Rightarrow> Done (a', s') | Panicked _ \<Rightarrow> Panicked (a', s')) \<and>
    elems a' s' = res_state (deleted g cid (elems a s))"
proof -
  define xs where "xs = elems a s"
  define m where "m = min (g - 1) (length xs)"
  have len: "slen s = length xs" using length_elems [OF wf] by (simp add: xs_def)
  have range: "[0..<slen s] = [0..<m] @ [m..<length xs]"
    using len upt_add_eq_append [of 0 m "length xs - m"] by (simp add: m_def)
  obtain a' s' where cuts: "del_loop g cid [0..<m] (a, s) =
      (if cut_panics cid m xs then Panicked (a', s') else Done (a', s'))"
    and buf: "shows_buf a' s' xs (skip_cut cid m xs)"
    using del_loop_cuts [OF wf xs_def, of m g cid] by (auto simp: m_def)
  let ?ys = "skip_cut cid (g - 1) xs"
  have ys: "skip_cut cid m xs = ?ys"
    using skip_cut_stable [of cid m xs "g - 1"] length_skip_cut [of cid m xs] by (auto simp: m_def min_def)
  have panics: "cut_panics cid m xs = cut_panics cid (g - 1) xs"
    by (simp add: cut_panics_def m_def min.assoc)
  show ?thesis
  proof (cases "cut_panics cid (g - 1) xs")
    case True
    then show ?thesis
      using cuts shows_buf_elems [OF buf] panics ys range
      by (auto simp: del_member_def del_loop_append deleted_def simp flip: xs_def)
  next
    case False
    let ?buf = "?ys @ replicate (length xs - length ?ys) (last xs)"
    let ?s = "s'\<lparr>slen := (case last_pos cid ?buf of
       Some j \<Rightarrow> if m \<le> j then j else slen s' | None \<Rightarrow> slen s')\<rparr>"
    have wf': "wf_slice a' s'" "length xs \<le> scap s'" and here: "take (length xs) (cells a' (sbase s')) = ?buf"
      using buf ys by (simp_all add: shows_buf_def)
    have short: "j < length xs" if "last_pos cid ?buf = Some j" for j
      using last_pos_less [OF that] length_skip_cut [of cid "g - 1" xs] by simp
    have rest: "del_loop g cid [m..<length xs] (a', s') = Done (a', ?s)"
    proof (cases "length xs \<le> g - 1")
      case True
      then show ?thesis using short by (auto simp: m_def split: option.split)
    next
      case False
      then show ?thesis
        using del_loop_reslices [OF wf', of g m "length xs" cid] here by (simp add: m_def)
    qed
    have upto: "m \<le> j \<longleftrightarrow> g \<le> Suc j" if "last_pos cid ?buf = Some j" for j
      using short [OF that] by (auto simp: m_def)
    have "length ?ys = slen s'" using buf ys by (simp add: shows_buf_def)
    moreover have "slen ?s \<le> length xs"
      using buf short by (auto simp: shows_buf_def dest: less_imp_le split: option.split)
    then have "elems a' ?s = take (slen ?s) ?buf"
      using here by (metis (no_types, lifting) elems_def min.absorb1 slice.select_convs(1)
          slice.surjective slice.update_convs(2) take_take)
    ultimately have "elems a' ?s = (case last_pos cid ?buf of
        Some j \<Rightarrow> if g \<le> Suc j then take j ?buf else ?ys | None \<Rightarrow> ?ys)"
      using upto by (auto split: option.split)
    then have "deleted g cid xs = Done (elems a' ?s)" using False by (simp only: deleted_def Let_def if_False)
    moreover have "del_member g cid a s = Done (a', ?s)"
      using cuts rest panics False range by (simp add: del_member_def del_loop_append)
    ultimately show ?thesis unfolding xs_def [symmetric]
      by (intro exI [of _ a'] exI [of _ ?s] conjI) (simp_all only: res.case res_state.simps)
  qed
qed

section \<open>The manager without a heap\<close>

text \<open>
  What the manager keeps, as plain maps and lists: the connections of an id by address, the ids
  of an account, the member lists of groups and systems, which groups exist, and the client
  objects.
\<close>

record spec =
  conns :: "string \<Rightarrow> (string, cref) fmap option"
  accounts :: "string \<Rightarrow> string list"
  rosters :: "list_key \<Rightarrow> string list"
  group_keys :: "string fset"
  objects :: "cref \<Rightarrow> client"
  allocated :: cref

definition spec_init :: spec where
  "spec_init = \<lparr>conns = (\<lambda>_. None), accounts = (\<lambda>_. []), rosters = (\<lambda>_. []), group_keys = {||},
     objects = (\<lambda>_. NewClient [] [] [] None 0), allocated = 0\<rparr>"

definition spec_new :: "client \<Rightarrow> spec \<Rightarrow> spec" where
  "spec_new cl S = S\<lparr>objects := (objects S)(allocated S := cl), allocated := Suc (allocated S)\<rparr>"

definition spec_count :: "string \<Rightarrow> (string \<Rightarrow> string list) \<Rightarrow> string \<Rightarrow> string list" where
  "spec_count i A = (case platform_key i of None \<Rightarrow> A | Some k \<Rightarrow> A(k := A k @ [i]))"

text \<open>An app's id, and an id that is not there yet, start with no connection and are counted.\<close>

definition spec_add :: "cref \<Rightarrow> spec \<Rightarrow> spec" where
  "spec_add c S =
     (let i = ClientId (objects S c); a = Addr (objects S c)
      in case (if is_app i then None else conns S i) of
           None \<Rightarrow> S\<lparr>conns := (conns S)(i \<mapsto> fmupd a c fmempty), accounts := spec_count i (accounts S)\<rparr>
         | Some t \<Rightarrow> S\<lparr>conns := (conns S)(i \<mapsto> fmupd a c t)\<rparr>)"

definition spec_append :: "list_key \<Rightarrow> cref \<Rightarrow> spec \<Rightarrow> spec" where
  "spec_append k c S = S\<lparr>rosters := (rosters S)(k := rosters S k @ [ClientId (objects S c)])\<rparr>"

definition spec_set :: "cref \<Rightarrow> client \<Rightarrow> spec \<Rightarrow> spec" where
  "spec_set c cl S = S\<lparr>objects := (objects S)(c := cl)\<rparr>"

definition spec_join :: "string \<Rightarrow> cref \<Rightarrow> string \<Rightarrow> string \<Rightarrow> spec \<Rightarrow> spec" where
  "spec_join g c userId ext S =
     (let cl = (objects S c)\<lparr>UserId := userId, Extend := ext\<rparr>; k = GenGroupKey (SystemId cl) g
      in if g \<in> set (GroupList cl) then spec_set c cl S
         else (spec_append (Group k) c (spec_set c (cl\<lparr>GroupList := GroupList cl @ [g]\<rparr>) S))
           \<lparr>group_keys := finsert k (group_keys S)\<rparr>)"

text \<open>Deletion from a member list: the panic of the loop, if there is one, stops the caller.\<close>

definition spec_delete :: "list_key \<Rightarrow> string \<Rightarrow> spec \<Rightarrow> spec res" where
  "spec_delete k cid S =
     (case deleted (fcard (group_keys S)) cid (rosters S k) of
        Done ys \<Rightarrow> Done (S\<lparr>rosters := (rosters S)(k := ys)\<rparr>)
      | Panicked ys \<Rightarrow> Panicked (S\<lparr>rosters := (rosters S)(k := ys)\<rparr>))"

definition spec_forget :: "string \<Rightarrow> string \<Rightarrow> spec \<Rightarrow> spec" where
  "spec_forget i a S =
     (case conns S i of
        None \<Rightarrow> S
      | Some t \<Rightarrow>
          if a |\<notin>| fmdom t then S
          else if fmdrop i t \<noteq> fmempty then S\<lparr>conns := (conns S)(i \<mapsto> fmdrop i t)\<rparr>
          else S\<lparr>conns := (conns S)(i := None), accounts := (\<lambda>k.
            if platform_key i = Some k then filter (\<lambda>j. j \<noteq> i) (accounts S k) else accounts S k)\<rparr>)"

fun spec_leave :: "cref \<Rightarrow> string list \<Rightarrow> spec \<Rightarrow> spec res" where
  "spec_leave c [] S = Done S"
| "spec_leave c (g # gs) S =
     res_then (spec_delete (Group (GenGroupKey (SystemId (objects S c)) g)) (ClientId (objects S c)) S)
       (spec_leave c gs)"

definition spec_del :: "cref \<Rightarrow> spec \<Rightarrow> spec" where
  "spec_del c S =
     (let cl = objects S c
      in if ClientId cl = [] then S
         else res_state (res_then (spec_leave c (GroupList cl) (spec_forget (ClientId cl) (Addr cl) S))
           (spec_delete (System (SystemId cl)) (ClientId cl))))"

text \<open>The abstraction, and what of the heap it needs: references that are not shared.\<close>

definition abs_mgr :: "manager \<Rightarrow> spec" where
  "abs_mgr m = \<lparr>conns = table m, accounts = account_ids m, rosters = members m,
     group_keys = fmdom (Groups m), objects = clients m, allocated = next_client m\<rparr>"

definition heap_ok :: "manager \<Rightarrow> bool" where
  "heap_ok m \<longleftrightarrow> refs_inv m \<and> lists_inv m"

lemma heap_okD: "heap_ok m \<Longrightarrow> refs_inv m" "heap_ok m \<Longrightarrow> lists_inv m"
  by (simp_all add: heap_ok_def)

lemma abs_mgr_sel [simp]:
  "conns (abs_mgr m) = table m" "accounts (abs_mgr m) = account_ids m"
  "rosters (abs_mgr m) = members m" "group_keys (abs_mgr m) = fmdom (Groups m)"
  "objects (abs_mgr m) = clients m" "allocated (abs_mgr m) = next_client m"
  by (simp_all add: abs_mgr_def)

lemma abs_mgr_eqI:
  fixes S :: spec
  assumes "table m = conns S" and "account_ids m = accounts S" and "members m = rosters S"
    and "fmdom (Groups m) = group_keys S" and "clients m = objects S" and "next_client m = allocated S"
  shows "abs_mgr m = S"
  using assms by (simp add: abs_mgr_def)

named_theorems refines \<open>an operation on the heap is the operation of the specification\<close>

lemma account_ids_frame: "PlatformAccountMap m' = PlatformAccountMap m \<Longrightarrow> account_ids m' = account_ids m"
  by (simp add: account_ids_def [abs_def])

lemma table_frame: "ClientIdMap m' = ClientIdMap m \<Longrightarrow> amaps m' = amaps m \<Longrightarrow> table m' = table m"
  by (simp add: table_def [abs_def])

lemma abs_init [refines]: "abs_mgr NewClientManager = spec_init"
proof -
  have "members NewClientManager k = []" for k
    by (cases k) (simp_all add: members_def NewClientManager_def)
  then have "members NewClientManager = (\<lambda>_. [])" by auto
  then show ?thesis
    by (simp add: abs_mgr_def spec_init_def) (simp add: NewClientManager_def table_def account_ids_def fun_eq_iff)
qed

lemma abs_new_client [refines]: "abs_mgr (snd (new_client cl m)) = spec_new cl (abs_mgr m)"
proof (rule abs_mgr_eqI)
  show "members (snd (new_client cl m)) = rosters (spec_new cl (abs_mgr m))"
    using lists_inv_frame [of "snd (new_client cl m)" m] by (simp add: new_client_def spec_new_def)
qed (simp_all add: new_client_def spec_new_def table_def [abs_def] account_ids_def [abs_def])

lemma abs_AddClient [refines]:
  assumes "heap_ok m"
  shows "abs_mgr (AddClient (Some c) m) = spec_add c (abs_mgr m)"
proof (rule abs_mgr_eqI)
  show "table (AddClient (Some c) m) = conns (spec_add c (abs_mgr m))"
    using table_AddClient [OF heap_okD(1) [OF assms], of c]
    by (auto simp: spec_add_def Let_def conns_after_add_def old_conns_def split: option.split)
  show "account_ids (AddClient (Some c) m) = accounts (spec_add c (abs_mgr m))"
    by (auto simp: fun_eq_iff account_ids_AddClient spec_add_def spec_count_def Let_def
        split: option.splits)
qed (auto simp: spec_add_def Let_def split: option.splits)

lemma abs_list_store:
  "account_ids (list_store k st m) = account_ids m"
  by (rule account_ids_frame) simp

lemma abs_set_client [refines]: "abs_mgr (set_client c cl m) = spec_set c cl (abs_mgr m)"
  by (rule abs_mgr_eqI) (simp_all add: spec_set_def account_ids_def [abs_def])

lemma fmdom_Groups_store [simp]:
  "fmdom (Groups (list_store (Group k) st m)) = finsert k (fmdom (Groups m))"
  "Groups (list_store (System k) st m) = Groups m"
  by (cases st; simp)+

lemma abs_addClient2Group [refines]:
  assumes "heap_ok m"
  shows "abs_mgr (addClient2Group grow k c m) =
    (spec_append (Group k) c (abs_mgr m))\<lparr>group_keys := finsert k (fmdom (Groups m))\<rparr>"
  unfolding addClient2Group_store
  by (rule abs_mgr_eqI)
    (simp_all add: spec_append_def abs_list_store members_store_append heap_okD [OF assms]
      del: list_store.simps list_slice.simps)

lemma heap_ok_AddClient: "heap_ok m \<Longrightarrow> heap_ok (AddClient (Some c) m)"
  by (simp add: heap_ok_def AddClient_refs)

lemma abs_AddClient2SystemClient [refines]:
  assumes "heap_ok m"
  shows "abs_mgr (AddClient2SystemClient grow sys addr c m) =
    spec_append (System sys) c (spec_add c (abs_mgr m))"
proof -
  have "PlatformAccountMap (AddClient2SystemClient grow sys addr c m) = PlatformAccountMap (AddClient (Some c) m)"
    by (simp add: AddClient2SystemClient_store Let_def)
  then show ?thesis
    unfolding abs_AddClient [OF assms, symmetric]
    by (intro abs_mgr_eqI)
      (simp_all add: spec_append_def account_ids_def [abs_def] members_AddClient2SystemClient heap_okD [OF assms])
qed

lemma abs_AddClient2LocalGroup [refines]:
  assumes "heap_ok m"
  shows "abs_mgr (fst (AddClient2LocalGroup grow g c userId ext m)) = spec_join g c userId ext (abs_mgr m)"
proof -
  have ok: "heap_ok (set_client c cl m)" for cl using assms by (simp add: heap_ok_def)
  show ?thesis
    by (simp add: AddClient2LocalGroup_def spec_join_def Let_def abs_set_client abs_addClient2Group [OF ok])
      (simp add: spec_set_def spec_append_def)
qed


text \<open>Deletion.\<close>

lemma deleted_Nil: "deleted g cid [] = Done []"
  by (cases "g - 1") (simp_all add: deleted_def cut_panics_def skip_cut.simps)

lemma abs_delete:
  assumes ok: "heap_ok m"
    and keys: "\<And>st. fmdom (Groups (list_store k st m)) = fmdom (Groups m)"
  shows "map_res (\<lambda>st. abs_mgr (list_store k st m))
      (del_member (map_len (Groups m)) cid (arrays m) (list_slice k m)) = spec_delete k cid (abs_mgr m)"
proof -
  let ?xs = "deleted (map_len (Groups m)) cid (members m k)"
  obtain a' s' where del: "del_member (map_len (Groups m)) cid (arrays m) (list_slice k m) =
      (case ?xs of Done _ \<Rightarrow> Done (a', s') | Panicked _ \<Rightarrow> Panicked (a', s'))"
    and res: "elems a' s' = res_state ?xs"
    using del_member_deleted [OF lists_invD(1) [OF heap_okD(2) [OF ok]], of "map_len (Groups m)" cid k]
    unfolding members_def by blast
  then have st: "(a', s') = res_state (del_member (map_len (Groups m)) cid (arrays m) (list_slice k m))"
    by (simp split: res.split)
  have "members (list_store k (a', s') m) j = members m j" if "j \<noteq> k" for j
    unfolding st by (rule members_store_delete [OF heap_okD(2) [OF ok] that])
  then have "members (list_store k (a', s') m) = (members m)(k := res_state ?xs)"
    using members_store [of k "(a', s')" m] res by (simp add: fun_eq_iff)
  then have "abs_mgr (list_store k (a', s') m) = (abs_mgr m)\<lparr>rosters := (members m)(k := res_state ?xs)\<rparr>"
    using keys [of "(a', s')"] by (intro abs_mgr_eqI) (simp_all add: abs_list_store)
  then show ?thesis using del by (simp add: spec_delete_def map_len_def split: res.split)
qed

lemma delGroupClient_Some:
  "k |\<in>| fmdom (Groups m) \<Longrightarrow> delGroupClient k cid m = map_res (\<lambda>st. list_store (Group k) st m)
     (del_member (map_len (Groups m)) cid (arrays m) (list_slice (Group k) m))"
  by (auto simp: delGroupClient_def Let_def map_get_def fmlookup_dom_iff split: res.splits)

lemma delSystemClient_Some:
  "SystemId (clients m c) |\<in>| fmdom (SystemClients m) \<Longrightarrow>
   delSystemClient c m = map_res (\<lambda>st. list_store (System (SystemId (clients m c))) st m)
     (del_member (map_len (Groups m)) (ClientId (clients m c)) (arrays m)
       (list_slice (System (SystemId (clients m c))) m))"
  by (auto simp: delSystemClient_def Let_def map_get_def fmlookup_dom_iff split: res.splits)

lemma spec_delete_Nil: "rosters S k = [] \<Longrightarrow> spec_delete k cid S = Done S"
  by (simp add: spec_delete_def deleted_Nil fun_upd_idem)

lemma abs_delGroupClient [refines]:
  assumes "heap_ok m"
  shows "map_res abs_mgr (delGroupClient k cid m) = spec_delete (Group k) cid (abs_mgr m)"
proof (cases "k |\<in>| fmdom (Groups m)")
  case True
  then have "\<And>st. fmdom (Groups (list_store (Group k) st m)) = fmdom (Groups m)"
    by (auto simp del: list_store.simps)
  then show ?thesis
    using abs_delete [OF assms, of "Group k" cid] delGroupClient_Some [OF True, of cid]
    by (simp add: res.map_comp comp_def del: list_store.simps list_slice.simps)
next
  case False
  then have "members m (Group k) = []" using list_slice_present(1) by blast
  moreover have "delGroupClient k cid m = Done m"
    using False by (simp add: delGroupClient_def fmdom_notD)
  ultimately show ?thesis by (simp add: spec_delete_Nil)
qed

lemma abs_delSystemClient [refines]:
  assumes "heap_ok m"
  shows "map_res abs_mgr (delSystemClient c m) =
    spec_delete (System (SystemId (clients m c))) (ClientId (clients m c)) (abs_mgr m)"
proof (cases "SystemId (clients m c) |\<in>| fmdom (SystemClients m)")
  case True
  show ?thesis
    using abs_delete [OF assms, of "System (SystemId (clients m c))" "ClientId (clients m c)"]
      delSystemClient_Some [OF True]
    by (simp add: res.map_comp comp_def del: list_store.simps list_slice.simps)
next
  case False
  then have "members m (System (SystemId (clients m c))) = []" using list_slice_present(2) by blast
  moreover have "delSystemClient c m = Done m"
    using False by (simp add: delSystemClient_def Let_def fmdom_notD)
  ultimately show ?thesis by (simp add: spec_delete_Nil)
qed

lemma removeElement_filter: "removeElement xs x = filter (\<lambda>y. y \<noteq> x) xs"
  by (induction xs) auto

lemma abs_delClientIdMap [refines]:
  assumes "heap_ok m"
  shows "abs_mgr (delClientIdMap i a m) = spec_forget i a (abs_mgr m)"
proof (rule abs_mgr_eqI)
  show "table (delClientIdMap i a m) = conns (spec_forget i a (abs_mgr m))"
    unfolding table_delClientIdMap [OF heap_okD(1) [OF assms]]
    by (simp add: table_after_del_def spec_forget_def split: option.split)
  show "account_ids (delClientIdMap i a m) = accounts (spec_forget i a (abs_mgr m))"
  proof (cases rule: delClientIdMap_cases [of i a m])
    case absent
    then show ?thesis by (auto simp: spec_forget_def split: option.split)
  next
    case (kept r t)
    then show ?thesis by (simp add: spec_forget_def account_ids_def [abs_def])
  next
    case (gone r t P)
    have "account_ids (delClientIdMap i a m) k =
        (if platform_key i = Some k then removeElement (account_ids m k) i else account_ids m k)" for k
      using gone(6,7) by (simp add: account_ids_def)
    then show ?thesis using gone(1-3) by (simp add: spec_forget_def fun_eq_iff removeElement_filter)
  qed
  show "members (delClientIdMap i a m) = rosters (spec_forget i a (abs_mgr m))"
    using lists_inv_frame [of "delClientIdMap i a m" m] by (simp add: spec_forget_def split: option.split)
qed (simp_all add: spec_forget_def split: option.split)

text \<open>The deletions keep the references apart, and sequence as in the specification.\<close>

lemma heap_ok_list_store_delete:
  "heap_ok m \<Longrightarrow> heap_ok (list_store k (res_state (del_member g cid (arrays m) (list_slice k m))) m)"
  by (simp add: heap_ok_def lists_inv_store_delete)

lemma heap_ok_ops [go_inv]:
  assumes "heap_ok m"
  shows "heap_ok (snd (new_client cl m))" and "heap_ok (AddClient (Some c) m)"
    and "heap_ok (AddClient2SystemClient grow sys addr c m)"
    and "heap_ok (fst (AddClient2LocalGroup grow g c userId ext m))"
    and "heap_ok (delClientIdMap i a m)"
    and "heap_ok (res_state (delGroupClient k cid m))" and "heap_ok (res_state (delSystemClient c m))"
proof -
  note ok = heap_okD [OF assms]
  show "heap_ok (snd (new_client cl m))"
    using assms lists_inv_frame [of "snd (new_client cl m)" m]
    by (simp add: heap_ok_def refs_inv_def new_client_def)
  show "heap_ok (AddClient (Some c) m)" by (rule heap_ok_AddClient [OF assms])
  show "heap_ok (AddClient2SystemClient grow sys addr c m)"
    using lists_inv_store_append [of "AddClient (Some c) m"] ok
    by (simp add: heap_ok_def AddClient2SystemClient_store Let_def AddClient_refs
        del: list_store.simps list_slice.simps)
  have "heap_ok (addClient2Group grow k c (set_client c cl m))" for k cl
    using lists_inv_store_append [of "set_client c cl m"] ok
    by (simp add: heap_ok_def addClient2Group_store del: list_store.simps list_slice.simps)
  then show "heap_ok (fst (AddClient2LocalGroup grow g c userId ext m))"
    using assms by (simp add: AddClient2LocalGroup_def Let_def heap_ok_def)
  show "heap_ok (delClientIdMap i a m)"
    using delClientIdMap_refs [OF ok(1)] ok lists_inv_frame [of "delClientIdMap i a m" m]
    by (simp add: heap_ok_def)
  show "heap_ok (res_state (delGroupClient k cid m))" "heap_ok (res_state (delSystemClient c m))"
    unfolding delGroupClient_store delSystemClient_store
    using assms by (simp_all add: heap_ok_list_store_delete del: list_slice.simps)
qed

lemma heap_ok_delGroups: "heap_ok m \<Longrightarrow> heap_ok (res_state (delGroups c gs m))"
  by (induction c gs m rule: delGroups.induct) (auto intro: res_state_then heap_ok_ops)

lemma res_state_map: "res_state (map_res f r) = f (res_state r)"
  by (cases r) simp_all

lemma map_res_then:
  assumes "map_res f r = r'" and "P (res_state r)"
    and "\<And>m. P m \<Longrightarrow> map_res f (h m) = h' (f m)"
  shows "map_res f (res_then r h) = res_then r' h'"
  using assms by (cases r) auto

lemma clients_del_frame [simp]:
  "clients (res_state (delGroupClient k cid m)) = clients m"
  "clients (res_state (delGroups c gs m)) = clients m"
proof -
  show group: "clients (res_state (delGroupClient k cid m)) = clients m" for k cid m
    by (simp add: delGroupClient_store del: list_slice.simps)
  show "clients (res_state (delGroups c gs m)) = clients m"
    by (induction c gs m rule: delGroups.induct)
      (auto intro!: res_state_then [where P = "\<lambda>m'. clients m' = _"] simp: group)
qed

lemma abs_delGroups [refines]:
  "heap_ok m \<Longrightarrow> map_res abs_mgr (delGroups c gs m) = spec_leave c gs (abs_mgr m)"
proof (induction c gs m rule: delGroups.induct)
  case (2 c g gs m)
  show ?case
    using 2 by (simp, intro map_res_then [where P = heap_ok])
      (simp_all add: abs_delGroupClient heap_ok_ops)
qed simp

lemma abs_DelClient [refines]:
  assumes "heap_ok m"
  shows "abs_mgr (DelClient (Some c) m) = spec_del c (abs_mgr m)"
    and "heap_ok (DelClient (Some c) m)"
proof -
  let ?cl = "clients m c"
  let ?m = "delClientIdMap (ClientId ?cl) (Addr ?cl) m"
  have ok: "heap_ok ?m" by (rule heap_ok_ops(5) [OF assms])
  have "map_res abs_mgr (res_then (delGroups c (GroupList ?cl) ?m) (delSystemClient c)) =
      res_then (spec_leave c (GroupList ?cl) (abs_mgr ?m)) (spec_delete (System (SystemId ?cl)) (ClientId ?cl))"
    by (rule map_res_then [OF abs_delGroups [OF ok], where P = "\<lambda>m'. heap_ok m' \<and> clients m' = clients m"])
      (simp_all add: heap_ok_delGroups [OF ok] abs_delSystemClient)
  then have "abs_mgr (res_state (res_then (delGroups c (GroupList ?cl) ?m) (delSystemClient c))) =
      res_state (res_then (spec_leave c (GroupList ?cl) (abs_mgr ?m))
        (spec_delete (System (SystemId ?cl)) (ClientId ?cl)))"
    by (metis res_state_map)
  then show "abs_mgr (DelClient (Some c) m) = spec_del c (abs_mgr m)"
    by (simp add: spec_del_def Let_def abs_delClientIdMap [OF assms])
  show "heap_ok (DelClient (Some c) m)"
    using assms ok by (auto simp: Let_def intro!: res_state_then heap_ok_delGroups heap_ok_ops(7))
qed

section \<open>Programs over the manager\<close>

text \<open>
  A program is a list of operations; each time the language may choose how far an array grows.
\<close>

datatype mgr_op =
    New client
  | Add cref
  | Add_system string string cref
  | Join string cref string string
  | Drop_member string string
  | Del cref

fun exec_op :: "growth \<times> mgr_op \<Rightarrow> manager \<Rightarrow> manager" where
  "exec_op (grow, New cl) m = snd (new_client cl m)"
| "exec_op (grow, Add c) m = AddClient (Some c) m"
| "exec_op (grow, Add_system sys addr c) m = AddClient2SystemClient grow sys addr c m"
| "exec_op (grow, Join g c userId ext) m = fst (AddClient2LocalGroup grow g c userId ext m)"
| "exec_op (grow, Drop_member k cid) m = res_state (delGroupClient k cid m)"
| "exec_op (grow, Del c) m = DelClient (Some c) m"

fun spec_op :: "growth \<times> mgr_op \<Rightarrow> spec \<Rightarrow> spec" where
  "spec_op (_, New cl) S = spec_new cl S"
| "spec_op (_, Add c) S = spec_add c S"
| "spec_op (_, Add_system sys addr c) S = spec_append (System sys) c (spec_add c S)"
| "spec_op (_, Join g c userId ext) S = spec_join g c userId ext S"
| "spec_op (_, Drop_member k cid) S = res_state (spec_delete (Group k) cid S)"
| "spec_op (_, Del c) S = spec_del c S"

lemma exec_op_refines:
  assumes "heap_ok m"
  shows "abs_mgr (exec_op p m) = spec_op p (abs_mgr m)" and "heap_ok (exec_op p m)"
proof -
  obtain grow op where p: "p = (grow, op)" by (rule prod.exhaust)
  show "abs_mgr (exec_op p m) = spec_op p (abs_mgr m)"
    unfolding p using res_state_map [of abs_mgr "delGroupClient k cid m" for k cid]
    by (cases op) (simp_all add: refines assms del: DelClient.simps)
  show "heap_ok (exec_op p m)"
    unfolding p by (cases op) (simp_all add: heap_ok_ops abs_DelClient(2) assms del: DelClient.simps)
qed

lemma heap_ok_init: "heap_ok NewClientManager"
  using mgr_invD [OF mgr_inv_init] by (simp add: heap_ok_def)

lemma fold_refines:
  "heap_ok m \<Longrightarrow> abs_mgr (fold exec_op ps m) = fold spec_op ps (abs_mgr m) \<and> heap_ok (fold exec_op ps m)"
  by (induction ps arbitrary: m) (simp_all add: exec_op_refines)

text \<open>
  C2. The manager implements its specification. After any sequence of its operations, however
  the arrays grew, the lookups by id, the lists of the accounts, the member lists, the number
  of entries and the client objects are those of the specification after the same sequence: a
  record of plain maps and lists, without references, shared maps or arrays.
\<close>

theorem manager_refines:
  "let m = fold exec_op ps NewClientManager; S = fold spec_op ps spec_init
   in GetByClientId i m = (case conns S i of None \<Rightarrow> Inl ClientNotExist | Some t \<Rightarrow> Inr t) \<and>
    Count m = card (dom (conns S)) \<and>
    PlatformAccountCount p a m = (accounts S (p @ ''_'' @ a), length (accounts S (p @ ''_'' @ a))) \<and>
    elems (arrays m) (GetGroupClientList g m) = rosters S (Group g) \<and>
    elems (arrays m) (GetSystemClientList s m) = rosters S (System s) \<and>
    clients m c = objects S c"
proof -
  let ?m = "fold exec_op ps NewClientManager"
  have S: "fold spec_op ps spec_init = abs_mgr ?m"
    using fold_refines [OF heap_ok_init, of ps] by (simp add: abs_init)
  have "fset (fmdom (ClientIdMap ?m)) = dom (table ?m)"
    using table_None_iff by (auto simp: dom_def)
  then have "Count ?m = card (dom (table ?m))"
    by (simp add: Count_def map_len_def fcard.rep_eq)
  then show ?thesis
    by (simp add: S GetByClientId_table PlatformAccountCount_def Let_def members_def
        GetGroupClientList_def GetSystemClientList_def flip: account_ids_def)
qed

text \<open>
  C13. What the deletion loop of \<open>delGroupClient\<close> (and, with the same loop, \<open>delSystemClient\<close>)
  computes on every list, duplicates included: the closed form \<open>deleted\<close> of the list and the
  number of groups, and it panics exactly when that says so: the list ends in the deleted id
  and the cuts have left it no longer than a position the loop still has to cut at.
\<close>

theorem delGroupClient_deleted:
  assumes "mgr_inv m"
  shows "\<exists>m'. delGroupClient k cid m =
      (case deleted (map_len (Groups m)) cid (members m (Group k)) of
         Done _ \<Rightarrow> Done m' | Panicked _ \<Rightarrow> Panicked m') \<and>
    members m' = (members m)(Group k := res_state (deleted (map_len (Groups m)) cid (members m (Group k))))"
proof -
  have "map_res abs_mgr (delGroupClient k cid m) = spec_delete (Group k) cid (abs_mgr m)"
    using mgr_invD [OF assms] by (intro abs_delGroupClient) (simp add: heap_ok_def)
  then have "map_res members (delGroupClient k cid m) = map_res rosters (spec_delete (Group k) cid (abs_mgr m))"
    by (metis (no_types, lifting) abs_mgr_sel(3) comp_apply res.map_comp res.map_cong)
  then show ?thesis
    by (cases "delGroupClient k cid m") (auto simp: spec_delete_def map_len_def split: res.splits)
qed

lemma deleted_examples:
  "deleted 3 ''a'' [''a'', ''a''] = Panicked [''a'']"
  "deleted 3 ''a'' [''a'', ''b''] = Done [''b'']"
  "deleted 2 ''b'' [''a'', ''b'', ''b''] = Done [''a'', ''b'']"
  by code_simp+

lemma delGroupClient_deleted_witness:
  "\<exists>m'. delGroupClient ''s:im'' ''a'' m_pair = Done m' \<and> members m' (Group ''s:im'') = []"
  using delGroupClient_deleted [OF m_pair_inv, of "''s:im''" "''a''"] m_pair_groups m_pair_members
  by (auto simp: deleted_def cut_panics_def last_pos_def)

end
