(* ===== verification/Rpc.thy ===== *)
theory Rpc
  imports Setting Util
begin

text \<open>
  servers/rpcclient.go: the calls a server makes to the others, over the generated gRPC client. A
  call is recorded as what is sent and to which address; \<open>dial\<close> is whether \<open>grpc.Dial\<close> gives a
  connection (without one the code goes on with nil and panics) and \<open>answer\<close> is what a
  \<open>GetGroupClients\<close> call to an address returns, \<open>None\<close> where it fails. The other calls return
  nothing that the code looks at.
\<close>

datatype rpc_request =
    Send2ClientReq (req_messageId: string) (req_sendUserId: string) (req_clientId: string)
      (req_code: "32 word") (req_message: string) (req_data: string)
  | CloseClientReq (req_systemId: string) (req_clientId: string)
  | BindGroupReq (req_systemId: string) (req_groupName: string) (req_clientId: string)
      (req_userId: string) (req_extend: string)
  | Send2GroupReq (req_systemId: string) (req_messageId: string) (req_sendUserId: string)
      (req_groupName: string) (req_code: "32 word") (req_message: string) (req_data: string)
  | Send2SystemReq (req_systemId: string) (req_messageId: string) (req_sendUserId: string)
      (req_code: "32 word") (req_message: string) (req_data: string)
  | GetGroupClientsReq (req_systemId: string) (req_groupName: string)

type_synonym outbox = "(string \<times> rpc_request) list"

section \<open>One call\<close>

definition grpcConn :: "(string \<Rightarrow> bool) \<Rightarrow> string \<Rightarrow> string option" where
  "grpcConn dial addr = (if dial addr then Some addr else None)"

definition rpc_call :: "(string \<Rightarrow> bool) \<Rightarrow> string \<Rightarrow> rpc_request option \<Rightarrow> outbox \<Rightarrow> outbox outcome" where
  "rpc_call dial addr req out =
     (case grpcConn dial addr of
        None \<Rightarrow> Panics out
      | Some conn \<Rightarrow>
          (case req of None \<Rightarrow> Panics out | Some r \<Rightarrow> Returns (out @ [(conn, r)])))"

text \<open>The requests dereference \<open>data\<close> while they are built: with a nil pointer that panics.\<close>

definition SendRpc2Client ::
  "(string \<Rightarrow> bool) \<Rightarrow> string \<Rightarrow> string \<Rightarrow> string \<Rightarrow> string \<Rightarrow> int \<Rightarrow> string \<Rightarrow> string option \<Rightarrow> outbox \<Rightarrow> outbox outcome" where
  "SendRpc2Client dial addr messageId sendUserId clientId code message data out =
     rpc_call dial addr
       (map_option (Send2ClientReq messageId sendUserId clientId (word_of_int code) message) data) out"

definition CloseRpcClient ::
  "(string \<Rightarrow> bool) \<Rightarrow> string \<Rightarrow> string \<Rightarrow> string \<Rightarrow> outbox \<Rightarrow> outbox outcome" where
  "CloseRpcClient dial addr clientId systemId out =
     rpc_call dial addr (Some (CloseClientReq systemId clientId)) out"

definition SendRpcBindGroup ::
  "(string \<Rightarrow> bool) \<Rightarrow> string \<Rightarrow> string \<Rightarrow> string \<Rightarrow> string \<Rightarrow> string \<Rightarrow> string \<Rightarrow> outbox \<Rightarrow> outbox outcome" where
  "SendRpcBindGroup dial addr systemId groupName clientId userId ext out =
     rpc_call dial addr (Some (BindGroupReq systemId groupName clientId userId ext)) out"

section \<open>Broadcasts\<close>

text \<open>
  A broadcast takes the lock of the server list, calls every server in turn, in the order
  \<open>order\<close> of the keys in which Go ranges over the map, and gives the lock back, also in a panic.
\<close>

definition servers_in :: "string list \<Rightarrow> setting \<Rightarrow> string list" where
  "servers_in order st = List.map_filter (fmlookup (ServerList (GlobalSetting st))) order"

fun call_each :: "(string \<Rightarrow> bool) \<Rightarrow> rpc_request option \<Rightarrow> string list \<Rightarrow> outbox \<Rightarrow> outbox outcome" where
  "call_each dial req [] out = Returns out"
| "call_each dial req (addr # addrs) out =
     outcome_then (rpc_call dial addr req out) (call_each dial req addrs)"

definition broadcast ::
  "(string \<Rightarrow> bool) \<Rightarrow> string list \<Rightarrow> setting \<Rightarrow> rpc_request option \<Rightarrow> outbox \<Rightarrow> outbox outcome" where
  "broadcast dial order st req out =
     (if ServerListLock (GlobalSetting st) then Blocks out
      else call_each dial req (servers_in order st) out)"

definition SendGroupBroadcast ::
  "(string \<Rightarrow> bool) \<Rightarrow> string list \<Rightarrow> setting \<Rightarrow> string \<Rightarrow> string \<Rightarrow> string \<Rightarrow> string \<Rightarrow> int \<Rightarrow> string \<Rightarrow> string option \<Rightarrow>
   outbox \<Rightarrow> outbox outcome" where
  "SendGroupBroadcast dial order st systemId messageId sendUserId groupName code message data out =
     broadcast dial order st
       (map_option (Send2GroupReq systemId messageId sendUserId groupName (word_of_int code) message) data) out"

definition SendSystemBroadcast ::
  "(string \<Rightarrow> bool) \<Rightarrow> string list \<Rightarrow> setting \<Rightarrow> string \<Rightarrow> string \<Rightarrow> string \<Rightarrow> int \<Rightarrow> string \<Rightarrow> string option \<Rightarrow>
   outbox \<Rightarrow> outbox outcome" where
  "SendSystemBroadcast dial order st systemId messageId sendUserId code message data out =
     broadcast dial order st
       (map_option (Send2SystemReq systemId messageId sendUserId (word_of_int code) message) data) out"

section \<open>The online list\<close>

text \<open>
  One goroutine per server sends the server's list on a channel, or only logs where the call
  fails; the wait group makes sure that all are done. Then as many lists are received as there
  are servers: on a channel that is empty and still open that waits for ever, with the lock held.
\<close>

fun recv_lists :: "nat \<Rightarrow> string list list \<Rightarrow> string list \<Rightarrow> string list option" where
  "recv_lists 0 onlineListChan clientIdList = Some clientIdList"
| "recv_lists (Suc i) [] clientIdList = None"
| "recv_lists (Suc i) (l # onlineListChan) clientIdList = recv_lists i onlineListChan (clientIdList @ l)"

text \<open>
  \<open>arrival\<close> is the order in which the goroutines finish. The result: the list, if the code
  returns, and the setting it leaves behind, whose lock stays held if it does not. \<open>None\<close> is a
  panic of one of the goroutines, which ends the process.
\<close>

definition hold_lock :: "setting \<Rightarrow> setting" where
  "hold_lock st = st\<lparr>GlobalSetting := (GlobalSetting st)\<lparr>ServerListLock := True\<rparr>\<rparr>"

definition GetOnlineListBroadcast ::
  "(string \<Rightarrow> bool) \<Rightarrow> (string \<Rightarrow> rpc_request \<Rightarrow> string list option) \<Rightarrow> string list \<Rightarrow> setting \<Rightarrow>
   string option \<Rightarrow> string option \<Rightarrow> (string list option \<times> setting) option" where
  "GetOnlineListBroadcast dial answer arrival st systemId groupName =
     (if ServerListLock (GlobalSetting st) then Some (None, st)
      else
        (let addrs = servers_in arrival st; serverCount = map_len (ServerList (GlobalSetting st))
         in case (systemId, groupName) of
              (Some sys, Some grp) \<Rightarrow>
                (if \<not> list_all dial addrs then None
                 else
                   (case recv_lists serverCount
                          (List.map_filter (\<lambda>addr. answer addr (GetGroupClientsReq sys grp)) addrs) [] of
                      Some clientIdList \<Rightarrow> Some (Some clientIdList, st)
                    | None \<Rightarrow> Some (None, hold_lock st)))
            | _ \<Rightarrow> (if addrs = [] then Some (Some [], st) else None)))"

section \<open>Facts\<close>

lemma call_each_cases:
  "call_each dial req addrs out =
     (case req of
        None \<Rightarrow> (if addrs = [] then Returns out else Panics out)
      | Some r \<Rightarrow>
          (if list_all dial addrs then Returns (out @ map (\<lambda>a. (a, r)) addrs)
           else Panics (out @ map (\<lambda>a. (a, r)) (takeWhile dial addrs))))"
proof (induction addrs arbitrary: out)
  case Nil
  then show ?case by (simp split: option.split)
next
  case (Cons a addrs)
  then show ?case by (cases req) (auto simp: rpc_call_def grpcConn_def)
qed

lemma recv_lists_iff:
  "recv_lists n ch acc = (if n \<le> length ch then Some (acc @ concat (take n ch)) else None)"
  by (induction n ch acc rule: recv_lists.induct) simp_all

lemma ranges_servers:
  assumes "ranges order (ServerList (GlobalSetting st))"
  shows "servers_in order st = map (the \<circ> fmlookup (ServerList (GlobalSetting st))) order"
    and "length (servers_in order st) = map_len (ServerList (GlobalSetting st))"
proof -
  show eq: "servers_in order st = map (the \<circ> fmlookup (ServerList (GlobalSetting st))) order"
    using assms unfolding servers_in_def
    by (intro map_filter_total) (auto simp: ranges_def fmlookup_dom_iff)
  have "length order = card (fset (fmdom (ServerList (GlobalSetting st))))"
    using assms distinct_card unfolding ranges_def by metis
  then show "length (servers_in order st) = map_len (ServerList (GlobalSetting st))"
    by (simp add: eq map_len_def fcard.rep_eq)
qed

lemma online_list_result:
  assumes "\<not> ServerListLock (GlobalSetting st)" and "list_all dial (servers_in arrival st)"
  shows "GetOnlineListBroadcast dial answer arrival st (Some sys) (Some grp) =
    (case recv_lists (map_len (ServerList (GlobalSetting st)))
        (List.map_filter (\<lambda>a. answer a (GetGroupClientsReq sys grp)) (servers_in arrival st)) [] of
       Some l \<Rightarrow> Some (Some l, st) | None \<Rightarrow> Some (None, hold_lock st))"
  using assms by (simp add: GetOnlineListBroadcast_def Let_def)

lemma online_list_answered:
  assumes "\<not> ServerListLock (GlobalSetting st)" and "ranges arrival (ServerList (GlobalSetting st))"
    and "list_all dial (servers_in arrival st)"
    and "\<forall>a \<in> set (servers_in arrival st). answer a (GetGroupClientsReq sys grp) \<noteq> None"
  shows "GetOnlineListBroadcast dial answer arrival st (Some sys) (Some grp) =
    Some (Some (concat (map (\<lambda>a. the (answer a (GetGroupClientsReq sys grp))) (servers_in arrival st))), st)"
  using map_filter_total [OF assms(4)] ranges_servers(2) [OF assms(2)]
  by (simp add: online_list_result [OF assms(1,3)] recv_lists_iff o_def)

lemma online_list_unanswered:
  assumes "\<not> ServerListLock (GlobalSetting st)" and "ranges arrival (ServerList (GlobalSetting st))"
    and "list_all dial (servers_in arrival st)"
    and "a \<in> set (servers_in arrival st)" and "answer a (GetGroupClientsReq sys grp) = None"
  shows "GetOnlineListBroadcast dial answer arrival st (Some sys) (Some grp) = Some (None, hold_lock st)"
proof -
  let ?as = "servers_in arrival st" and ?ans = "\<lambda>a. answer a (GetGroupClientsReq sys grp)"
  have "length (List.map_filter ?ans ?as) < map_len (ServerList (GlobalSetting st))"
    using length_map_filter_iff [of ?ans ?as] length_map_filter_le [of ?ans ?as] assms(4,5)
      ranges_servers(2) [OF assms(2)] by fastforce
  then show ?thesis by (simp add: online_list_result [OF assms(1,3)] recv_lists_iff)
qed

section \<open>Properties\<close>

text \<open>
  A broadcast on a free server list with data calls the servers in the order of the range,
  each once and with the same request, as far as dialling succeeds; the first failed dial
  panics, with the servers before it called. The code in the request is the caller's exactly
  when that fits 32 signed bits.
\<close>

theorem SendGroupBroadcast_calls:
  assumes "\<not> ServerListLock (GlobalSetting st)" and "ranges order (ServerList (GlobalSetting st))"
  shows "\<exists>req. req_groupName req = groupName \<and> req_systemId req = systemId \<and> req_data req = data \<and>
    (sint (req_code req) = code \<longleftrightarrow> - (2 ^ 31) \<le> code \<and> code < 2 ^ 31) \<and>
    length (servers_in order st) = map_len (ServerList (GlobalSetting st)) \<and>
    SendGroupBroadcast dial order st systemId mid sender groupName code msg (Some data) out =
      (if list_all dial (servers_in order st)
       then Returns (out @ map (\<lambda>a. (a, req)) (servers_in order st))
       else Panics (out @ map (\<lambda>a. (a, req)) (takeWhile dial (servers_in order st))))"
proof -
  let ?req = "Send2GroupReq systemId mid sender groupName (word_of_int code) msg data"
  have "sint (word_of_int code :: 32 word) = code \<longleftrightarrow> - (2 ^ 31) \<le> code \<and> code < 2 ^ 31"
    using signed_take_bit_int_eq_self_iff [of 31 code] by (simp add: sint_sbintrunc')
  then show ?thesis
    using assms ranges_servers(2) [OF assms(2)]
    by (intro exI [of _ ?req]) (simp add: SendGroupBroadcast_def broadcast_def call_each_cases)
qed

definition two_servers :: setting where
  "two_servers = \<lparr>CommonSetting = \<lparr>HttpPort = ''7800'', RPCPort = ''7900'', Cluster = True, CryptoKey = ''Adba723b7fe06819''\<rparr>,
     EtcdSetting = \<lparr>Endpoints = []\<rparr>,
     GlobalSetting = \<lparr>LocalHost = ''10.0.0.1'',
       ServerList = fmupd ''/wsServers/a'' ''10.0.0.1:7900'' (fmupd ''/wsServers/b'' ''10.0.0.2:7900'' fmempty),
       ServerListLock = False\<rparr>\<rparr>"

lemma two_servers_facts:
  "ranges [''/wsServers/b'', ''/wsServers/a''] (ServerList (GlobalSetting two_servers))"
  "ServerListLock (GlobalSetting two_servers) = False"
  "servers_in [''/wsServers/b'', ''/wsServers/a''] two_servers = [''10.0.0.2:7900'', ''10.0.0.1:7900'']"
  by (auto simp: two_servers_def ranges_def servers_in_def)

theorem SendGroupBroadcast_calls_witness:
  "\<exists>req. sint (req_code req) \<noteq> 2 ^ 31 \<and>
     SendGroupBroadcast (\<lambda>_. True) [''/wsServers/b'', ''/wsServers/a''] two_servers ''im'' ''m'' [] ''g'' (2 ^ 31) [] (Some ''x'') [] =
       Returns [(''10.0.0.2:7900'', req), (''10.0.0.1:7900'', req)]"
  using SendGroupBroadcast_calls [OF _ two_servers_facts(1), where dial = "\<lambda>_. True" and code = "2 ^ 31"
      and systemId = "''im''" and mid = "''m''" and sender = "[]" and groupName = "''g''" and msg = "[]"
      and data = "''x''" and out = "[]"]
  by (auto simp: two_servers_facts)

text \<open>
  C24. The online list of a cluster, when every server can be dialled: it is the concatenation of
  the servers' lists if all of them answer; if one does not, the call never returns, and from
  then on every broadcast and every further call for an online list waits for its lock.
\<close>

theorem GetOnlineListBroadcast_hangs:
  assumes "\<not> ServerListLock (GlobalSetting st)" and "ranges arrival (ServerList (GlobalSetting st))"
    and "list_all dial (servers_in arrival st)"
  shows "if \<forall>a \<in> set (servers_in arrival st). answer a (GetGroupClientsReq sys grp) \<noteq> None
    then GetOnlineListBroadcast dial answer arrival st (Some sys) (Some grp) =
      Some (Some (concat (map (\<lambda>a. the (answer a (GetGroupClientsReq sys grp))) (servers_in arrival st))), st)
    else \<exists>st'. GetOnlineListBroadcast dial answer arrival st (Some sys) (Some grp) = Some (None, st') \<and>
      (\<forall>dial' order req out. broadcast dial' order st' req out = Blocks out) \<and>
      (\<forall>dial' answer' order s g. GetOnlineListBroadcast dial' answer' order st' s g = Some (None, st'))"
proof (cases "\<forall>a \<in> set (servers_in arrival st). answer a (GetGroupClientsReq sys grp) \<noteq> None")
  case True
  then show ?thesis using online_list_answered [OF assms] by simp
next
  case False
  then have "GetOnlineListBroadcast dial answer arrival st (Some sys) (Some grp) = Some (None, hold_lock st)"
    using online_list_unanswered [OF assms] by auto
  then show ?thesis
    using False by (simp add: broadcast_def GetOnlineListBroadcast_def hold_lock_def)
qed

theorem GetOnlineListBroadcast_hangs_witness:
  "\<exists>st'. GetOnlineListBroadcast (\<lambda>_. True) (\<lambda>a _. if a = ''10.0.0.1:7900'' then Some [''u1''] else None)
       [''/wsServers/b'', ''/wsServers/a''] two_servers (Some ''im'') (Some ''g'') = Some (None, st') \<and>
     broadcast (\<lambda>_. True) [''/wsServers/a''] st' None [] = Blocks []"
  using GetOnlineListBroadcast_hangs [OF _ two_servers_facts(1), where dial = "\<lambda>_. True" and sys = "''im''"
      and grp = "''g''" and answer = "\<lambda>a _. if a = ''10.0.0.1:7900'' then Some [''u1''] else None"]
  by (auto simp: two_servers_facts)

end
