(* ===== verification/Server.thy ===== *)
theory Server
  imports ClientManager Rpc
begin

text \<open>
  servers/server.go, servers/client.go, servers/connect.go and the event handling of
  servers/clientmanager.go: the one server process, its channels and goroutines.

  The record holds the package variables \<open>Manager\<close> and \<open>ToClientChan\<close>, the configuration, the
  frames written to each websocket connection and whether it was closed, and where each
  goroutine of the program stands. The websocket library and the network are the environment: a
  write succeeds if the connection is not closed and the network lets it through (\<open>up\<close>), and what
  \<open>ReadMessage\<close> returns is an input. Logging is left out.
\<close>

section \<open>State\<close>

record clientInfo =
  ci_ClientId :: string
  ci_SendUserId :: string
  ci_MessageId :: string
  ci_Code :: string
  ci_Msg :: string
  ci_Data :: "string option"

definition GetData :: "clientInfo \<Rightarrow> string" where
  "GetData o' = (case ci_Data o' of None \<Rightarrow> [] | Some d \<Rightarrow> d)"

text \<open>
  \<open>Senders\<close>: goroutines \<open>go SendMessage2LocalClient\<close> that have not sent yet; \<open>Broadcasts\<close>: goroutines
  \<open>go SendGroupBroadcast\<close> with their message id; \<open>Readers\<close>: clients whose read loop runs;
  \<open>Handlers\<close>: connect handlers past the start of the read loop, and whether the greeting is out;
  \<open>Writing\<close>: what \<open>WriteMessage\<close> is delivering, and to whom it still has to write; \<open>Outgoing\<close>: the
  calls made to other servers.
\<close>

record server =
  Manager :: manager
  ToClientChan :: "clientInfo list"
  Config :: setting
  frames :: "conn \<Rightarrow> json list"
  closed :: "conn \<Rightarrow> bool"
  Senders :: "clientInfo list"
  Broadcasts :: "(string \<times> group_call) list"
  Readers :: "cref list"
  Handlers :: "(cref \<times> bool) list"
  Writing :: "(clientInfo \<times> cref list) option"
  Outgoing :: outbox

definition client_of :: "server \<Rightarrow> cref \<Rightarrow> client" where
  "client_of s c = clients (Manager s) c"

section \<open>Channels\<close>

text \<open>
  The capacities: the declaration gives \<open>ToClientChan\<close> 10000, and \<open>init\<close> replaces it by a channel
  of 1000 before \<open>main\<close> runs.
\<close>

definition cap_ToClientChan :: nat where "cap_ToClientChan = 1000"
definition cap_Connect :: nat where "cap_Connect = 10000"
definition cap_DisConnect :: nat where "cap_DisConnect = 10000"

definition chan_send :: "nat \<Rightarrow> 'a \<Rightarrow> 'a list \<Rightarrow> 'a list option" where
  "chan_send cap v q = (if length q < cap then Some (q @ [v]) else None)"

definition send_client :: "clientInfo \<Rightarrow> server \<Rightarrow> server outcome" where
  "send_client info s =
     (case chan_send cap_ToClientChan info (ToClientChan s) of
        None \<Rightarrow> Blocks s
      | Some q \<Rightarrow> Returns (s\<lparr>ToClientChan := q\<rparr>))"

definition send_Connect :: "cref \<Rightarrow> server \<Rightarrow> server outcome" where
  "send_Connect c s =
     (case chan_send cap_Connect c (Connect (Manager s)) of
        None \<Rightarrow> Blocks s
      | Some q \<Rightarrow> Returns (s\<lparr>Manager := (Manager s)\<lparr>Connect := q\<rparr>\<rparr>))"

definition send_DisConnect :: "cref \<Rightarrow> server \<Rightarrow> server outcome" where
  "send_DisConnect c s =
     (case chan_send cap_DisConnect c (DisConnect (Manager s)) of
        None \<Rightarrow> Blocks s
      | Some q \<Rightarrow> Returns (s\<lparr>Manager := (Manager s)\<lparr>DisConnect := q\<rparr>\<rparr>))"

definition recv_client :: "server \<Rightarrow> (clientInfo \<times> server) option" where
  "recv_client s =
     (case ToClientChan s of [] \<Rightarrow> None | info # q \<Rightarrow> Some (info, s\<lparr>ToClientChan := q\<rparr>))"

definition recv_Connect :: "server \<Rightarrow> (cref \<times> server) option" where
  "recv_Connect s =
     (case Connect (Manager s) of
        [] \<Rightarrow> None
      | c # q \<Rightarrow> Some (c, s\<lparr>Manager := (Manager s)\<lparr>Connect := q\<rparr>\<rparr>))"

definition recv_DisConnect :: "server \<Rightarrow> (cref \<times> server) option" where
  "recv_DisConnect s =
     (case DisConnect (Manager s) of
        [] \<Rightarrow> None
      | c # q \<Rightarrow> Some (c, s\<lparr>Manager := (Manager s)\<lparr>DisConnect := q\<rparr>\<rparr>))"

text \<open>What the three have in common: a bounded buffer between goroutines.\<close>

locale channel =
  fixes cap :: nat
    and items :: "'s \<Rightarrow> 'a list"
    and send :: "'a \<Rightarrow> 's \<Rightarrow> 's outcome"
    and recv :: "'s \<Rightarrow> ('a \<times> 's) option"
  assumes send_room: "length (items s) < cap \<Longrightarrow> \<exists>s'. send v s = Returns s' \<and> items s' = items s @ [v]"
    and send_full: "cap \<le> length (items s) \<Longrightarrow> send v s = Blocks s"
    and recv_item: "items s = v # q \<Longrightarrow> \<exists>s'. recv s = Some (v, s') \<and> items s' = q"
    and recv_empty: "items s = [] \<Longrightarrow> recv s = None"
begin

lemma send_Returns: "send v s = Returns s' \<Longrightarrow> items s' = items s @ [v] \<and> length (items s') \<le> cap"
  using send_room [of s v] send_full [of s v] by (cases "length (items s) < cap") auto

lemma send_cases: "send v s = Blocks s \<or> (\<exists>s'. send v s = Returns s')"
  using send_room [of s v] send_full [of s v] by (cases "length (items s) < cap") auto

lemma recv_Some: "recv s = Some (v, s') \<Longrightarrow> items s = v # items s'"
  using recv_item [of s] recv_empty [of s] by (cases "items s") auto

lemma recv_bounded: "recv s = Some (v, s') \<Longrightarrow> length (items s) \<le> cap \<Longrightarrow> length (items s') \<le> cap"
  using recv_Some [of s v s'] by simp

text \<open>First in, first out: after what was there before, the value sent is the next to come out.\<close>

lemma fifo:
  assumes "send v s = Returns s'"
  shows "\<exists>w s2. recv s' = Some (w, s2) \<and>
    (if items s = [] then w = v \<and> items s2 = [] else w = hd (items s) \<and> items s2 = tl (items s) @ [v])"
proof -
  have "items s' = items s @ [v]" using send_Returns [OF assms] by blast
  then show ?thesis
    using recv_item [of s' "hd (items s')" "tl (items s')"] by (cases "items s") auto
qed

end

interpretation ToClient: channel cap_ToClientChan ToClientChan send_client recv_client
  by unfold_locales (auto simp: send_client_def recv_client_def chan_send_def)

interpretation Conn: channel cap_Connect "\<lambda>s. Connect (Manager s)" send_Connect recv_Connect
  by unfold_locales (auto simp: send_Connect_def recv_Connect_def chan_send_def)

interpretation DisConn: channel cap_DisConnect "\<lambda>s. DisConnect (Manager s)" send_DisConnect recv_DisConnect
  by unfold_locales (auto simp: send_DisConnect_def recv_DisConnect_def chan_send_def)

section \<open>Writing to a connection\<close>

definition write_json :: "(conn \<Rightarrow> bool) \<Rightarrow> conn \<Rightarrow> json \<Rightarrow> server \<Rightarrow> bool \<times> server" where
  "write_json up k j s =
     (if closed s k \<or> \<not> up k then (False, s)
      else (True, s\<lparr>frames := (frames s)(k := frames s k @ [j])\<rparr>))"

text \<open>The struct \<open>RetData\<close> as it is marshalled: the fields tagged \<open>-\<close> are left out.\<close>

definition RetData :: "string \<Rightarrow> string \<Rightarrow> json \<Rightarrow> json" where
  "RetData messageId code data =
     JObj [(''messageId'', JStr messageId), (''Type'', JStr code), (''Data'', data)]"

definition data_json :: "string option \<Rightarrow> json" where
  "data_json d = (case d of None \<Rightarrow> JNull | Some x \<Rightarrow> JStr x)"

definition Render ::
  "(conn \<Rightarrow> bool) \<Rightarrow> conn \<Rightarrow> string \<Rightarrow> string \<Rightarrow> string \<Rightarrow> string \<Rightarrow> json \<Rightarrow> server \<Rightarrow> bool \<times> server" where
  "Render up k messageId sendUserId code message data s = write_json up k (RetData messageId code data) s"

definition ConnRender :: "(conn \<Rightarrow> bool) \<Rightarrow> conn \<Rightarrow> server \<Rightarrow> bool \<times> server" where
  "ConnRender up k s = write_json up k (JObj [(''Type'', JStr ''Link''), (''Data'', JStr msg_connected)]) s"

section \<open>Sending to a client\<close>

definition SendMessage2LocalClient ::
  "string \<Rightarrow> string \<Rightarrow> string \<Rightarrow> string \<Rightarrow> string \<Rightarrow> string option \<Rightarrow> server \<Rightarrow> server outcome" where
  "SendMessage2LocalClient messageId clientId sendUserId code msg data s =
     send_client \<lparr>ci_ClientId = clientId, ci_SendUserId = sendUserId, ci_MessageId = messageId,
       ci_Code = code, ci_Msg = msg, ci_Data = data\<rparr> s"

text \<open>
  \<open>r\<close> is the random source of the message id. In a cluster a client on another machine gets
  nothing: the remote call is commented out.
\<close>

definition SendMessage2Client ::
  "(nat \<Rightarrow> byte) \<Rightarrow> string \<Rightarrow> string \<Rightarrow> string \<Rightarrow> string \<Rightarrow> string option \<Rightarrow> server \<Rightarrow> string \<times> server outcome" where
  "SendMessage2Client r clientId sendUserId code msg data s =
     (let messageId = GenUUID r
      in if IsCluster (Config s) then
           (case GetAddrInfoAndIsLocal (Config s) clientId of
              Panic \<Rightarrow> (messageId, Panics s)
            | Err e \<Rightarrow> (messageId, Returns s)
            | Ok (addr, _, _, isLocal) \<Rightarrow>
                (if isLocal then
                   (messageId, SendMessage2LocalClient messageId clientId sendUserId code msg data s)
                 else (messageId, Returns s)))
         else
           (messageId, Returns (s\<lparr>Senders := Senders s @
              [\<lparr>ci_ClientId = clientId, ci_SendUserId = sendUserId, ci_MessageId = messageId,
                ci_Code = code, ci_Msg = msg, ci_Data = data\<rparr>]\<rparr>)))"

definition SendMessage2Group ::
  "(nat \<Rightarrow> byte) \<Rightarrow> group_call \<Rightarrow> server \<Rightarrow> string \<times> server" where
  "SendMessage2Group r call s =
     (let messageId = GenUUID r
      in (messageId,
          if IsCluster (Config s) then s\<lparr>Broadcasts := Broadcasts s @ [(messageId, call)]\<rparr> else s))"

section \<open>Closing a client\<close>

definition CloseLocalClient :: "string \<Rightarrow> string \<Rightarrow> string \<Rightarrow> server \<Rightarrow> server outcome" where
  "CloseLocalClient clientId systemId addr s =
     (case GetByClientId clientId (Manager s) of
        Inl _ \<Rightarrow> Returns s
      | Inr addrToClientMap \<Rightarrow>
          (case fmlookup addrToClientMap addr of
             None \<Rightarrow> Returns s
           | Some c \<Rightarrow>
               (if SystemId (client_of s c) \<noteq> systemId then Returns s else send_DisConnect c s)))"

section \<open>The loop of WriteMessage\<close>

text \<open>
  One round: take the next message, look its client id up, and write to each of its connections
  in turn, in the order \<open>order\<close> in which Go ranges over the copied map. Each write is one step here,
  as are those of the greeting and of the keep-live answer; theory \<open>WriteRace\<close> says when that is
  exact and what happens where two of them overlap.
\<close>

definition write_one :: "(conn \<Rightarrow> bool) \<Rightarrow> clientInfo \<Rightarrow> cref \<Rightarrow> server \<Rightarrow> server outcome" where
  "write_one up info c s =
     (case Socket (client_of s c) of
        None \<Rightarrow> Panics s
      | Some k \<Rightarrow>
          (let (ok, s1) = Render up k (ci_MessageId info) (ci_SendUserId info) (ci_Code info)
                 (ci_Msg info) (data_json (ci_Data info)) s
           in if ok then Returns s1 else send_DisConnect c s1))"

fun write_all :: "(conn \<Rightarrow> bool) \<Rightarrow> clientInfo \<Rightarrow> cref list \<Rightarrow> server \<Rightarrow> server outcome" where
  "write_all up info [] s = Returns s"
| "write_all up info (c # cs) s = outcome_then (write_one up info c s) (write_all up info cs)"

definition targets :: "string list \<Rightarrow> string \<Rightarrow> server \<Rightarrow> cref list" where
  "targets order clientId s =
     (case GetByClientId clientId (Manager s) of
        Inl _ \<Rightarrow> []
      | Inr addrToConn \<Rightarrow> List.map_filter (fmlookup addrToConn) order)"

definition WriteMessage :: "(conn \<Rightarrow> bool) \<Rightarrow> string list \<Rightarrow> server \<Rightarrow> server outcome" where
  "WriteMessage up order s =
     (case recv_client s of
        None \<Rightarrow> Blocks s
      | Some (info, s1) \<Rightarrow> write_all up info (targets order (ci_ClientId info) s1) s1)"

section \<open>The heartbeat\<close>

text \<open>
  A failed ping puts the client on the channel; nothing else comes of a ping. The loop ranges over
  the inner maps of the table itself, as \<open>AllClient\<close> hands them out, without their lock: \<open>PingTimer\<close> is
  the tick during which nobody changes them.
\<close>

definition ping_one :: "(conn \<Rightarrow> bool) \<Rightarrow> cref \<Rightarrow> server \<Rightarrow> server outcome" where
  "ping_one up c s =
     (case Socket (client_of s c) of
        None \<Rightarrow> Panics s
      | Some k \<Rightarrow> (if closed s k \<or> \<not> up k then send_DisConnect c s else Returns s))"

fun ping_map :: "(conn \<Rightarrow> bool) \<Rightarrow> mref \<Rightarrow> string list \<Rightarrow> server \<Rightarrow> server outcome" where
  "ping_map up r [] s = Returns s"
| "ping_map up r (addr # addrs) s =
     outcome_then
       (case fmlookup (amaps (Manager s) r) addr of None \<Rightarrow> Returns s | Some c \<Rightarrow> ping_one up c s)
       (ping_map up r addrs)"

fun ping_maps :: "(conn \<Rightarrow> bool) \<Rightarrow> (mref \<Rightarrow> string list) \<Rightarrow> mref list \<Rightarrow> server \<Rightarrow> server outcome" where
  "ping_maps up order [] s = Returns s"
| "ping_maps up order (r # rs) s = outcome_then (ping_map up r (order r) s) (ping_maps up order rs)"

definition PingTimer ::
  "(conn \<Rightarrow> bool) \<Rightarrow> string list \<Rightarrow> (mref \<Rightarrow> string list) \<Rightarrow> server \<Rightarrow> server outcome" where
  "PingTimer up keys order s =
     (let (all, m) = AllClient keys (Manager s)
      in ping_maps up order (List.map_filter (fmlookup all) keys) (s\<lparr>Manager := m\<rparr>))"

section \<open>Events of the manager\<close>

definition EventConnect :: "cref \<Rightarrow> server \<Rightarrow> server" where
  "EventConnect c s = s\<lparr>Manager := AddClient (Some c) (Manager s)\<rparr>"

text \<open>The notification of a client going offline, to one of its groups.\<close>

definition offline_call :: "client \<Rightarrow> string \<Rightarrow> group_call" where
  "offline_call cl groupName =
     \<lparr>call_system = SystemId cl, call_sender = [], call_group = groupName,
      call_code = OFFLINE_MESSAGE_CODE, call_msg = msg_offline,
      call_data = Some (json_text (JObj [(''addr'', JStr (Addr cl)), (''clientId'', JStr (ClientId cl)),
        (''extend'', JStr (Extend cl)), (''userId'', JStr (UserId cl))]))\<rparr>"

text \<open>Each call of the loop gets a random source of its own.\<close>

fun notify_groups :: "(nat \<Rightarrow> nat \<Rightarrow> byte) \<Rightarrow> client \<Rightarrow> string list \<Rightarrow> server \<Rightarrow> server" where
  "notify_groups rs cl [] s = s"
| "notify_groups rs cl (g # gs) s =
     notify_groups (\<lambda>n. rs (Suc n)) cl gs (snd (SendMessage2Group (rs 0) (offline_call cl g) s))"

definition EventDisconnect :: "(nat \<Rightarrow> nat \<Rightarrow> byte) \<Rightarrow> cref \<Rightarrow> server \<Rightarrow> server outcome" where
  "EventDisconnect rs c s =
     (case Socket (client_of s c) of
        None \<Rightarrow> Panics s
      | Some k \<Rightarrow>
          (let s1 = s\<lparr>closed := (closed s)(k := True)\<rparr>;
               s2 = s1\<lparr>Manager := DelClient (Some c) (Manager s1)\<rparr>;
               cl = client_of s2 c;
               s3 = notify_groups rs cl (GroupList cl) s2
           in Returns (s3\<lparr>Manager := set_client c ((client_of s3 c)\<lparr>IsDeleted := True\<rparr>) (Manager s3)\<rparr>)))"

text \<open>One round of \<open>Start\<close>: it takes from one of the two channels; \<open>pick\<close> is which, when both have something.\<close>

definition recv_event :: "bool \<Rightarrow> server \<Rightarrow> ((cref + cref) \<times> server) option" where
  "recv_event pick s =
     (case (recv_Connect s, recv_DisConnect s) of
        (None, None) \<Rightarrow> None
      | (Some (c, s1), None) \<Rightarrow> Some (Inl c, s1)
      | (None, Some (c, s1)) \<Rightarrow> Some (Inr c, s1)
      | (Some (c, s1), Some (d, s2)) \<Rightarrow> Some (if pick then (Inl c, s1) else (Inr d, s2)))"

definition Start :: "bool \<Rightarrow> (nat \<Rightarrow> nat \<Rightarrow> byte) \<Rightarrow> server \<Rightarrow> server outcome" where
  "Start pick rs s =
     (case recv_event pick s of
        None \<Rightarrow> Blocks s
      | Some (Inl c, s1) \<Rightarrow> Returns (EventConnect c s1)
      | Some (Inr c, s1) \<Rightarrow> EventDisconnect rs c s1)"

section \<open>Local groups and systems\<close>

text \<open>
  The loop ranges over the slice header it was given, reading the shared backing array as it
  goes, while the deletion of a vanished client rewrites that array and the header in the map.
  A panic of the deletion is not recovered here.
\<close>

definition del_from_group :: "string \<Rightarrow> string \<Rightarrow> server \<Rightarrow> server outcome" where
  "del_from_group groupKey clientId s =
     (case delGroupClient groupKey clientId (Manager s) of
        Done m \<Rightarrow> Returns (s\<lparr>Manager := m\<rparr>)
      | Panicked m \<Rightarrow> Panics (s\<lparr>Manager := m\<rparr>))"

fun local_group_loop ::
  "(string \<Rightarrow> server \<Rightarrow> server outcome) \<Rightarrow> string \<Rightarrow> slice \<Rightarrow> nat list \<Rightarrow> server \<Rightarrow> server outcome" where
  "local_group_loop send groupKey clientIds [] s = Returns s"
| "local_group_loop send groupKey clientIds (i # is) s =
     (let clientId = cells (arrays (Manager s)) (sbase clientIds) ! i
      in outcome_then
           (case GetByClientId clientId (Manager s) of
              Inr _ \<Rightarrow> send clientId s
            | Inl _ \<Rightarrow> del_from_group groupKey clientId s)
           (local_group_loop send groupKey clientIds is))"

definition SendMessage2LocalGroup ::
  "string \<Rightarrow> string \<Rightarrow> string \<Rightarrow> string \<Rightarrow> string \<Rightarrow> string \<Rightarrow> string option \<Rightarrow> server \<Rightarrow> server outcome" where
  "SendMessage2LocalGroup systemId messageId sendUserId groupName code msg data s =
     (if groupName \<noteq> [] then
        (let groupKey = GenGroupKey systemId groupName;
             clientIds = GetGroupClientList groupKey (Manager s)
         in local_group_loop (\<lambda>i. SendMessage2LocalClient messageId i sendUserId code msg data)
              groupKey clientIds [0..<slen clientIds] s)
      else Returns s)"

fun send_each :: "(string \<Rightarrow> server \<Rightarrow> server outcome) \<Rightarrow> string list \<Rightarrow> server \<Rightarrow> server outcome" where
  "send_each send [] s = Returns s"
| "send_each send (clientId # ids) s = outcome_then (send clientId s) (send_each send ids)"

definition SendMessage2LocalSystem ::
  "string \<Rightarrow> string \<Rightarrow> string \<Rightarrow> string \<Rightarrow> string \<Rightarrow> string option \<Rightarrow> server \<Rightarrow> server outcome" where
  "SendMessage2LocalSystem systemId messageId sendUserId code msg data s =
     (if systemId \<noteq> [] then
        send_each (\<lambda>i. SendMessage2LocalClient messageId i sendUserId code msg data)
          (elems (arrays (Manager s)) (GetSystemClientList systemId (Manager s))) s
      else Returns s)"

section \<open>The read loop of a client\<close>

text \<open>
  What \<open>ReadMessage\<close> returns: an error with the message type and, for a close frame, its code;
  or a message, with the value its bytes parse to, if they are JSON.
\<close>

datatype read_result = ReadError int "int option" | ReadMessage "json option"

definition PingMessage :: int where "PingMessage = 9"

definition IsCloseError :: "int option \<Rightarrow> int list \<Rightarrow> bool" where
  "IsCloseError code codes = (case code of None \<Rightarrow> False | Some n \<Rightarrow> n \<in> set codes)"

definition CloseNormalClosure :: int where "CloseNormalClosure = 1000"
definition CloseGoingAway :: int where "CloseGoingAway = 1001"
definition CloseNoStatusReceived :: int where "CloseNoStatusReceived = 1005"

text \<open>\<open>TypeMessage\<close>: the field \<open>Type\<close> after decoding, \<open>JNull\<close> for nil.\<close>

definition TypeMessage_Type :: "json option \<Rightarrow> json" where
  "TypeMessage_Type receive =
     (case receive of
        None \<Rightarrow> JNull
      | Some j \<Rightarrow> last (JNull # field_values [''Type'', ''Data''] ''Type'' j))"

definition keep_live_reply :: json where
  "keep_live_reply = JObj [(''Type'', JStr ''KeepLive''), (''Data'', JStr ''Succeed'')]"

definition reader_done :: "cref \<Rightarrow> server \<Rightarrow> server" where
  "reader_done c s = s\<lparr>Readers := remove1 c (Readers s)\<rparr>"

text \<open>One round of the loop; where it returns, the goroutine ends.\<close>

definition handle_message :: "(conn \<Rightarrow> bool) \<Rightarrow> conn \<Rightarrow> json option \<Rightarrow> server \<Rightarrow> server" where
  "handle_message up k receive s =
     (if TypeMessage_Type receive = JStr ''KeepLive'' then snd (write_json up k keep_live_reply s) else s)"

definition Read_round :: "(conn \<Rightarrow> bool) \<Rightarrow> cref \<Rightarrow> read_result \<Rightarrow> server \<Rightarrow> server outcome" where
  "Read_round up c result s =
     (case Socket (client_of s c) of
        None \<Rightarrow> Returns (reader_done c s)
      | Some k \<Rightarrow>
          (case result of
             ReadError messageType code \<Rightarrow>
               (if messageType = -1 \<and>
                   IsCloseError code [CloseGoingAway, CloseNormalClosure, CloseNoStatusReceived] then
                  outcome_then (send_DisConnect c s) (\<lambda>s1. Returns (reader_done c s1))
                else if messageType \<noteq> PingMessage then Returns (reader_done c s)
                else Returns (handle_message up k None s))
           | ReadMessage receive \<Rightarrow> Returns (handle_message up k receive s)))"

section \<open>The connect handler\<close>

text \<open>
  A request: the form values and the remote address; \<open>upgraded\<close> is the connection that the
  upgrade makes, \<open>None\<close> where it fails; \<open>now\<close> the time.
\<close>

record request =
  form_systemId :: string
  form_token :: string
  RemoteAddr :: string

definition system_id_of :: "request \<Rightarrow> string" where
  "system_id_of r = (if length (form_systemId r) = 0 then form_token r else form_systemId r)"

text \<open>The handler up to the start of the read loop.\<close>

definition Run_open ::
  "growth \<Rightarrow> (conn \<Rightarrow> bool) \<Rightarrow> request \<Rightarrow> conn option \<Rightarrow> 64 word \<Rightarrow> server \<Rightarrow> cref option \<times> server" where
  "Run_open grow up r upgraded now s =
     (case upgraded of
        None \<Rightarrow> (None, s)
      | Some k \<Rightarrow>
          (let systemId = system_id_of r
           in if length systemId = 0 then
                (let (_, s1) = Render up k [] [] ''retcode.SYSTEM_ID_ERROR'' msg_system_empty (JArr []) s
                 in (None, s1\<lparr>closed := (closed s1)(k := True)\<rparr>))
              else
                (let clientId = systemId;
                     (c, m1) = new_client (NewClient clientId (RemoteAddr r) systemId (Some k) now) (Manager s);
                     m2 = AddClient2SystemClient grow systemId (RemoteAddr r) c m1
                 in (Some c, s\<lparr>Manager := m2, Readers := Readers s @ [c]\<rparr>))))"

text \<open>The greeting; where it cannot be written the connection is closed and the handler ends.\<close>

definition Run_greet :: "(conn \<Rightarrow> bool) \<Rightarrow> cref \<Rightarrow> server \<Rightarrow> bool \<times> server" where
  "Run_greet up c s =
     (case Socket (client_of s c) of
        None \<Rightarrow> (False, s)
      | Some k \<Rightarrow>
          (let (ok, s1) = ConnRender up k s
           in if ok then (True, s1) else (False, s1\<lparr>closed := (closed s1)(k := True)\<rparr>)))"

definition Run ::
  "growth \<Rightarrow> (conn \<Rightarrow> bool) \<Rightarrow> request \<Rightarrow> conn option \<Rightarrow> 64 word \<Rightarrow> server \<Rightarrow> server outcome" where
  "Run grow up r upgraded now s =
     (case Run_open grow up r upgraded now s of
        (None, s1) \<Rightarrow> Returns s1
      | (Some c, s1) \<Rightarrow>
          (case Run_greet up c s1 of
             (False, s2) \<Rightarrow> Returns s2
           | (True, s2) \<Rightarrow> send_Connect c s2))"

section \<open>The rest of the server package's API\<close>

text \<open>A call to other servers, on the state: \<open>f\<close> maps what was sent before to how the call comes out.\<close>

definition with_outbox :: "(outbox \<Rightarrow> outbox outcome) \<Rightarrow> server \<Rightarrow> server outcome" where
  "with_outbox f s =
     (case f (Outgoing s) of
        Returns out \<Rightarrow> Returns (s\<lparr>Outgoing := out\<rparr>)
      | Blocks out \<Rightarrow> Blocks (s\<lparr>Outgoing := out\<rparr>)
      | Panics out \<Rightarrow> Panics (s\<lparr>Outgoing := out\<rparr>))"

definition CloseClient ::
  "(string \<Rightarrow> bool) \<Rightarrow> string \<Rightarrow> string \<Rightarrow> string \<Rightarrow> server \<Rightarrow> server outcome" where
  "CloseClient dial clientId systemId clientAddr s =
     (if IsCluster (Config s) then
        (case GetAddrInfoAndIsLocal (Config s) clientId of
           Panic \<Rightarrow> Panics s
         | Err e \<Rightarrow> Returns s
         | Ok (addr, _, _, isLocal) \<Rightarrow>
             (if isLocal then CloseLocalClient clientId systemId clientAddr s
              else with_outbox (CloseRpcClient dial addr clientId systemId) s))
      else CloseLocalClient clientId systemId clientAddr s)"

definition ClientStatistics :: "string \<Rightarrow> string \<Rightarrow> server \<Rightarrow> string list \<times> nat" where
  "ClientStatistics platform account s = PlatformAccountCount platform account (Manager s)"

text \<open>Both branches of \<open>AddClient2Group\<close> are commented out.\<close>

definition AddClient2Group :: "string \<Rightarrow> string \<Rightarrow> string \<Rightarrow> string \<Rightarrow> string \<Rightarrow> server \<Rightarrow> server" where
  "AddClient2Group systemId groupName clientId userId ext s = s"

text \<open>A goroutine started by \<open>SendMessage2Group\<close>.\<close>

definition run_broadcast ::
  "(string \<Rightarrow> bool) \<Rightarrow> string list \<Rightarrow> string \<times> group_call \<Rightarrow> server \<Rightarrow> server outcome" where
  "run_broadcast dial order b s =
     with_outbox (SendGroupBroadcast dial order (Config s) (call_system (snd b)) (fst b)
       (call_sender (snd b)) (call_group (snd b)) (call_code (snd b)) (call_msg (snd b))
       (call_data (snd b))) s"

definition SendMessage2System ::
  "(string \<Rightarrow> bool) \<Rightarrow> string list \<Rightarrow> (nat \<Rightarrow> byte) \<Rightarrow> string \<Rightarrow> string \<Rightarrow> int \<Rightarrow> string \<Rightarrow> string \<Rightarrow> server \<Rightarrow> server outcome" where
  "SendMessage2System dial order r systemId sendUserId code msg data s =
     (let messageId = GenUUID r
      in if IsCluster (Config s) then
           with_outbox (SendSystemBroadcast dial order (Config s) systemId messageId sendUserId code msg (Some data)) s
         else Returns s)"

text \<open>The result map: the count and the list, nil where nothing was appended to it.\<close>

definition online_reply :: "string list \<Rightarrow> json" where
  "online_reply clientList =
     JObj [(''count'', JInt (int (length clientList))),
       (''list'', if clientList = [] then JNull else JArr (map JStr clientList))]"

definition GetOnlineList ::
  "(string \<Rightarrow> bool) \<Rightarrow> (string \<Rightarrow> rpc_request \<Rightarrow> string list option) \<Rightarrow> string list \<Rightarrow>
   string option \<Rightarrow> string option \<Rightarrow> server \<Rightarrow> (json option \<times> server) outcome" where
  "GetOnlineList dial answer arrival systemId groupName s =
     (if IsCluster (Config s) then
        (case GetOnlineListBroadcast dial answer arrival (Config s) systemId groupName of
           None \<Rightarrow> Panics (None, s)
         | Some (None, st) \<Rightarrow> Blocks (None, s\<lparr>Config := st\<rparr>)
         | Some (Some clientList, st) \<Rightarrow> Returns (Some (online_reply clientList), s\<lparr>Config := st\<rparr>))
      else
        (case (systemId, groupName) of
           (Some sys, Some grp) \<Rightarrow>
             Returns (Some (online_reply (elems (arrays (Manager s))
               (GetGroupClientList (GenGroupKey sys grp) (Manager s)))), s)
         | _ \<Rightarrow> Panics (None, s)))"

end
