(* ===== verification/ServerInv.thy ===== *)
theory ServerInv
  imports Server ManagerFacts
begin

text \<open>
  The runs of one server: a step relation over the state of theory Server, with a step for each
  thing a goroutine of the program does between two channel operations, and the invariant that
  all states have that a run from the start of the program reaches.
\<close>

section \<open>What the server keeps of the manager\<close>

text \<open>
  Only the connect handler makes clients, with the system id as client id, and nothing joins a
  group: so the member list of a system holds copies of the system's own id.
\<close>

definition served :: "manager \<Rightarrow> bool" where
  "served m \<longleftrightarrow>
     mgr_inv m \<and> Groups m = fmempty \<and> (\<forall>c. GroupList (clients m c) = []) \<and>
     (\<forall>c < next_client m. ClientId (clients m c) \<noteq> [] \<and> SystemId (clients m c) = ClientId (clients m c) \<and>
        Socket (clients m c) \<noteq> None) \<and>
     (\<forall>c d k. c < next_client m \<longrightarrow> d < next_client m \<longrightarrow> Socket (clients m c) = Some k \<longrightarrow>
        Socket (clients m d) = Some k \<longrightarrow> c = d) \<and>
     (\<forall>k. \<exists>n. members m (System k) = replicate n k)"

lemma servedD:
  assumes "served m"
  shows "mgr_inv m" and "Groups m = fmempty" and "GroupList (clients m c) = []"
    and "c < next_client m \<Longrightarrow> ClientId (clients m c) \<noteq> []"
    and "c < next_client m \<Longrightarrow> SystemId (clients m c) = ClientId (clients m c)"
    and "c < next_client m \<Longrightarrow> Socket (clients m c) \<noteq> None"
    and "c < next_client m \<Longrightarrow> d < next_client m \<Longrightarrow> Socket (clients m c) = Some k \<Longrightarrow>
      Socket (clients m d) = Some k \<Longrightarrow> c = d"
    and "\<exists>n. members m (System sys) = replicate n sys"
  using assms unfolding served_def by blast+

lemma served_frame:
  assumes "clients m' = clients m" and "next_client m' = next_client m" and "Groups m' = Groups m"
    and "\<And>k. members m' (System k) = members m (System k)" and "mgr_inv m'" and "served m"
  shows "served m'"
  using assms unfolding served_def by (simp only: simp_thms) metis

lemma mgr_inv_frame:
  assumes "ClientIdMap m' = ClientIdMap m" and "amaps m' = amaps m" and "next_amap m' = next_amap m"
    and "clients m' = clients m" and "next_client m' = next_client m" and "arrays m' = arrays m"
    and "Groups m' = Groups m" and "SystemClients m' = SystemClients m"
    and "PlatformAccountMap m' = PlatformAccountMap m"
  shows "mgr_inv m' = mgr_inv m" and "members m' = members m" and "table m' = table m"
proof -
  show tab: "table m' = table m" using assms by (simp add: table_def [abs_def])
  have "lists_inv m' = lists_inv m \<and> members m' = members m" using assms by (intro lists_inv_frame)
  then show "mgr_inv m' = mgr_inv m" and "members m' = members m"
    using assms tab by (simp_all add: mgr_inv_def refs_inv_def table_inv_def account_inv_def account_ids_def)
qed

lemma chan_frame [simp]:
  "mgr_inv (m\<lparr>Connect := q\<rparr>) = mgr_inv m" "mgr_inv (m\<lparr>DisConnect := q\<rparr>) = mgr_inv m"
  "members (m\<lparr>Connect := q\<rparr>) = members m" "members (m\<lparr>DisConnect := q\<rparr>) = members m"
  "table (m\<lparr>Connect := q\<rparr>) = table m" "table (m\<lparr>DisConnect := q\<rparr>) = table m"
  using mgr_inv_frame [of "m\<lparr>Connect := q\<rparr>" m] mgr_inv_frame [of "m\<lparr>DisConnect := q\<rparr>" m] by simp_all

lemma served_chan [simp]:
  "served (m\<lparr>Connect := q\<rparr>) = served m" "served (m\<lparr>DisConnect := q\<rparr>) = served m"
  by (simp_all add: served_def)

lemma served_AddClient:
  "served m \<Longrightarrow> c < next_client m \<Longrightarrow> served (AddClient (Some c) m)"
  by (rule served_frame [of _ m]) (simp_all add: AddClient_inv servedD(1))

declare DelClient.simps(2) [simp del]

text \<open>A deletion: the groups are empty, so one copy of the id goes from the system's list.\<close>

lemma list_store_Groups [simp]: "Groups (list_store (System k) st m) = Groups m"
  by (cases st) simp

lemma delSystemClient_frame [simp]:
  "clients (res_state (delSystemClient c m)) = clients m"
  "next_client (res_state (delSystemClient c m)) = next_client m"
  "Groups (res_state (delSystemClient c m)) = Groups m"
  "Connect (res_state (delSystemClient c m)) = Connect m"
  "DisConnect (res_state (delSystemClient c m)) = DisConnect m"
  by (simp_all add: delSystemClient_store del: list_slice.simps)

lemma DelClient_no_groups:
  assumes "ClientId (clients m c) \<noteq> []" and "GroupList (clients m c) = []"
  shows "DelClient (Some c) m =
    res_state (delSystemClient c (delClientIdMap (ClientId (clients m c)) (Addr (clients m c)) m))"
  using assms by (simp add: DelClient.simps(2) Let_def)

lemma truncated_replicate: "truncated x (replicate n x) = replicate (n - 1) x"
  by (cases "n = 0") (simp_all add: truncated_def last_pos_replicate)

lemma truncated_other: "x \<noteq> y \<Longrightarrow> truncated x (replicate n y) = replicate n y"
proof -
  assume "x \<noteq> y"
  then have "last_pos x (replicate n y) = None" by (simp add: last_pos_None)
  then show ?thesis by (simp add: truncated_def)
qed

lemma DelClient_served:
  assumes "served m" and "c < next_client m"
  shows "served (DelClient (Some c) m)"
    and "clients (DelClient (Some c) m) = clients m" and "next_client (DelClient (Some c) m) = next_client m"
    and "Connect (DelClient (Some c) m) = Connect m" and "DisConnect (DelClient (Some c) m) = DisConnect m"
    and "members (DelClient (Some c) m) (System k) =
      (if k = ClientId (clients m c) then replicate (length (members m (System k)) - 1) k else members m (System k))"
proof -
  let ?i = "ClientId (clients m c)"
  let ?m1 = "delClientIdMap ?i (Addr (clients m c)) m"
  have eq: "DelClient (Some c) m = res_state (delSystemClient c ?m1)"
    using servedD(3,4) [OF assms(1)] assms(2) by (intro DelClient_no_groups) simp_all
  show frame: "clients (DelClient (Some c) m) = clients m" "next_client (DelClient (Some c) m) = next_client m"
    "Connect (DelClient (Some c) m) = Connect m" "DisConnect (DelClient (Some c) m) = DisConnect m"
    by (simp_all add: eq)
  have Grp: "Groups (DelClient (Some c) m) = Groups m" by (simp add: eq)
  have inv1: "mgr_inv ?m1" by (rule delClientIdMap_inv [OF servedD(1) [OF assms(1)]])
  have mem1: "members ?m1 = members m" using lists_inv_frame [of ?m1 m] by simp
  have sys: "SystemId (clients m c) = ?i" by (rule servedD(5) [OF assms])
  have "map_len (Groups ?m1) \<le> 1" using servedD(2) [OF assms(1)] by simp
  then obtain m' where m': "delSystemClient c ?m1 = Done m'"
    "members m' = (members ?m1)(System ?i := truncated ?i (members ?m1 (System ?i)))"
    using delSystemClient_few_groups [OF mgr_invD(4) [OF inv1], of c] sys by auto
  obtain n where n: "members m (System ?i) = replicate n ?i" using servedD(8) [OF assms(1)] by blast
  show mem: "members (DelClient (Some c) m) (System k) =
      (if k = ?i then replicate (length (members m (System k)) - 1) k else members m (System k))" for k
    using m' n by (simp add: eq mem1 truncated_replicate)
  have "\<exists>n. members (DelClient (Some c) m) (System k) = replicate n k" for k
    using mem [of k] servedD(8) [OF assms(1), of k] by auto
  moreover have "mgr_inv (DelClient (Some c) m)"
    by (rule DelClient_inv [OF servedD(1) [OF assms(1)]])
  ultimately show "served (DelClient (Some c) m)"
    using assms(1) unfolding served_def frame Grp by blast
qed

lemma set_client_served:
  assumes "served m" and "ClientId cl = ClientId (clients m c)" and "Addr cl = Addr (clients m c)"
    and "SystemId cl = SystemId (clients m c)" and "Socket cl = Socket (clients m c)" and "GroupList cl = []"
  shows "served (set_client c cl m)"
proof -
  have "mgr_inv (set_client c cl m)" by (rule set_client_inv [OF servedD(1) [OF assms(1)] assms(2,3)])
  then show ?thesis using assms unfolding served_def by (auto split: if_splits)
qed

text \<open>A new connection.\<close>

lemma served_new_client:
  assumes "served m" and "i \<noteq> []" and "\<And>c. c < next_client m \<Longrightarrow> Socket (clients m c) \<noteq> Some k"
  shows "served (snd (new_client (NewClient i a i (Some k) t) m))"
proof -
  let ?m = "snd (new_client (NewClient i a i (Some k) t) m)"
  have inv: "mgr_inv ?m" by (rule new_client_inv [OF servedD(1) [OF assms(1)]])
  have mem: "members ?m = members m" using lists_inv_frame [of ?m m] by (simp add: new_client_def)
  have frame: "Groups ?m = Groups m" "next_client ?m = Suc (next_client m)"
    "clients ?m = (clients m)(next_client m := NewClient i a i (Some k) t)"
    by (simp_all add: new_client_def)
  have "\<forall>c d k'. c < Suc (next_client m) \<longrightarrow> d < Suc (next_client m) \<longrightarrow>
      Socket (clients ?m c) = Some k' \<longrightarrow> Socket (clients ?m d) = Some k' \<longrightarrow> c = d"
    using servedD(7) [OF assms(1)] assms(3) by (auto simp: frame less_Suc_eq)
  moreover have "\<forall>c < Suc (next_client m). ClientId (clients ?m c) \<noteq> [] \<and>
      SystemId (clients ?m c) = ClientId (clients ?m c) \<and> Socket (clients ?m c) \<noteq> None"
    using servedD(4-6) [OF assms(1)] assms(2) by (auto simp: frame less_Suc_eq)
  moreover have "\<forall>c. GroupList (clients ?m c) = []" using servedD(3) [OF assms(1)] by (simp add: frame)
  ultimately show ?thesis
    using inv servedD(2,8) [OF assms(1)] unfolding served_def mem frame by blast
qed

lemma served_AddClient2SystemClient:
  assumes "served m" and "c < next_client m" and "ClientId (clients m c) = sys"
  shows "served (AddClient2SystemClient grow sys a c m)"
    and "length (members (AddClient2SystemClient grow sys a c m) (System sys)) =
      Suc (length (members m (System sys)))"
proof -
  have mem: "members (AddClient2SystemClient grow sys a c m) =
      (members m)(System sys := members m (System sys) @ [sys])"
    using members_AddClient2SystemClient [OF mgr_invD(4) [OF servedD(1) [OF assms(1)]]] assms(3) by simp
  have "\<exists>n. members (AddClient2SystemClient grow sys a c m) (System k) = replicate n k" for k
  proof -
    obtain n where n: "members m (System k) = replicate n k" using servedD(8) [OF assms(1)] by blast
    show ?thesis
      by (cases "k = sys") (use n in \<open>auto simp: mem intro: exI [of _ "Suc n"] simp flip: replicate_append_same\<close>)
  qed
  moreover have "mgr_inv (AddClient2SystemClient grow sys a c m)"
    by (rule AddClient2SystemClient_inv [OF servedD(1) [OF assms(1)] assms(2)])
  ultimately show "served (AddClient2SystemClient grow sys a c m)"
    using assms(1) unfolding served_def AddClient2SystemClient_frame by blast
  show "length (members (AddClient2SystemClient grow sys a c m) (System sys)) =
      Suc (length (members m (System sys)))"
    by (simp add: mem)
qed

text \<open>\<open>AllClient\<close> only allocates: the table is what it was.\<close>

lemma AllClient_loop_frame:
  assumes "AllClient_loop keys result m = (result', m')"
  shows "clients m' = clients m \<and> next_client m' = next_client m \<and> arrays m' = arrays m \<and>
    Groups m' = Groups m \<and> SystemClients m' = SystemClients m \<and>
    PlatformAccountMap m' = PlatformAccountMap m \<and> next_amap m \<le> next_amap m' \<and>
    Connect m' = Connect m \<and> DisConnect m' = DisConnect m"
  using assms
proof (induction keys arbitrary: result m)
  case (Cons k keys)
  show ?case
  proof (cases "fmlookup (ClientIdMap m) k")
    case None
    then show ?thesis using Cons by simp
  next
    case (Some v)
    then show ?thesis
      using Cons.prems Cons.IH
      by (cases "fmlookup result k") (fastforce simp: make_amap_def)+
  qed
qed simp

lemma AllClient_frame:
  assumes "mgr_inv m" and "distinct keys"
  defines "m' \<equiv> snd (AllClient keys m)"
  shows "table m' = table m" and "mgr_inv m'" and "members m' = members m" and "clients m' = clients m"
    and "next_client m' = next_client m" and "Groups m' = Groups m" and "Connect m' = Connect m"
    and "DisConnect m' = DisConnect m"
proof -
  obtain result where loop: "AllClient_loop keys fmempty m = (result, m')"
    unfolding m'_def AllClient_def by (metis prod.collapse)
  note frame = AllClient_loop_frame [OF loop]
  have shares: "\<forall>r < next_amap m. amaps m' r = amaps m r" "ClientIdMap m' = ClientIdMap m"
    using AllClient_loop_shares [OF assms(2) _ le_refl loop] by simp_all
  show tab: "table m' = table m"
  proof
    fix i
    show "table m' i = table m i"
      using shares refs_invD(1) [OF mgr_invD(1) [OF assms(1)], of i]
      by (cases "fmlookup (ClientIdMap m) i") (simp_all add: table_def)
  qed
  have "refs_inv m'"
    using mgr_invD(1) [OF assms(1)] frame shares(2) unfolding refs_inv_def
    by (metis le_trans less_le_trans)
  moreover have "lists_inv m' = lists_inv m \<and> members m' = members m"
    using frame by (intro lists_inv_frame) simp_all
  ultimately show "mgr_inv m'" and "members m' = members m"
    using assms(1) tab frame by (simp_all add: mgr_inv_def table_inv_def account_inv_def account_ids_def)
  show "clients m' = clients m" "next_client m' = next_client m" "Groups m' = Groups m"
    "Connect m' = Connect m" "DisConnect m' = DisConnect m" using frame by simp_all
qed

lemma served_AllClient:
  assumes "served m" and "distinct keys"
  shows "served (snd (AllClient keys m))"
proof -
  note frame = AllClient_frame [OF servedD(1) [OF assms(1)] assms(2)]
  show ?thesis
    by (rule served_frame [OF frame(4-6) _ frame(2) assms(1)]) (simp only: frame(3))
qed

lemma NewClientManager_sel [simp]:
  "Groups NewClientManager = fmempty" "GroupList (clients NewClientManager c) = []"
  "next_client NewClientManager = 0" "Connect NewClientManager = []" "DisConnect NewClientManager = []"
  "members NewClientManager (System k) = []" "table NewClientManager i = None"
  by (simp_all add: NewClientManager_def members_def table_def)

lemma served_init: "served NewClientManager"
  unfolding served_def by (simp add: mgr_inv_init)

section \<open>Runs\<close>

text \<open>A connection that the upgrade of a request makes: no client has it, nothing happened to it.\<close>

definition fresh_conn :: "server \<Rightarrow> conn \<Rightarrow> bool" where
  "fresh_conn s k \<longleftrightarrow>
     (\<forall>c < next_client (Manager s). Socket (client_of s c) \<noteq> Some k) \<and> frames s k = [] \<and> \<not> closed s k"

definition server_init :: "setting \<Rightarrow> server" where
  "server_init cfg =
     \<lparr>Manager = NewClientManager, ToClientChan = [], Config = cfg, frames = (\<lambda>_. []),
      closed = (\<lambda>_. False), Senders = [], Broadcasts = [], Readers = [], Handlers = [],
      Writing = None, Outgoing = []\<rparr>"

text \<open>
  What a call of \<open>SendMessage2Client\<close> asks for. On its own a server accepts every such message and
  puts it on \<open>ToClientChan\<close> later; in a cluster it accepts those for ids of its own and puts
  them there at once.
\<close>

definition message_of ::
  "(nat \<Rightarrow> byte) \<Rightarrow> string \<Rightarrow> string \<Rightarrow> string \<Rightarrow> string \<Rightarrow> string option \<Rightarrow> clientInfo" where
  "message_of r clientId sendUserId code msg data =
     \<lparr>ci_ClientId = clientId, ci_SendUserId = sendUserId, ci_MessageId = GenUUID r, ci_Code = code,
      ci_Msg = msg, ci_Data = data\<rparr>"

definition ours :: "setting \<Rightarrow> string \<Rightarrow> bool" where
  "ours st i \<longleftrightarrow> (case GetAddrInfoAndIsLocal st i of Ok (_, _, _, isLocal) \<Rightarrow> isLocal | _ \<Rightarrow> False)"

definition accepted :: "server \<Rightarrow> clientInfo \<Rightarrow> clientInfo list" where
  "accepted s info = (if IsCluster (Config s) \<and> \<not> ours (Config s) (ci_ClientId info) then [] else [info])"

definition queued_at_once :: "server \<Rightarrow> clientInfo \<Rightarrow> clientInfo list" where
  "queued_at_once s info = (if IsCluster (Config s) \<and> ours (Config s) (ci_ClientId info) then [info] else [])"

lemma SendMessage2Client_Returns:
  assumes "SendMessage2Client r i u code m d s = (mid, Returns s')"
  shows "mid = GenUUID r" and "s' = s\<lparr>Senders := Senders s @ (if IsCluster (Config s) then [] else [message_of r i u code m d]),
      ToClientChan := ToClientChan s @ queued_at_once s (message_of r i u code m d)\<rparr>"
    and "queued_at_once s (message_of r i u code m d) \<noteq> [] \<Longrightarrow> length (ToClientChan s) < cap_ToClientChan"
  using assms
  by (auto simp: SendMessage2Client_def SendMessage2LocalClient_def Let_def send_client_def chan_send_def
      queued_at_once_def ours_def message_of_def split: if_splits fallible.splits option.splits)

text \<open>
  A step carries the messages that the API accepts in it and those that it puts on
  \<open>ToClientChan\<close>. A goroutine that would wait takes no step, but for a request for the online
  list, which may wait for ever with the lock of the server list in its hands. The ping of a client stands for one
  round of the inner loop of \<open>PingTimer\<close>, on any client ever made: the maps it ranges over may
  have been replaced meanwhile.
\<close>

inductive sys_step :: "server \<Rightarrow> clientInfo list \<Rightarrow> clientInfo list \<Rightarrow> server \<Rightarrow> bool" where
  refuse: "fresh_conn s k \<Longrightarrow> Run_open grow up r (Some k) now s = (None, s') \<Longrightarrow> sys_step s [] [] s'"
| accept: "fresh_conn s k \<Longrightarrow> Run_open grow up r (Some k) now s = (Some c, s') \<Longrightarrow>
    sys_step s [] [] (s'\<lparr>Handlers := Handlers s' @ [(c, False)]\<rparr>)"
| greet: "(c, False) \<in> set (Handlers s) \<Longrightarrow> Run_greet up c s = (ok, s') \<Longrightarrow>
    sys_step s [] [] (s'\<lparr>Handlers := (if ok then [(c, True)] else []) @ remove1 (c, False) (Handlers s')\<rparr>)"
| connect: "(c, True) \<in> set (Handlers s) \<Longrightarrow> send_Connect c s = Returns s' \<Longrightarrow>
    sys_step s [] [] (s'\<lparr>Handlers := remove1 (c, True) (Handlers s')\<rparr>)"
| read: "c \<in> set (Readers s) \<Longrightarrow> Read_round up c result s = Returns s' \<Longrightarrow> sys_step s [] [] s'"
| event: "Start pick rs s = Returns s' \<Longrightarrow> sys_step s [] [] s'"
| send: "SendMessage2Client r i u code msg data s = (mid, Returns s') \<Longrightarrow>
    sys_step s (accepted s (message_of r i u code msg data))
      (queued_at_once s (message_of r i u code msg data)) s'"
| sender: "info \<in> set (Senders s) \<Longrightarrow> send_client info s = Returns s' \<Longrightarrow>
    sys_step s [] [info] (s'\<lparr>Senders := remove1 info (Senders s')\<rparr>)"
| fetch: "Writing s = None \<Longrightarrow> recv_client s = Some (info, s') \<Longrightarrow> distinct order \<Longrightarrow>
    sys_step s [] [] (s'\<lparr>Writing := Some (info, targets order (ci_ClientId info) s')\<rparr>)"
| deliver: "Writing s = Some (info, c # cs) \<Longrightarrow> write_one up info c s = Returns s' \<Longrightarrow>
    sys_step s [] [] (s'\<lparr>Writing := Some (info, cs)\<rparr>)"
| delivered: "Writing s = Some (info, []) \<Longrightarrow> sys_step s [] [] (s\<lparr>Writing := None\<rparr>)"
| tick: "distinct keys \<Longrightarrow> sys_step s [] [] (s\<lparr>Manager := snd (AllClient keys (Manager s))\<rparr>)"
| ping: "c < next_client (Manager s) \<Longrightarrow> ping_one up c s = Returns s' \<Longrightarrow> sys_step s [] [] s'"
| close: "CloseClient dial i sys addr s = Returns s' \<Longrightarrow> sys_step s [] [] s'"
| group: "SendMessage2Group r call s = (mid, s') \<Longrightarrow> sys_step s [] [] s'"
| system: "SendMessage2System dial order r sys u code msg data s = Returns s' \<Longrightarrow> sys_step s [] [] s'"
| broadcast: "b \<in> set (Broadcasts s) \<Longrightarrow> run_broadcast dial order b s = Returns s' \<Longrightarrow>
    sys_step s [] [] (s'\<lparr>Broadcasts := remove1 b (Broadcasts s')\<rparr>)"
| online: "GetOnlineList dial answer arrival sys grp s = Returns (j, s') \<or>
    GetOnlineList dial answer arrival sys grp s = Blocks (j, s') \<Longrightarrow> sys_step s [] [] s'"
| servers: "sys_step s [] []
    (s\<lparr>Config := (Config s)\<lparr>GlobalSetting := (GlobalSetting (Config s))\<lparr>ServerList := l\<rparr>\<rparr>\<rparr>)"

inductive sys_reach :: "setting \<Rightarrow> clientInfo list \<Rightarrow> clientInfo list \<Rightarrow> server \<Rightarrow> bool" for cfg where
  start: "sys_reach cfg [] [] (server_init cfg)"
| step: "sys_reach cfg acc psh s \<Longrightarrow> sys_step s a p s' \<Longrightarrow> sys_reach cfg (acc @ a) (psh @ p) s'"

text \<open>Sequences of steps from any state.\<close>

inductive sys_run :: "server \<Rightarrow> clientInfo list \<Rightarrow> clientInfo list \<Rightarrow> server \<Rightarrow> bool" where
  stay: "sys_run s [] [] s"
| more: "sys_run s a p s1 \<Longrightarrow> sys_step s1 a' p' s2 \<Longrightarrow> sys_run s (a @ a') (p @ p') s2"

lemma sys_run_one: "sys_step s a p s' \<Longrightarrow> sys_run s a p s'"
  using sys_run.more [OF sys_run.stay] by fastforce

lemma sys_run_trans:
  assumes "sys_run s1 a' p' s2" and "sys_run s a p s1"
  shows "sys_run s (a @ a') (p @ p') s2"
  using assms by (induction rule: sys_run.induct) (auto simp flip: append_assoc intro: sys_run.more)

lemma sys_run_reach:
  assumes "sys_run s a p s'" and "sys_reach cfg acc psh s"
  shows "sys_reach cfg (acc @ a) (psh @ p) s'"
  using assms by (induction rule: sys_run.induct) (auto simp flip: append_assoc intro: sys_reach.step)

section \<open>The invariant of the runs\<close>

definition allocated :: "server \<Rightarrow> cref \<Rightarrow> bool" where
  "allocated s c \<longleftrightarrow> c < next_client (Manager s)"

definition writing_ok :: "server \<Rightarrow> bool" where
  "writing_ok s \<longleftrightarrow>
     (\<forall>info cs. Writing s = Some (info, cs) \<longrightarrow> distinct cs \<and>
        (\<forall>c \<in> set cs. allocated s c \<and> ClientId (client_of s c) = ci_ClientId info))"

definition sys_inv :: "server \<Rightarrow> bool" where
  "sys_inv s \<longleftrightarrow>
     served (Manager s) \<and>
     length (ToClientChan s) \<le> cap_ToClientChan \<and> length (Connect (Manager s)) \<le> cap_Connect \<and>
     length (DisConnect (Manager s)) \<le> cap_DisConnect \<and>
     (\<forall>c \<in> set (Connect (Manager s)) \<union> set (DisConnect (Manager s)) \<union> set (Readers s) \<union>
        fst ` set (Handlers s). allocated s c) \<and>
     writing_ok s"

lemma sys_invD:
  assumes "sys_inv s"
  shows "served (Manager s)" and "length (ToClientChan s) \<le> cap_ToClientChan"
    and "length (Connect (Manager s)) \<le> cap_Connect" and "length (DisConnect (Manager s)) \<le> cap_DisConnect"
    and "c \<in> set (Connect (Manager s)) \<Longrightarrow> allocated s c" and "c \<in> set (DisConnect (Manager s)) \<Longrightarrow> allocated s c"
    and "c \<in> set (Readers s) \<Longrightarrow> allocated s c" and "(c, b) \<in> set (Handlers s) \<Longrightarrow> allocated s c"
    and "writing_ok s"
  using assms unfolding sys_inv_def by (blast, blast, blast, blast, blast, blast, blast, force, blast)

text \<open>What the operations change, as equations.\<close>

lemma send_iff:
  "send_client v s = Returns s' \<longleftrightarrow>
     length (ToClientChan s) < cap_ToClientChan \<and> s' = s\<lparr>ToClientChan := ToClientChan s @ [v]\<rparr>"
  "send_Connect c s = Returns s' \<longleftrightarrow>
     length (Connect (Manager s)) < cap_Connect \<and>
     s' = s\<lparr>Manager := (Manager s)\<lparr>Connect := Connect (Manager s) @ [c]\<rparr>\<rparr>"
  "send_DisConnect c s = Returns s' \<longleftrightarrow>
     length (DisConnect (Manager s)) < cap_DisConnect \<and>
     s' = s\<lparr>Manager := (Manager s)\<lparr>DisConnect := DisConnect (Manager s) @ [c]\<rparr>\<rparr>"
  by (auto simp: send_client_def send_Connect_def send_DisConnect_def chan_send_def)

lemma recv_iff:
  "recv_client s = Some (info, s') \<longleftrightarrow>
     ToClientChan s \<noteq> [] \<and> info = hd (ToClientChan s) \<and> s' = s\<lparr>ToClientChan := tl (ToClientChan s)\<rparr>"
  "recv_Connect s = Some (c, s') \<longleftrightarrow>
     Connect (Manager s) \<noteq> [] \<and> c = hd (Connect (Manager s)) \<and>
     s' = s\<lparr>Manager := (Manager s)\<lparr>Connect := tl (Connect (Manager s))\<rparr>\<rparr>"
  "recv_DisConnect s = Some (c, s') \<longleftrightarrow>
     DisConnect (Manager s) \<noteq> [] \<and> c = hd (DisConnect (Manager s)) \<and>
     s' = s\<lparr>Manager := (Manager s)\<lparr>DisConnect := tl (DisConnect (Manager s))\<rparr>\<rparr>"
  by (auto simp: recv_client_def recv_Connect_def recv_DisConnect_def split: list.splits)

lemma write_json_iff:
  "write_json up k j s = (ok, s') \<longleftrightarrow>
     (if closed s k \<or> \<not> up k then \<not> ok \<and> s' = s
      else ok \<and> s' = s\<lparr>frames := (frames s)(k := frames s k @ [j])\<rparr>)"
  by (auto simp: write_json_def)

text \<open>States that differ only in the parts that the invariant does not look at.\<close>

definition core :: "server \<Rightarrow> server" where
  "core s = s\<lparr>Config := Config (server_init undefined), frames := (\<lambda>_. []), closed := (\<lambda>_. False),
     Senders := [], Broadcasts := [], Outgoing := []\<rparr>"

lemma sys_inv_core: "sys_inv (core s) = sys_inv s"
  by (simp add: sys_inv_def writing_ok_def core_def allocated_def client_of_def)

lemma sys_inv_core_eq: "core s' = core s \<Longrightarrow> sys_inv s \<Longrightarrow> sys_inv s'"
  by (metis sys_inv_core)

lemma core_write: "write_json up k j s = (ok, s') \<Longrightarrow> core s' = core s"
  by (auto simp: write_json_iff core_def split: if_splits)

text \<open>The pieces one by one.\<close>

lemma sys_inv_send_client:
  "sys_inv s \<Longrightarrow> send_client v s = Returns s' \<Longrightarrow> sys_inv s'"
  by (auto simp: send_iff sys_inv_def writing_ok_def allocated_def client_of_def)

lemma sys_inv_send_Connect:
  "sys_inv s \<Longrightarrow> allocated s c \<Longrightarrow> send_Connect c s = Returns s' \<Longrightarrow> sys_inv s'"
  by (auto simp: send_iff sys_inv_def writing_ok_def allocated_def client_of_def)

lemma sys_inv_send_DisConnect:
  "sys_inv s \<Longrightarrow> allocated s c \<Longrightarrow> send_DisConnect c s = Returns s' \<Longrightarrow> sys_inv s'"
  by (auto simp: send_iff sys_inv_def writing_ok_def allocated_def client_of_def)

lemma sys_inv_goroutines:
  "sys_inv s \<Longrightarrow> set rs \<subseteq> set (Readers s) \<Longrightarrow> sys_inv (s\<lparr>Readers := rs\<rparr>)"
  "sys_inv s \<Longrightarrow> (\<And>c b. (c, b) \<in> set hs \<Longrightarrow> allocated s c) \<Longrightarrow> sys_inv (s\<lparr>Handlers := hs\<rparr>)"
  by (auto simp: sys_inv_def writing_ok_def allocated_def client_of_def)

lemma sys_inv_Manager:
  assumes "sys_inv s" and "served m" and "next_client (Manager s) \<le> next_client m"
    and "\<And>c. allocated s c \<Longrightarrow> ClientId (clients m c) = ClientId (client_of s c)"
    and "Connect m = Connect (Manager s)" and "DisConnect m = DisConnect (Manager s)"
  shows "sys_inv (s\<lparr>Manager := m\<rparr>)"
proof -
  have alloc: "allocated s c \<Longrightarrow> allocated (s\<lparr>Manager := m\<rparr>) c" for c
    using assms(3) by (simp add: allocated_def)
  have "writing_ok (s\<lparr>Manager := m\<rparr>)"
    using sys_invD(9) [OF assms(1)] alloc assms(4)
    by (auto simp: writing_ok_def client_of_def split: option.splits)
  then show ?thesis
    using assms(1,2,5,6) alloc by (auto simp: sys_inv_def)
qed

lemma allocated_simps [simp]:
  "allocated (s\<lparr>ToClientChan := q\<rparr>) c = allocated s c" "allocated (s\<lparr>Writing := w\<rparr>) c = allocated s c"
  "allocated (s\<lparr>Manager := (Manager s)\<lparr>Connect := q2\<rparr>\<rparr>) c = allocated s c"
  "allocated (s\<lparr>Manager := (Manager s)\<lparr>DisConnect := q2\<rparr>\<rparr>) c = allocated s c"
  "allocated (s\<lparr>frames := f\<rparr>) c = allocated s c" "allocated (s\<lparr>closed := g\<rparr>) c = allocated s c"
  by (simp_all add: allocated_def)

lemma sys_inv_recv:
  assumes "sys_inv s"
  shows "recv_Connect s = Some (c, s') \<Longrightarrow> sys_inv s' \<and> allocated s' c"
    and "recv_DisConnect s = Some (c, s') \<Longrightarrow> sys_inv s' \<and> allocated s' c"
proof -
  assume "recv_Connect s = Some (c, s')"
  then show "sys_inv s' \<and> allocated s' c"
    using assms list.set_sel(2) [of "Connect (Manager s)"]
    by (auto simp: recv_iff sys_inv_def writing_ok_def client_of_def)
next
  assume "recv_DisConnect s = Some (c, s')"
  then show "sys_inv s' \<and> allocated s' c"
    using assms list.set_sel(2) [of "DisConnect (Manager s)"]
    by (auto simp: recv_iff sys_inv_def writing_ok_def client_of_def)
qed

section \<open>Every step keeps the invariant\<close>

lemma core_fields:
  assumes "core s' = core s"
  shows "Manager s' = Manager s" and "Handlers s' = Handlers s" and "Readers s' = Readers s"
    and "Writing s' = Writing s" and "ToClientChan s' = ToClientChan s"
  using arg_cong [OF assms, of Manager] arg_cong [OF assms, of Handlers] arg_cong [OF assms, of Readers]
    arg_cong [OF assms, of Writing] arg_cong [OF assms, of ToClientChan] by (simp_all add: core_def)

lemma core_allocated: "core s' = core s \<Longrightarrow> allocated s' c = allocated s c"
  unfolding allocated_def by (simp only: core_fields(1) [of s' s])

lemma core_Render: "Render up k mid u code msg d s = (ok, s') \<Longrightarrow> core s' = core s"
  unfolding Render_def by (rule core_write)

lemma sys_inv_write_one:
  assumes "sys_inv s" and "allocated s c" and "write_one up info c s = Returns s'"
  shows "sys_inv s'"
proof -
  obtain k where k: "Socket (client_of s c) = Some k"
    using assms(3) by (auto simp: write_one_def split: option.splits)
  obtain ok s1 where r: "Render up k (ci_MessageId info) (ci_SendUserId info) (ci_Code info)
      (ci_Msg info) (data_json (ci_Data info)) s = (ok, s1)" by fastforce
  have "sys_inv s1" and "allocated s1 c"
    using sys_inv_core_eq core_allocated core_Render [OF r] assms(1,2) by blast+
  moreover have "if ok then s' = s1 else send_DisConnect c s1 = Returns s'"
    using assms(3) k r by (simp add: write_one_def split: if_splits)
  ultimately show ?thesis using sys_inv_send_DisConnect [of s1 c s'] by (cases ok) simp_all
qed

lemma write_one_Writing: "write_one up info c s = Returns s' \<Longrightarrow> Writing s' = Writing s"
  by (auto simp: write_one_def Render_def write_json_def send_iff split: option.splits if_splits)

lemma sys_inv_ping_one:
  "sys_inv s \<Longrightarrow> allocated s c \<Longrightarrow> ping_one up c s = Returns s' \<Longrightarrow> sys_inv s'"
  by (auto simp: ping_one_def intro: sys_inv_send_DisConnect split: option.splits if_splits)

lemma core_Senders [simp]: "core (s\<lparr>Senders := x\<rparr>) = core s" "core (s\<lparr>Broadcasts := y\<rparr>) = core s"
  "core (s\<lparr>Outgoing := z\<rparr>) = core s" "core (s\<lparr>Config := cfg\<rparr>) = core s" "core (s\<lparr>closed := f\<rparr>) = core s"
  by (simp_all add: core_def)

lemma sys_inv_SendMessage2Client:
  assumes "sys_inv s" and "SendMessage2Client r i u code msg data s = (mid, Returns s')"
  shows "sys_inv s'"
  using assms(2) sys_inv_send_client [OF assms(1), of _ s'] sys_inv_core_eq [OF _ assms(1), of s'] assms(1)
  by (auto simp: SendMessage2Client_def SendMessage2LocalClient_def Let_def
      split: if_splits fallible.splits prod.splits)

lemma core_with_outbox: "with_outbox f s = Returns s' \<Longrightarrow> core s' = core s"
  by (auto simp: with_outbox_def split: outcome.splits)

lemma sys_inv_with_outbox: "sys_inv s \<Longrightarrow> with_outbox f s = Returns s' \<Longrightarrow> sys_inv s'"
  using core_with_outbox sys_inv_core_eq by blast

lemma registered_allocated:
  assumes "sys_inv s" and "table (Manager s) i = Some t" and "fmlookup t a = Some c"
  shows "allocated s c" and "ClientId (client_of s c) = i" and "Addr (client_of s c) = a"
  using table_invD [OF mgr_invD(2) [OF servedD(1) [OF sys_invD(1) [OF assms(1)]]] assms(2)] assms(3)
  by (simp_all add: allocated_def client_of_def)

lemma sys_inv_CloseLocalClient:
  assumes "sys_inv s" and "CloseLocalClient i sys addr s = Returns s'"
  shows "sys_inv s'"
proof (cases "table (Manager s) i")
  case None
  then show ?thesis using assms by (simp add: CloseLocalClient_def GetByClientId_table)
next
  case (Some t)
  then show ?thesis
    using assms registered_allocated(1) [OF assms(1) Some, of addr] sys_inv_send_DisConnect [OF assms(1)]
    by (auto simp: CloseLocalClient_def GetByClientId_table split: option.splits if_splits)
qed

lemma sys_inv_CloseClient:
  "sys_inv s \<Longrightarrow> CloseClient dial i sys addr s = Returns s' \<Longrightarrow> sys_inv s'"
  by (auto simp: CloseClient_def intro: sys_inv_CloseLocalClient sys_inv_with_outbox
      split: if_splits fallible.splits prod.splits)

text \<open>Events.\<close>

lemma core_notify_groups: "core (notify_groups rs cl gs s) = core s"
  by (induction rs cl gs s rule: notify_groups.induct) (simp_all add: SendMessage2Group_def Let_def)

lemma sys_inv_EventConnect: "sys_inv s \<Longrightarrow> allocated s c \<Longrightarrow> sys_inv (EventConnect c s)"
  unfolding EventConnect_def
  by (rule sys_inv_Manager)
    (simp_all add: served_AddClient sys_invD(1) allocated_def client_of_def)

lemma sys_inv_DelClient:
  assumes "sys_inv s" and "allocated s c"
  shows "sys_inv (s\<lparr>Manager := DelClient (Some c) (Manager s)\<rparr>)"
proof -
  note del = DelClient_served [OF sys_invD(1) [OF assms(1)] assms(2) [unfolded allocated_def]]
  show ?thesis by (rule sys_inv_Manager [OF assms(1) del(1)]) (simp_all add: del client_of_def)
qed

lemma sys_inv_EventDisconnect:
  assumes "sys_inv s" and "allocated s c" and "EventDisconnect rs c s = Returns s'"
  shows "sys_inv s'"
proof -
  obtain k where k: "Socket (client_of s c) = Some k"
    using assms(3) by (auto simp: EventDisconnect_def split: option.splits)
  define s1 where "s1 = s\<lparr>closed := (closed s)(k := True)\<rparr>"
  define s2 where "s2 = s1\<lparr>Manager := DelClient (Some c) (Manager s1)\<rparr>"
  define s3 where "s3 = notify_groups rs (client_of s2 c) (GroupList (client_of s2 c)) s2"
  have s': "s' = s3\<lparr>Manager := set_client c ((client_of s3 c)\<lparr>IsDeleted := True\<rparr>) (Manager s3)\<rparr>"
    using assms(3) k by (simp add: EventDisconnect_def Let_def s1_def s2_def s3_def)
  have "sys_inv s1" by (rule sys_inv_core_eq [OF _ assms(1)]) (simp add: s1_def)
  then have "sys_inv s2" unfolding s2_def
    by (rule sys_inv_DelClient) (use assms(2) in \<open>simp add: s1_def\<close>)
  then have inv3: "sys_inv s3" by (rule sys_inv_core_eq [rotated]) (simp add: s3_def core_notify_groups)
  have "served (set_client c ((client_of s3 c)\<lparr>IsDeleted := True\<rparr>) (Manager s3))"
    by (rule set_client_served [OF sys_invD(1) [OF inv3]])
      (simp_all add: client_of_def servedD(3) [OF sys_invD(1) [OF inv3]])
  then show ?thesis
    unfolding s' by (intro sys_inv_Manager [OF inv3]) (simp_all add: client_of_def)
qed

lemma sys_inv_Start:
  assumes "sys_inv s" and "Start pick rs s = Returns s'"
  shows "sys_inv s'"
proof -
  obtain e s1 where e: "recv_event pick s = Some (e, s1)"
    using assms(2) by (auto simp: Start_def split: option.splits)
  show ?thesis
  proof (cases e)
    case (Inl c)
    then have "recv_Connect s = Some (c, s1)"
      using e by (auto simp: recv_event_def split: option.splits if_splits)
    then show ?thesis
      using sys_inv_recv(1) [OF assms(1)] sys_inv_EventConnect assms(2) e Inl by (auto simp: Start_def)
  next
    case (Inr c)
    then have "recv_DisConnect s = Some (c, s1)"
      using e by (auto simp: recv_event_def split: option.splits if_splits)
    then show ?thesis
      using sys_inv_recv(2) [OF assms(1)] sys_inv_EventDisconnect assms(2) e Inr by (auto simp: Start_def)
  qed
qed

text \<open>The connect handler and the read loop.\<close>

lemma Run_open_None:
  "Run_open grow up r upgraded now s = (None, s') \<Longrightarrow> core s' = core s"
  by (auto simp: Run_open_def Let_def new_client_def dest: core_Render
      split: option.splits if_splits prod.splits)

lemma Run_open_Some:
  assumes "Run_open grow up r (Some k) now s = (Some c, s')"
  defines "i \<equiv> system_id_of r"
  shows "i \<noteq> []" and "c = next_client (Manager s)"
    and "s' = s\<lparr>Manager := AddClient2SystemClient grow i (RemoteAddr r) c
        (snd (new_client (NewClient i (RemoteAddr r) i (Some k) now) (Manager s))),
      Readers := Readers s @ [c]\<rparr>"
  using assms by (auto simp: Run_open_def Let_def new_client_def split: if_splits prod.splits)

lemma sys_inv_Run_open:
  assumes "sys_inv s" and "fresh_conn s k" and run: "Run_open grow up r (Some k) now s = (Some c, s')"
  shows "sys_inv s'" and "allocated s' c"
proof -
  let ?i = "system_id_of r"
  let ?m1 = "snd (new_client (NewClient ?i (RemoteAddr r) ?i (Some k) now) (Manager s))"
  let ?m2 = "AddClient2SystemClient grow ?i (RemoteAddr r) c ?m1"
  note open_c = Run_open_Some [OF run]
  have m1: "clients ?m1 = (clients (Manager s))(c := NewClient ?i (RemoteAddr r) ?i (Some k) now)"
    "next_client ?m1 = Suc c" "Connect ?m1 = Connect (Manager s)" "DisConnect ?m1 = DisConnect (Manager s)"
    using open_c(2) by (simp_all add: new_client_def)
  have served1: "served ?m1"
    using served_new_client [OF sys_invD(1) [OF assms(1)] open_c(1)] assms(2)
    by (simp add: fresh_conn_def client_of_def)
  have served2: "served ?m2"
    by (rule served_AddClient2SystemClient(1) [OF served1]) (simp_all add: m1)
  have chans: "Connect ?m2 = Connect (Manager s)" "DisConnect ?m2 = DisConnect (Manager s)"
    by (simp_all add: AddClient2SystemClient_store Let_def m1)
  have inv: "sys_inv (s\<lparr>Manager := ?m2\<rparr>)"
  proof (rule sys_inv_Manager [OF assms(1) served2 _ _ chans])
    show "next_client (Manager s) \<le> next_client ?m2" using open_c(2) by (simp add: m1)
    show "ClientId (clients ?m2 d) = ClientId (client_of s d)" if "allocated s d" for d
      using that open_c(2) by (simp add: m1 allocated_def client_of_def)
  qed
  show alloc: "allocated s' c" by (simp add: open_c(3) allocated_def m1)
  show "sys_inv s'"
    using inv alloc unfolding open_c(3) by (auto simp: sys_inv_def writing_ok_def allocated_def client_of_def)
qed

lemma core_Run_greet: "Run_greet up c s = (ok, s') \<Longrightarrow> core s' = core s"
  by (auto simp: Run_greet_def ConnRender_def dest: core_write split: option.splits if_splits prod.splits)

lemma core_handle_message: "core (handle_message up k receive s) = core s"
  by (cases "write_json up k keep_live_reply s") (auto simp: handle_message_def dest: core_write)

lemma sys_inv_reader_done: "sys_inv s \<Longrightarrow> sys_inv (reader_done c s)"
  unfolding reader_done_def by (rule sys_inv_goroutines(1)) (simp_all add: set_remove1_subset)

lemma sys_inv_Read_round:
  assumes "sys_inv s" and "c \<in> set (Readers s)" and "Read_round up c result s = Returns s'"
  shows "sys_inv s'"
proof -
  have msg: "sys_inv (handle_message up k receive s)" for k receive
    by (rule sys_inv_core_eq [OF core_handle_message assms(1)])
  show ?thesis
    using assms(3) msg sys_inv_reader_done [OF assms(1), of c]
      sys_inv_send_DisConnect [OF assms(1) sys_invD(7) [OF assms(1,2)]] sys_inv_reader_done [of _ c]
    by (auto simp: Read_round_def outcome_then_Returns split: option.splits read_result.splits if_splits)
qed

lemma targets_registered:
  "c \<in> set (targets order i s) \<longleftrightarrow> (\<exists>t. table (Manager s) i = Some t \<and> (\<exists>a \<in> set order. fmlookup t a = Some c))"
  by (auto simp: targets_def GetByClientId_table set_map_filter_iff split: option.splits)

lemma distinct_map_filter:
  assumes "distinct xs" and "\<And>x y z. x \<in> set xs \<Longrightarrow> y \<in> set xs \<Longrightarrow> f x = Some z \<Longrightarrow> f y = Some z \<Longrightarrow> x = y"
  shows "distinct (List.map_filter f xs)"
  using assms
proof (induction xs)
  case (Cons x xs)
  then have "distinct (List.map_filter f xs)" by simp
  then show ?case
    using Cons.prems by (cases "f x") (auto simp: set_map_filter_iff)
qed simp

lemma distinct_targets:
  assumes "sys_inv s" and "distinct order"
  shows "distinct (targets order i s)"
proof (cases "table (Manager s) i")
  case None
  then show ?thesis by (simp add: targets_def GetByClientId_table)
next
  case (Some t)
  have "distinct (List.map_filter (fmlookup t) order)"
    by (rule distinct_map_filter [OF assms(2)]) (metis registered_allocated(3) [OF assms(1) Some])
  then show ?thesis using Some by (simp add: targets_def GetByClientId_table)
qed

lemma sys_inv_fetch:
  assumes "sys_inv s" and "recv_client s = Some (info, s')" and "distinct order"
  shows "sys_inv (s'\<lparr>Writing := Some (info, targets order (ci_ClientId info) s')\<rparr>)"
proof -
  have inv: "sys_inv s'"
    using assms(1,2) by (auto simp: recv_iff sys_inv_def writing_ok_def client_of_def)
  have "\<forall>c \<in> set (targets order (ci_ClientId info) s'). allocated s' c \<and> ClientId (client_of s' c) = ci_ClientId info"
    using registered_allocated [OF inv] by (auto simp: targets_registered)
  then show ?thesis
    using inv distinct_targets [OF inv assms(3)]
    by (simp add: sys_inv_def writing_ok_def client_of_def)
qed

lemma sys_step_inv:
  assumes "sys_step s a p s'" and "sys_inv s"
  shows "sys_inv s'"
  using assms
proof (cases rule: sys_step.cases)
  case (refuse k grow up r now)
  then show ?thesis using Run_open_None sys_inv_core_eq assms(2) by blast
next
  case (accept k grow up r now c s1)
  then show ?thesis
    using sys_inv_Run_open [OF assms(2)] sys_invD(8)
    by (auto intro!: sys_inv_goroutines(2))
next
  case (greet c up ok s1)
  have "sys_inv s1" by (rule sys_inv_core_eq [OF core_Run_greet [OF greet(5)] assms(2)])
  moreover have "allocated s1 c"
    using core_allocated [OF core_Run_greet [OF greet(5)]] sys_invD(8) [OF assms(2) greet(4)] by simp
  ultimately show ?thesis
    unfolding greet(3) using set_remove1_subset sys_invD(8)
    by (intro sys_inv_goroutines(2)) (auto split: if_splits dest!: set_remove1_subset [THEN subsetD])
next
  case (connect c s1)
  have "sys_inv s1" by (rule sys_inv_send_Connect [OF assms(2) sys_invD(8) [OF assms(2) connect(4)] connect(5)])
  then show ?thesis
    unfolding connect(3) using sys_invD(8)
    by (intro sys_inv_goroutines(2)) (auto dest!: set_remove1_subset [THEN subsetD])
next
  case (sender info s1)
  then show ?thesis using sys_inv_send_client [OF assms(2)] sys_inv_core_eq core_Senders(1) by blast
next
  case (deliver info c cs up s1)
  have c: "allocated s c" using sys_invD(9) [OF assms(2)] deliver(4) by (simp add: writing_ok_def)
  have inv: "sys_inv s1" by (rule sys_inv_write_one [OF assms(2) c deliver(5)])
  have "Writing s1 = Writing s" by (rule write_one_Writing [OF deliver(5)])
  then show ?thesis
    unfolding deliver(3) using inv deliver(4) by (auto simp: sys_inv_def writing_ok_def client_of_def)
next
  case (tick keys)
  note frame = AllClient_frame [OF servedD(1) [OF sys_invD(1) [OF assms(2)]] tick(4)]
  show ?thesis unfolding tick(3)
    by (rule sys_inv_Manager [OF assms(2) served_AllClient [OF sys_invD(1) [OF assms(2)] tick(4)]])
      (simp_all add: frame client_of_def)
next
  case (ping c up)
  then show ?thesis using sys_inv_ping_one [OF assms(2)] by (simp add: allocated_def)
next
  case (group r call mid)
  then show ?thesis by (auto simp: SendMessage2Group_def Let_def intro: sys_inv_core_eq [OF _ assms(2)])
next
  case (system dial order r sys u code msg data)
  then show ?thesis
    using assms(2) by (auto simp: SendMessage2System_def Let_def intro: sys_inv_with_outbox split: if_splits)
next
  case (broadcast b dial order s1)
  then have "sys_inv s1" using assms(2) sys_inv_with_outbox by (auto simp: run_broadcast_def)
  then show ?thesis unfolding broadcast(3) by (rule sys_inv_core_eq [rotated]) simp
next
  case (online dial answer arrival sys grp j)
  then show ?thesis
    using assms(2) by (auto simp: GetOnlineList_def intro: sys_inv_core_eq [OF _ assms(2)]
        split: if_splits option.splits prod.splits)
next
  case (servers l)
  then show ?thesis by (auto intro: sys_inv_core_eq [OF _ assms(2)])
next
  case (delivered info)
  then show ?thesis using assms(2) by (auto simp: sys_inv_def writing_ok_def allocated_def)
next
  case (read c up result)
  then show ?thesis using sys_inv_Read_round [OF assms(2)] by blast
next
  case (event pick rs)
  then show ?thesis using sys_inv_Start [OF assms(2)] by blast
next
  case (send r i u code msg data mid)
  then show ?thesis using sys_inv_SendMessage2Client [OF assms(2)] by blast
next
  case (fetch info s1 order)
  then show ?thesis using sys_inv_fetch [OF assms(2)] by blast
next
  case (close dial i sys addr)
  then show ?thesis using sys_inv_CloseClient [OF assms(2)] by blast
qed

lemma sys_inv_init: "sys_inv (server_init cfg)"
  by (simp add: sys_inv_def writing_ok_def server_init_def served_init)

lemma sys_reach_inv: "sys_reach cfg acc psh s \<Longrightarrow> sys_inv s"
  by (induction rule: sys_reach.induct) (auto intro: sys_inv_init sys_step_inv)

lemma sys_run_inv: "sys_run s a p s' \<Longrightarrow> sys_inv s \<Longrightarrow> sys_inv s'"
  by (induction rule: sys_run.induct) (auto intro: sys_step_inv)

end
