(* ===== verification/ServerHist.thy ===== *)
theory ServerHist
  imports ServerInv "HOL-Library.Multiset"
begin

text \<open>
  What a run has to do with what was sent: the messages on \<open>ToClientChan\<close> are those the API
  accepted, and the data frames on a connection are those of messages to its client id, in the
  order in which they were put on the channel.
\<close>

section \<open>Data frames\<close>

definition is_data :: "json \<Rightarrow> bool" where
  "is_data j = (case j of JObj ((key, _) # _) \<Rightarrow> key = ''messageId'' | _ \<Rightarrow> False)"

definition data_frames :: "json list \<Rightarrow> json list" where
  "data_frames fs = filter is_data fs"

definition frame_of :: "clientInfo \<Rightarrow> json" where
  "frame_of info = RetData (ci_MessageId info) (ci_Code info) (data_json (ci_Data info))"

lemma is_data_frame [simp]: "is_data (frame_of info)" "is_data keep_live_reply = False"
  "is_data (JObj [(''Type'', x), (''Data'', y)]) = False"
  by (simp_all add: is_data_def frame_of_def RetData_def keep_live_reply_def)

lemma data_frames_append [simp]: "data_frames (fs @ gs) = data_frames fs @ data_frames gs"
  "data_frames [] = []" "data_frames (j # fs) = (if is_data j then j # data_frames fs else data_frames fs)"
  by (simp_all add: data_frames_def)

text \<open>The frames of the messages of a list that go to one client id.\<close>

definition due :: "string \<Rightarrow> clientInfo list \<Rightarrow> json list" where
  "due i ms = map frame_of (filter (\<lambda>info. ci_ClientId info = i) ms)"

lemma due_append [simp]: "due i (ms @ ns) = due i ms @ due i ns" "due i [] = []"
  "due i (info # ms) = (if ci_ClientId info = i then frame_of info # due i ms else due i ms)"
  by (simp_all add: due_def)

section \<open>The invariant\<close>

text \<open>
  \<open>hist\<close> is what \<open>WriteMessage\<close> has taken off the channel; its last message is the one being
  delivered, and a connection still to be written to has frames of the ones before only.
\<close>

definition conn_hist :: "clientInfo list \<Rightarrow> server \<Rightarrow> cref \<Rightarrow> conn \<Rightarrow> bool" where
  "conn_hist hist s c k \<longleftrightarrow>
     subseq (data_frames (frames s k)) (due (ClientId (client_of s c)) hist) \<and>
     (\<forall>info cs. Writing s = Some (info, cs) \<longrightarrow> c \<in> set cs \<longrightarrow>
        subseq (data_frames (frames s k)) (due (ClientId (client_of s c)) (butlast hist)))"

definition hist_inv :: "clientInfo list \<Rightarrow> clientInfo list \<Rightarrow> server \<Rightarrow> bool" where
  "hist_inv acc psh s \<longleftrightarrow>
     mset acc = mset psh + mset (Senders s) \<and>
     (IsCluster (Config s) \<longrightarrow> acc = psh) \<and>
     (\<exists>hist. psh = hist @ ToClientChan s \<and>
        (\<forall>info cs. Writing s = Some (info, cs) \<longrightarrow> hist \<noteq> [] \<and> last hist = info) \<and>
        (\<forall>c k. allocated s c \<longrightarrow> Socket (client_of s c) = Some k \<longrightarrow> conn_hist hist s c k))"

text \<open>Steps that leave channel, writer and data frames alone.\<close>

lemma hist_inv_frame:
  assumes "hist_inv acc psh s"
    and "Senders s' = Senders s" and "IsCluster (Config s') = IsCluster (Config s)"
    and "ToClientChan s' = ToClientChan s" and "Writing s' = Writing s"
    and "\<And>c k. allocated s' c \<Longrightarrow> Socket (client_of s' c) = Some k \<Longrightarrow>
      (allocated s c \<and> Socket (client_of s c) = Some k \<and> ClientId (client_of s' c) = ClientId (client_of s c) \<and>
         data_frames (frames s' k) = data_frames (frames s k))
      \<or> data_frames (frames s' k) = []"
  shows "hist_inv acc psh s'"
proof -
  obtain hist where hist: "psh = hist @ ToClientChan s"
    "\<forall>info cs. Writing s = Some (info, cs) \<longrightarrow> hist \<noteq> [] \<and> last hist = info"
    "\<And>c k. allocated s c \<Longrightarrow> Socket (client_of s c) = Some k \<Longrightarrow> conn_hist hist s c k"
    using assms(1) unfolding hist_inv_def by blast
  have "conn_hist hist s' c k" if "allocated s' c" "Socket (client_of s' c) = Some k" for c k
    using assms(6) [OF that] hist(3) [of c k] assms(5) by (auto simp: conn_hist_def)
  then show ?thesis
    using assms(1-5) hist(1,2) unfolding hist_inv_def by auto
qed

lemma hist_inv_same:
  assumes "hist_inv acc psh s"
    and "Senders s' = Senders s" and "IsCluster (Config s') = IsCluster (Config s)"
    and "ToClientChan s' = ToClientChan s" and "Writing s' = Writing s" and "frames s' = frames s"
    and "next_client (Manager s') = next_client (Manager s)"
    and "\<And>c. Socket (client_of s' c) = Socket (client_of s c)"
    and "\<And>c. ClientId (client_of s' c) = ClientId (client_of s c)"
  shows "hist_inv acc psh s'"
  by (rule hist_inv_frame [OF assms(1-5)]) (simp_all add: assms allocated_def)

text \<open>What the pieces leave alone.\<close>

definition quiet :: "server \<Rightarrow> server \<Rightarrow> bool" where
  "quiet s s' \<longleftrightarrow>
     Senders s' = Senders s \<and> IsCluster (Config s') = IsCluster (Config s) \<and>
     ToClientChan s' = ToClientChan s \<and> Writing s' = Writing s \<and> frames s' = frames s \<and>
     next_client (Manager s') = next_client (Manager s) \<and>
     (\<forall>c. Socket (client_of s' c) = Socket (client_of s c)) \<and>
     (\<forall>c. ClientId (client_of s' c) = ClientId (client_of s c))"

lemma hist_inv_quiet: "quiet s s' \<Longrightarrow> hist_inv acc psh s \<Longrightarrow> hist_inv acc psh s'"
  unfolding quiet_def by (rule hist_inv_same) blast+

lemma quiet_trans: "quiet s s' \<Longrightarrow> quiet s' s'' \<Longrightarrow> quiet s s''"
  unfolding quiet_def by simp

lemma quiet_refl [simp]: "quiet s s" by (simp add: quiet_def)

lemma quiet_upd [simp]:
  "quiet s (s\<lparr>Handlers := hs\<rparr>)" "quiet s (s\<lparr>Readers := rs\<rparr>)" "quiet s (s\<lparr>closed := f\<rparr>)"
  "quiet s (s\<lparr>Broadcasts := bs\<rparr>)" "quiet s (s\<lparr>Outgoing := out\<rparr>)"
  by (simp_all add: quiet_def client_of_def)

lemma quiet_Manager:
  "clients m = clients (Manager s) \<Longrightarrow> next_client m = next_client (Manager s) \<Longrightarrow> quiet s (s\<lparr>Manager := m\<rparr>)"
  by (simp add: quiet_def client_of_def)

lemma quiet_send:
  "send_Connect c s = Returns s' \<Longrightarrow> quiet s s'" "send_DisConnect c s = Returns s' \<Longrightarrow> quiet s s'"
  by (auto simp: send_iff intro: quiet_Manager)

lemma quiet_with_outbox: "with_outbox f s = Returns s' \<Longrightarrow> quiet s s'"
  by (auto simp: with_outbox_def split: outcome.splits)

lemma quiet_CloseClient: "CloseClient dial i sys addr s = Returns s' \<Longrightarrow> quiet s s'"
  by (auto simp: CloseClient_def CloseLocalClient_def intro: quiet_send quiet_with_outbox
      split: if_splits fallible.splits prod.splits sum.splits option.splits)

lemma quiet_ping: "ping_one up c s = Returns s' \<Longrightarrow> quiet s s'"
  by (auto simp: ping_one_def intro: quiet_send split: option.splits if_splits)

lemma quiet_SendMessage2Group: "quiet s (snd (SendMessage2Group r call s))"
  by (simp add: SendMessage2Group_def Let_def)

lemma quiet_notify: "quiet s (notify_groups rs cl gs s)"
proof (induction rs cl gs s rule: notify_groups.induct)
  case (2 rs cl g gs s)
  then show ?case using quiet_trans [OF quiet_SendMessage2Group] by simp
qed simp

lemma quiet_Start:
  assumes "sys_inv s" and "Start pick rs s = Returns s'"
  shows "quiet s s'"
proof -
  obtain e s1 where e: "recv_event pick s = Some (e, s1)"
    using assms(2) by (auto simp: Start_def split: option.splits)
  show ?thesis
  proof (cases e)
    case (Inl c)
    then have "recv_Connect s = Some (c, s1)"
      using e by (auto simp: recv_event_def split: option.splits if_splits)
    then have "quiet s s1" by (auto simp: recv_iff intro: quiet_Manager)
    moreover have "quiet s1 (EventConnect c s1)" unfolding EventConnect_def by (rule quiet_Manager) simp_all
    ultimately show ?thesis using assms(2) e Inl quiet_trans by (auto simp: Start_def)
  next
    case (Inr c)
    then have "recv_DisConnect s = Some (c, s1)"
      using e by (auto simp: recv_event_def split: option.splits if_splits)
    then have q1: "quiet s s1" by (auto simp: recv_iff intro: quiet_Manager)
    have inv1: "sys_inv s1" "allocated s1 c"
      using sys_inv_recv(2) [OF assms(1) \<open>recv_DisConnect s = Some (c, s1)\<close>] by simp_all
    note del = DelClient_served [OF sys_invD(1) [OF inv1(1)] inv1(2) [unfolded allocated_def]]
    have s': "EventDisconnect rs c s1 = Returns s'" using assms(2) e Inr by (simp add: Start_def)
    then obtain k where k: "Socket (client_of s1 c) = Some k"
      by (auto simp: EventDisconnect_def split: option.splits)
    define s2 where "s2 = s1\<lparr>closed := (closed s1)(k := True), Manager := DelClient (Some c) (Manager s1)\<rparr>"
    define s3 where "s3 = notify_groups rs (client_of s2 c) (GroupList (client_of s2 c)) s2"
    have eq: "s' = s3\<lparr>Manager := set_client c ((client_of s3 c)\<lparr>IsDeleted := True\<rparr>) (Manager s3)\<rparr>"
      using s' k by (simp add: EventDisconnect_def Let_def s2_def s3_def)
    have "quiet s1 s2" using del by (simp add: s2_def quiet_def client_of_def)
    moreover have "quiet s2 s3" unfolding s3_def by (rule quiet_notify)
    moreover have "quiet s3 s'" by (simp add: eq quiet_def client_of_def)
    ultimately show ?thesis using q1 quiet_trans by blast
  qed
qed

lemma quiet_GetOnlineList:
  "GetOnlineList dial answer arrival sys grp s = Returns (j, s') \<or>
   GetOnlineList dial answer arrival sys grp s = Blocks (j, s') \<Longrightarrow> quiet s s'"
  by (auto simp: GetOnlineList_def GetOnlineListBroadcast_def hold_lock_def Let_def quiet_def client_of_def IsCluster_def
      split: if_splits option.splits prod.splits)

text \<open>Writes of frames that are no data.\<close>

lemma hist_inv_other_frame:
  assumes "hist_inv acc psh s" and "write_json up k j s = (ok, s')" and "\<not> is_data j"
  shows "hist_inv acc psh s'"
  using assms(2)
  by (intro hist_inv_frame [OF assms(1)])
    (auto simp: write_json_iff client_of_def allocated_def assms(3) split: if_splits)

lemma hist_inv_handle_message:
  assumes "hist_inv acc psh s"
  shows "hist_inv acc psh (handle_message up k receive s)"
  using hist_inv_other_frame [OF assms, of up k keep_live_reply]
  by (cases "write_json up k keep_live_reply s") (simp add: handle_message_def assms)

lemma hist_inv_Read_round:
  assumes "hist_inv acc psh s" and "Read_round up c result s = Returns s'"
  shows "hist_inv acc psh s'"
proof -
  have "quiet s (reader_done c s)" by (simp add: reader_done_def)
  moreover have "quiet s (reader_done c s1)" if "send_DisConnect c s = Returns s1" for s1
    using quiet_trans [OF quiet_send(2) [OF that]] by (simp add: reader_done_def)
  ultimately show ?thesis
    using assms(2) hist_inv_quiet [OF _ assms(1)] hist_inv_handle_message [OF assms(1)]
    by (auto simp: Read_round_def outcome_then_Returns split: option.splits read_result.splits if_splits)
qed

text \<open>The steps of the message queue.\<close>

lemma hist_invE:
  assumes "hist_inv acc psh s"
  obtains hist where "psh = hist @ ToClientChan s" and "mset acc = mset psh + mset (Senders s)"
    and "IsCluster (Config s) \<longrightarrow> acc = psh"
    and "\<And>info cs. Writing s = Some (info, cs) \<Longrightarrow> hist \<noteq> [] \<and> last hist = info"
    and "\<And>c k. allocated s c \<Longrightarrow> Socket (client_of s c) = Some k \<Longrightarrow> conn_hist hist s c k"
  using assms unfolding hist_inv_def by blast

lemma hist_inv_push:
  assumes "hist_inv acc psh s"
    and "mset acc' = mset (psh @ [info]) + mset (Senders s')" and "IsCluster (Config s) \<longrightarrow> acc' = psh @ [info]"
    and "ToClientChan s' = ToClientChan s @ [info]" and "Writing s' = Writing s" and "Config s' = Config s"
    and "frames s' = frames s" and "Manager s' = Manager s"
  shows "hist_inv acc' (psh @ [info]) s'"
proof (rule hist_invE [OF assms(1)])
  fix hist
  assume hist: "psh = hist @ ToClientChan s"
    and w: "\<And>info cs. Writing s = Some (info, cs) \<Longrightarrow> hist \<noteq> [] \<and> last hist = info"
    and conn: "\<And>c k. allocated s c \<Longrightarrow> Socket (client_of s c) = Some k \<Longrightarrow> conn_hist hist s c k"
  have "conn_hist hist s' c k" if "allocated s' c" "Socket (client_of s' c) = Some k" for c k
    using conn [of c k] that assms(5,7,8) by (simp add: conn_hist_def allocated_def client_of_def)
  then show ?thesis
    using assms(2-6) hist w unfolding hist_inv_def by (intro conjI exI [of _ hist]) auto
qed

lemma hist_inv_SendMessage2Client:
  assumes "hist_inv acc psh s" and "SendMessage2Client r i u code msg data s = (mid, Returns s')"
  defines "info \<equiv> message_of r i u code msg data"
  shows "hist_inv (acc @ accepted s info) (psh @ queued_at_once s info) s'"
proof -
  note inv = assms(1) [unfolded hist_inv_def]
  note s' = SendMessage2Client_Returns(2) [OF assms(2), folded info_def]
  consider (single) "\<not> IsCluster (Config s)" | (local) "IsCluster (Config s)" "ours (Config s) (ci_ClientId info)"
    | (nothing) "IsCluster (Config s)" "\<not> ours (Config s) (ci_ClientId info)" by blast
  then show ?thesis
  proof cases
    case single
    then show ?thesis
      using inv s' by (simp add: accepted_def queued_at_once_def hist_inv_def conn_hist_def allocated_def client_of_def)
  next
    case local
    have "mset acc = mset psh + mset (Senders s)" and "acc = psh" using inv local(1) by blast+
    then have "hist_inv (acc @ [info]) (psh @ [info]) s'"
      using local s' by (intro hist_inv_push [OF assms(1)]) (simp_all add: queued_at_once_def)
    then show ?thesis using local by (simp add: accepted_def queued_at_once_def)
  next
    case nothing
    then show ?thesis using assms(1) s' by (simp add: accepted_def queued_at_once_def)
  qed
qed

lemma hist_inv_sender:
  assumes "hist_inv acc psh s" and "info \<in> set (Senders s)" and "send_client info s = Returns s1"
  shows "hist_inv acc (psh @ [info]) (s1\<lparr>Senders := remove1 info (Senders s1)\<rparr>)"
proof -
  have s1: "s1 = s\<lparr>ToClientChan := ToClientChan s @ [info]\<rparr>" using assms(3) by (simp add: send_iff)
  have acc: "mset acc = mset psh + mset (Senders s)" "IsCluster (Config s) \<longrightarrow> acc = psh"
    using assms(1) by (auto simp: hist_inv_def)
  have "\<not> IsCluster (Config s)" using acc assms(2) by auto
  then show ?thesis
    using acc assms(2) by (intro hist_inv_push [OF assms(1)]) (auto simp: s1)
qed

lemma hist_inv_fetch:
  assumes "hist_inv acc psh s" and "Writing s = None" and "recv_client s = Some (info, s1)" and "sys_inv s"
  shows "hist_inv acc psh (s1\<lparr>Writing := Some (info, cs)\<rparr>)"
proof (rule hist_invE [OF assms(1)])
  fix hist
  assume hist: "psh = hist @ ToClientChan s" "mset acc = mset psh + mset (Senders s)"
      "IsCluster (Config s) \<longrightarrow> acc = psh"
    and conn: "\<And>c k. allocated s c \<Longrightarrow> Socket (client_of s c) = Some k \<Longrightarrow> conn_hist hist s c k"
  have s1: "ToClientChan s = info # ToClientChan s1" "s1 = s\<lparr>ToClientChan := tl (ToClientChan s)\<rparr>"
    using assms(3) by (auto simp: recv_iff)
  have "conn_hist (hist @ [info]) (s1\<lparr>Writing := Some (info, cs)\<rparr>) c k"
    if "allocated s c" "Socket (client_of s c) = Some k" for c k
    using conn [OF that] by (auto simp: conn_hist_def s1(2) client_of_def intro: subseq_order.trans)
  moreover have "frames s1 = frames s" "Senders s1 = Senders s" "Config s1 = Config s" "Manager s1 = Manager s"
    by (simp_all add: s1(2))
  ultimately show ?thesis
    using hist s1(1) unfolding hist_inv_def
    by (intro conjI exI [of _ "hist @ [info]"]) (auto simp: allocated_def client_of_def)
qed

lemma write_one_cases:
  assumes "write_one up info c s = Returns s'" and "Socket (client_of s c) = Some k"
  shows "s' = s\<lparr>frames := (frames s)(k := frames s k @ [frame_of info])\<rparr> \<and> \<not> closed s k \<and> up k \<or>
    send_DisConnect c s = Returns s' \<and> (closed s k \<or> \<not> up k)"
  using assms by (auto simp: write_one_def Render_def write_json_def frame_of_def split: if_splits)

lemma hist_inv_deliver:
  assumes inv: "hist_inv acc psh s" and sys: "sys_inv s" and w: "Writing s = Some (info, c # cs)"
    and one: "write_one up info c s = Returns s1"
  shows "hist_inv acc psh (s1\<lparr>Writing := Some (info, cs)\<rparr>)"
proof (rule hist_invE [OF inv])
  fix hist
  assume hist: "psh = hist @ ToClientChan s" "mset acc = mset psh + mset (Senders s)"
      "IsCluster (Config s) \<longrightarrow> acc = psh"
    and lst: "\<And>info cs. Writing s = Some (info, cs) \<Longrightarrow> hist \<noteq> [] \<and> last hist = info"
    and conn: "\<And>c k. allocated s c \<Longrightarrow> Socket (client_of s c) = Some k \<Longrightarrow> conn_hist hist s c k"
  have hist_last: "hist = butlast hist @ [info]" using lst [OF w] append_butlast_last_id [of hist] by auto
  have c: "allocated s c" "ClientId (client_of s c) = ci_ClientId info" "c \<notin> set cs"
    using sys_invD(9) [OF sys] w by (auto simp: writing_ok_def)
  obtain k where k: "Socket (client_of s c) = Some k"
    using one by (auto simp: write_one_def split: option.splits)
  let ?s' = "s1\<lparr>Writing := Some (info, cs)\<rparr>"
  have same: "Senders s1 = Senders s" "Config s1 = Config s" "ToClientChan s1 = ToClientChan s"
    "\<And>d. allocated s1 d = allocated s d" "\<And>d. client_of s1 d = client_of s d"
    using write_one_cases [OF one k] by (auto simp: send_iff client_of_def)
  have frm: "frames s1 j = frames s j @ (if j = k \<and> \<not> closed s k \<and> up k then [frame_of info] else [])" for j
    using write_one_cases [OF one k] by (auto simp: send_iff)
  have "conn_hist hist ?s' d j" if d: "allocated s d" "Socket (client_of s d) = Some j" for d j
  proof (cases "d = c")
    case True
    then have "j = k" using d(2) k by simp
    have "subseq (data_frames (frames s k)) (due (ci_ClientId info) (butlast hist))"
      using conn [OF c(1) k] w c(2) by (simp add: conn_hist_def)
    then have "subseq (data_frames (frames s k) @ [frame_of info]) (due (ci_ClientId info) (butlast hist) @ [frame_of info])"
      by (intro list_emb_append_mono) auto
    moreover have "due (ci_ClientId info) hist = due (ci_ClientId info) (butlast hist) @ [frame_of info]"
      by (subst hist_last) simp
    moreover have "subseq (data_frames (frames s k)) (due (ci_ClientId info) hist)"
      using conn [OF c(1) k] c(2) by (simp add: conn_hist_def)
    ultimately show ?thesis
      using c \<open>j = k\<close> True same(5) by (auto simp: conn_hist_def client_of_def frm)
  next
    case False
    then have "j \<noteq> k"
      using servedD(7) [OF sys_invD(1) [OF sys], of d c j] d k c(1)
      by (auto simp: allocated_def client_of_def)
    then show ?thesis
      using conn [OF d] w same(5) by (auto simp: conn_hist_def client_of_def frm)
  qed
  then show ?thesis
    using hist lst [OF w] same unfolding hist_inv_def
    by (intro conjI exI [of _ hist]) (auto simp: allocated_def client_of_def)
qed

lemma hist_inv_accept:
  assumes "hist_inv acc psh s" and "fresh_conn s k" and run: "Run_open grow up r (Some k) now s = (Some c, s1)"
  shows "hist_inv acc psh s1"
proof (rule hist_inv_frame [OF assms(1)])
  let ?i = "system_id_of r"
  note open_c = Run_open_Some [OF run]
  show "Senders s1 = Senders s" "IsCluster (Config s1) = IsCluster (Config s)"
    "ToClientChan s1 = ToClientChan s" "Writing s1 = Writing s" by (simp_all add: open_c(3))
  fix d j
  assume d: "allocated s1 d" "Socket (client_of s1 d) = Some j"
  have cl: "client_of s1 d = (if d = c then NewClient ?i (RemoteAddr r) ?i (Some k) now else client_of s d)"
    "allocated s1 d \<longleftrightarrow> d \<le> c" "frames s1 = frames s"
    by (simp_all add: open_c(3) client_of_def allocated_def new_client_def less_Suc_eq_le flip: open_c(2))
  show "allocated s d \<and> Socket (client_of s d) = Some j \<and> ClientId (client_of s1 d) = ClientId (client_of s d) \<and>
      data_frames (frames s1 j) = data_frames (frames s j) \<or> data_frames (frames s1 j) = []"
    using d assms(2) cl open_c(2) by (auto simp: fresh_conn_def allocated_def split: if_splits)
qed

lemma hist_inv_refuse:
  assumes "hist_inv acc psh s" and "fresh_conn s k" and run: "Run_open grow up r (Some k) now s = (None, s')"
  shows "hist_inv acc psh s'"
proof (rule hist_inv_frame [OF assms(1)])
  have core: "core s' = core s" by (rule Run_open_None [OF run])
  show "ToClientChan s' = ToClientChan s" "Writing s' = Writing s" using core_fields [OF core] by simp_all
  show "Senders s' = Senders s" "IsCluster (Config s') = IsCluster (Config s)"
    using run by (auto simp: Run_open_def Render_def write_json_def Let_def new_client_def split: if_splits prod.splits)
  have frames: "frames s' j = frames s j" if "j \<noteq> k" for j
    using run that by (auto simp: Run_open_def Render_def write_json_def Let_def new_client_def split: if_splits prod.splits)
  fix d j
  assume "allocated s' d" "Socket (client_of s' d) = Some j"
  then have d: "allocated s d" "Socket (client_of s d) = Some j" "client_of s' d = client_of s d"
    using core_fields(1) [OF core] by (simp_all add: allocated_def client_of_def)
  then have "j \<noteq> k" using assms(2) by (auto simp: fresh_conn_def allocated_def)
  then show "allocated s d \<and> Socket (client_of s d) = Some j \<and> ClientId (client_of s' d) = ClientId (client_of s d) \<and>
      data_frames (frames s' j) = data_frames (frames s j) \<or> data_frames (frames s' j) = []"
    using d frames by simp
qed

lemma hist_inv_greet:
  assumes "hist_inv acc psh s" and "Run_greet up c s = (ok, s')"
  shows "hist_inv acc psh s'"
proof (cases "Socket (client_of s c)")
  case None
  then show ?thesis using assms by (simp add: Run_greet_def)
next
  case (Some k)
  obtain b s1 where w: "write_json up k (JObj [(''Type'', JStr ''Link''), (''Data'', JStr msg_connected)]) s = (b, s1)"
    by fastforce
  have "hist_inv acc psh s1" by (rule hist_inv_other_frame [OF assms(1) w]) simp
  moreover have "quiet s1 s'" using assms(2) Some w by (auto simp: Run_greet_def ConnRender_def split: if_splits)
  ultimately show ?thesis using hist_inv_quiet by blast
qed

lemma hist_inv_Handlers: "hist_inv acc psh s \<Longrightarrow> hist_inv acc psh (s\<lparr>Handlers := hs\<rparr>)"
  by (rule hist_inv_quiet [OF quiet_upd(1)])

lemma sys_step_hist:
  assumes "sys_step s a p s'" and "sys_inv s" and "hist_inv acc psh s"
  shows "hist_inv (acc @ a) (psh @ p) s'"
  using assms(1)
proof (cases rule: sys_step.cases)
  case (refuse k grow up r now)
  then show ?thesis using hist_inv_refuse [OF assms(3)] by simp
next
  case (accept k grow up r now c s1)
  then show ?thesis using hist_inv_accept [OF assms(3)] hist_inv_Handlers by simp
next
  case (greet c up ok s1)
  then show ?thesis using hist_inv_greet [OF assms(3)] hist_inv_Handlers by simp
next
  case (connect c s1)
  then show ?thesis using hist_inv_quiet [OF quiet_send(1) assms(3)] hist_inv_Handlers by simp
next
  case (read c up result)
  then show ?thesis using hist_inv_Read_round [OF assms(3)] by simp
next
  case (event pick rs)
  then show ?thesis using hist_inv_quiet [OF quiet_Start [OF assms(2)] assms(3)] by simp
next
  case (send r i u code msg data mid)
  then show ?thesis using hist_inv_SendMessage2Client [OF assms(3) send(3)] by simp
next
  case (sender info s1)
  then show ?thesis using hist_inv_sender [OF assms(3)] by simp
next
  case (fetch info s1 order)
  then show ?thesis using hist_inv_fetch [OF assms(3) _ _ assms(2)] by simp
next
  case (deliver info c cs up s1)
  then show ?thesis using hist_inv_deliver [OF assms(3,2)] by simp
next
  case (delivered info)
  then show ?thesis
    using assms(3) by (auto simp: hist_inv_def conn_hist_def allocated_def client_of_def)
next
  case (tick keys)
  note frame = AllClient_frame [OF servedD(1) [OF sys_invD(1) [OF assms(2)]] tick(4)]
  show ?thesis using hist_inv_quiet [OF quiet_Manager assms(3)] frame(4,5) tick by simp
next
  case (ping c up)
  then show ?thesis using hist_inv_quiet [OF quiet_ping assms(3)] by simp
next
  case (close dial i sys addr)
  then show ?thesis using hist_inv_quiet [OF quiet_CloseClient assms(3)] by simp
next
  case (group r call mid)
  then have "s' = snd (SendMessage2Group r call s)" by simp
  then show ?thesis using hist_inv_quiet [OF quiet_SendMessage2Group assms(3)] group(1,2) by simp
next
  case (system dial order r sys u code msg data)
  then have "quiet s s'"
    by (auto simp: SendMessage2System_def Let_def intro: quiet_with_outbox split: if_splits)
  then show ?thesis using hist_inv_quiet [OF _ assms(3)] system by simp
next
  case (broadcast b dial order s1)
  then have "quiet s s1" by (auto simp: run_broadcast_def intro: quiet_with_outbox)
  then have "quiet s s'" unfolding broadcast(3) by (rule quiet_trans) simp
  then show ?thesis using hist_inv_quiet [OF _ assms(3)] broadcast by simp
next
  case (online dial answer arrival sys grp j)
  then show ?thesis using hist_inv_quiet [OF quiet_GetOnlineList assms(3)] by simp
next
  case (servers l)
  then have "quiet s s'" by (simp add: quiet_def client_of_def IsCluster_def)
  then show ?thesis using hist_inv_quiet [OF _ assms(3)] servers by simp
qed

lemma sys_reach_hist: "sys_reach cfg acc psh s \<Longrightarrow> hist_inv acc psh s"
proof (induction rule: sys_reach.induct)
  case start
  then show ?case by (simp add: hist_inv_def server_init_def allocated_def)
next
  case (step acc psh s a p s')
  then show ?case using sys_step_hist sys_reach_inv by blast
qed

end
