(* ===== verification/ServerFacts.thy ===== *)
theory ServerFacts
  imports ServerHist
begin

text \<open>
  The properties of the server process: what reaches a connection and in which order, groups and
  systems, closing from outside, and sending in a cluster.
\<close>

section \<open>A run to look at\<close>

text \<open>A server on its own, with one connection of the system im, and two messages to it.\<close>

definition cfg1 :: setting where
  "cfg1 = \<lparr>CommonSetting = \<lparr>HttpPort = ''7800'', RPCPort = ''7900'', Cluster = False, CryptoKey = ''Adba723b7fe06819''\<rparr>,
     EtcdSetting = \<lparr>Endpoints = []\<rparr>,
     GlobalSetting = \<lparr>LocalHost = ''10.0.0.1'', ServerList = fmempty, ServerListLock = False\<rparr>\<rparr>"

definition req1 :: request where
  "req1 = \<lparr>form_systemId = ''im'', form_token = [], RemoteAddr = ''1.2.3.4:5''\<rparr>"

definition grow1 :: growth where "grow1 n k = 2 * n"

definition cl1 :: client where "cl1 = NewClient ''im'' ''1.2.3.4:5'' ''im'' (Some 7) 100"

definition m1 :: manager where
  "m1 = AddClient2SystemClient grow1 ''im'' ''1.2.3.4:5'' 0 (snd (new_client cl1 NewClientManager))"

definition srv1 :: server where
  "srv1 = (server_init cfg1)\<lparr>Manager := m1, Readers := [0], Handlers := [(0, False)]\<rparr>"

definition msg :: "string \<Rightarrow> (nat \<Rightarrow> byte) \<Rightarrow> clientInfo" where
  "msg d r = \<lparr>ci_ClientId = ''im'', ci_SendUserId = [], ci_MessageId = GenUUID r, ci_Code = ''chat'',
     ci_Msg = [], ci_Data = Some d\<rparr>"

definition msgA :: clientInfo where "msgA = msg ''a'' (\<lambda>_. 0)"
definition msgB :: clientInfo where "msgB = msg ''b'' (\<lambda>_. 1)"

lemma srv1_step: "sys_step (server_init cfg1) [] [] srv1"
proof -
  have "fresh_conn (server_init cfg1) 7" by (simp add: fresh_conn_def server_init_def)
  moreover have "Run_open grow1 (\<lambda>_. True) req1 (Some 7) 100 (server_init cfg1) =
      (Some 0, (server_init cfg1)\<lparr>Manager := m1, Readers := [0]\<rparr>)"
    by (simp add: Run_open_def req1_def system_id_of_def m1_def cl1_def new_client_def server_init_def
        Let_def)
  ultimately show ?thesis
    using sys_step.accept by (fastforce simp: srv1_def server_init_def)
qed

lemma srv1_reach: "sys_reach cfg1 [] [] srv1"
  using sys_reach.step [OF sys_reach.start srv1_step] by simp

lemma m1_facts [simp]:
  "table m1 = [''im'' \<mapsto> fmupd ''1.2.3.4:5'' 0 fmempty]" "clients m1 0 = cl1" "next_client m1 = 1"
  "DisConnect m1 = []" "Connect m1 = []"
proof -
  let ?m = "snd (new_client cl1 NewClientManager)"
  have m: "clients ?m 0 = cl1" "next_client ?m = 1" "table ?m = (\<lambda>_. None)"
    by (simp_all add: new_client_def table_def [abs_def]) (simp add: NewClientManager_def)
  have "refs_inv ?m"
    using new_client_inv [OF mgr_inv_init] mgr_invD(1) by blast
  then show "table m1 = [''im'' \<mapsto> fmupd ''1.2.3.4:5'' 0 fmempty]"
    using table_AddClient [of ?m 0] m
    by (simp add: m1_def conns_after_add_def old_conns_def cl1_def)
  show "clients m1 0 = cl1" "next_client m1 = 1" using m by (simp_all add: m1_def)
  have "Connect ?m = []" "DisConnect ?m = []" by (simp_all add: new_client_def)
  then show "DisConnect m1 = []" "Connect m1 = []"
    by (simp_all add: m1_def AddClient2SystemClient_store Let_def)
qed

lemma srv1_facts [simp]:
  "Manager srv1 = m1" "ToClientChan srv1 = []" "Config srv1 = cfg1" "frames srv1 = (\<lambda>_. [])"
  "closed srv1 = (\<lambda>_. False)" "Senders srv1 = []" "Writing srv1 = None" "client_of srv1 0 = cl1"
  "Socket cl1 = Some 7" "ClientId cl1 = ''im''" "IsCluster cfg1 = False"
  "Readers srv1 = [0]"
  by (simp_all add: srv1_def server_init_def client_of_def cl1_def IsCluster_def cfg1_def)

text \<open>Both messages are accepted, the goroutine of the second one runs first.\<close>

definition srv2 :: server where
  "srv2 = srv1\<lparr>ToClientChan := [msgB, msgA]\<rparr>"

lemma srv2_reach: "sys_reach cfg1 [msgA, msgB] [msgB, msgA] srv2"
proof -
  let ?s2 = "srv1\<lparr>Senders := [msgA]\<rparr>" and ?s3 = "srv1\<lparr>Senders := [msgA, msgB]\<rparr>"
  let ?s4 = "srv1\<lparr>ToClientChan := [msgB], Senders := [msgA]\<rparr>"
  have "SendMessage2Client (\<lambda>_. 0) ''im'' [] ''chat'' [] (Some ''a'') srv1 = (GenUUID (\<lambda>_. 0), Returns ?s2)"
    by (simp add: SendMessage2Client_def Let_def msgA_def msg_def)
  from sys_reach.step [OF srv1_reach send [OF this]] have "sys_reach cfg1 [msgA] [] ?s2"
    by (simp add: accepted_def queued_at_once_def message_of_def msgA_def msg_def)
  moreover have "SendMessage2Client (\<lambda>_. 1) ''im'' [] ''chat'' [] (Some ''b'') ?s2 = (GenUUID (\<lambda>_. 1), Returns ?s3)"
    by (simp add: SendMessage2Client_def Let_def msgB_def msg_def)
  ultimately have r3: "sys_reach cfg1 [msgA, msgB] [] ?s3"
    using sys_reach.step [OF _ send]
    by (fastforce simp: accepted_def queued_at_once_def message_of_def msgB_def msg_def)
  have ne: "msgA \<noteq> msgB" by (simp add: msgA_def msgB_def msg_def)
  have "send_client msgB ?s3 = Returns (?s3\<lparr>ToClientChan := [msgB]\<rparr>)"
    by (simp add: send_client_def chan_send_def cap_ToClientChan_def)
  from sys_reach.step [OF r3 sender [OF _ this]] ne have r4: "sys_reach cfg1 [msgA, msgB] [msgB] ?s4"
    by simp
  have "send_client msgA ?s4 = Returns (?s4\<lparr>ToClientChan := [msgB, msgA]\<rparr>)"
    by (simp add: send_client_def chan_send_def cap_ToClientChan_def)
  from sys_reach.step [OF r4 sender [OF _ this]] show ?thesis
    by (simp add: srv2_def srv1_def server_init_def)
qed

section \<open>Member lists\<close>

text \<open>
  C34. In every reachable state no group exists and no client is in one, because nothing in the
  program joins a group; a client's id is the id of its system; and the list that
  \<open>GetSystemClientList\<close> returns for a system holds that id only, once or many times.
\<close>

theorem no_groups:
  assumes "sys_reach cfg acc psh s"
  shows "elems (arrays (Manager s)) (GetGroupClientList g (Manager s)) = [] \<and>
    (c < next_client (Manager s) \<longrightarrow> GroupList (client_of s c) = [] \<and>
       SystemId (client_of s c) = ClientId (client_of s c)) \<and>
    (\<exists>n. elems (arrays (Manager s)) (GetSystemClientList sys (Manager s)) = replicate n sys)"
proof -
  note served = sys_invD(1) [OF sys_reach_inv [OF assms]]
  have "\<exists>n. elems (arrays (Manager s)) (GetSystemClientList sys (Manager s)) = replicate n sys"
    using servedD(8) [OF served, of sys] by (simp add: members_def GetSystemClientList_def)
  then show ?thesis
    using servedD(2,3,5) [OF served] by (simp add: GetGroupClientList_def client_of_def)
qed

theorem no_groups_witness:
  "\<exists>n. elems (arrays m1) (GetSystemClientList ''im'' m1) = replicate n ''im''"
  using no_groups [OF srv1_reach] by simp

section \<open>Delivery\<close>

lemma reach_delivered:
  assumes "sys_reach cfg acc psh s"
    and "c < next_client (Manager s)" and "Socket (client_of s c) = Some k"
  shows "subseq (data_frames (frames s k)) (due (ClientId (client_of s c)) psh) \<and>
    mset acc = mset psh + mset (Senders s) \<and> (IsCluster (Config s) \<longrightarrow> acc = psh)"
proof (rule hist_invE [OF sys_reach_hist [OF assms(1)]])
  fix hist
  assume "psh = hist @ ToClientChan s" and "mset acc = mset psh + mset (Senders s)"
    and "IsCluster (Config s) \<longrightarrow> acc = psh"
    and "\<And>c k. allocated s c \<Longrightarrow> Socket (client_of s c) = Some k \<Longrightarrow> conn_hist hist s c k"
  then show ?thesis
    using assms(2,3) by (auto simp: conn_hist_def allocated_def intro: subseq_order.trans)
qed

text \<open>
  C1. In every run, the messages put on \<open>ToClientChan\<close> together with those whose goroutine has not
  run yet are the messages accepted by \<open>SendMessage2Client\<close>, in a cluster in the same order; and
  the data frames on the connection of a client are frames of messages put on the channel for
  that client's id, in the order in which they were put there, none of them twice.
\<close>

theorem delivered_in_channel_order:
  assumes "sys_reach cfg acc psh s"
    and "c < next_client (Manager s)" and "Socket (client_of s c) = Some k"
  shows "subseq (data_frames (frames s k)) (due (ClientId (client_of s c)) psh) \<and>
    mset acc = mset psh + mset (Senders s) \<and> (IsCluster (Config s) \<longrightarrow> acc = psh)"
  by (rule reach_delivered [OF assms])

theorem delivered_in_channel_order_witness:
  "subseq (data_frames (frames srv2 7)) (due ''im'' [msgB, msgA]) \<and> mset [msgA, msgB] = mset [msgB, msgA] + mset (Senders srv2)"
  using delivered_in_channel_order [OF srv2_reach, of 0 7] by (simp add: srv2_def client_of_def)

text \<open>
  C33. On a server on its own the order of two messages may be reversed: there is a run in which
  \<open>SendMessage2Client\<close> accepts a first and a second message to the same client id and the
  connection gets the frame of the second one first.
\<close>

theorem single_mode_reorders:
  "\<exists>cfg s k first second. sys_reach cfg [first, second] [second, first] s \<and>
     ci_ClientId first = ci_ClientId second \<and> frame_of first \<noteq> frame_of second \<and>
     data_frames (frames s k) = [frame_of second, frame_of first]"
proof -
  let ?s3 = "srv1\<lparr>ToClientChan := [msgA], Writing := Some (msgB, [0])\<rparr>"
  let ?s4 = "srv1\<lparr>ToClientChan := [msgA], Writing := Some (msgB, []), frames := (\<lambda>_. [])(7 := [frame_of msgB])\<rparr>"
  let ?s5 = "?s4\<lparr>Writing := None\<rparr>"
  let ?s6 = "?s5\<lparr>ToClientChan := [], Writing := Some (msgA, [0])\<rparr>"
  let ?s7 = "?s6\<lparr>frames := (\<lambda>_. [])(7 := [frame_of msgB, frame_of msgA]), Writing := Some (msgA, [])\<rparr>"
  have ids: "ci_ClientId msgA = ''im''" "ci_ClientId msgB = ''im''" by (simp_all add: msgA_def msgB_def msg_def)
  have tgt: "targets [''1.2.3.4:5''] ''im'' s = [0]" if "Manager s = m1" for s
    using that by (simp add: targets_def GetByClientId_table)
  have "recv_client srv2 = Some (msgB, srv1\<lparr>ToClientChan := [msgA]\<rparr>)"
    by (simp add: recv_client_def srv2_def)
  from sys_reach.step [OF srv2_reach fetch [OF _ this, of "[''1.2.3.4:5'']"]]
  have r3: "sys_reach cfg1 [msgA, msgB] [msgB, msgA] ?s3" by (simp add: srv2_def ids tgt)
  have "write_one (\<lambda>_. True) msgB 0 ?s3 = Returns (?s3\<lparr>frames := (\<lambda>_. [])(7 := [frame_of msgB])\<rparr>)"
    by (simp add: write_one_def client_of_def Render_def write_json_def frame_of_def)
  from sys_reach.step [OF r3 deliver [OF _ this]]
  have "sys_reach cfg1 [msgA, msgB] [msgB, msgA] ?s4" by (simp add: srv1_def server_init_def)
  from sys_reach.step [OF this delivered]
  have r5: "sys_reach cfg1 [msgA, msgB] [msgB, msgA] ?s5" by simp
  have "recv_client ?s5 = Some (msgA, ?s5\<lparr>ToClientChan := []\<rparr>)" by (simp add: recv_client_def)
  from sys_reach.step [OF r5 fetch [OF _ this, of "[''1.2.3.4:5'']"]]
  have r6: "sys_reach cfg1 [msgA, msgB] [msgB, msgA] ?s6" by (simp add: ids tgt)
  have "write_one (\<lambda>_. True) msgA 0 ?s6 = Returns (?s6\<lparr>frames := (\<lambda>_. [])(7 := [frame_of msgB, frame_of msgA])\<rparr>)"
    by (simp add: write_one_def client_of_def Render_def write_json_def frame_of_def)
  from sys_reach.step [OF r6 deliver [OF _ this]]
  have "sys_reach cfg1 [msgA, msgB] [msgB, msgA] ?s7" by simp
  moreover have "frame_of msgA \<noteq> frame_of msgB"
    by (simp add: msgA_def msgB_def msg_def frame_of_def RetData_def data_json_def)
  ultimately show ?thesis
    by (intro exI [of _ cfg1] exI [of _ ?s7] exI [of _ 7] exI [of _ msgA] exI [of _ msgB]) (simp add: ids)
qed

section \<open>One round of WriteMessage\<close>

text \<open>A connection that a write fails on.\<close>

definition dead :: "(conn \<Rightarrow> bool) \<Rightarrow> server \<Rightarrow> cref \<Rightarrow> bool" where
  "dead up s c \<longleftrightarrow> (case Socket (client_of s c) of None \<Rightarrow> False | Some k \<Rightarrow> closed s k \<or> \<not> up k)"

definition add_frame :: "json \<Rightarrow> conn set \<Rightarrow> (conn \<Rightarrow> json list) \<Rightarrow> conn \<Rightarrow> json list" where
  "add_frame j K f k = f k @ (if k \<in> K then [j] else [])"

definition socks :: "server \<Rightarrow> cref list \<Rightarrow> conn set" where
  "socks s cs = {k. \<exists>c \<in> set cs. Socket (client_of s c) = Some k}"

lemma dead_cong: "client_of s' = client_of s \<Longrightarrow> closed s' = closed s \<Longrightarrow> dead up s' = dead up s"
  by (rule ext) (simp add: dead_def split: option.split)

lemma write_all_effect:
  assumes "distinct cs" and "\<And>c. c \<in> set cs \<Longrightarrow> Socket (client_of s c) \<noteq> None"
    and "\<And>c d k. c \<in> set cs \<Longrightarrow> d \<in> set cs \<Longrightarrow> Socket (client_of s c) = Some k \<Longrightarrow>
      Socket (client_of s d) = Some k \<Longrightarrow> c = d"
    and "length (DisConnect (Manager s)) + length (filter (dead up s) cs) \<le> cap_DisConnect"
  shows "write_all up info cs s = Returns (s\<lparr>
      Manager := (Manager s)\<lparr>DisConnect := DisConnect (Manager s) @ filter (dead up s) cs\<rparr>,
      frames := add_frame (frame_of info) (socks s (filter (\<lambda>c. \<not> dead up s c) cs)) (frames s)\<rparr>)"
  using assms
proof (induction cs arbitrary: s)
  case Nil
  then show ?case by (simp add: socks_def add_frame_def [abs_def])
next
  case (Cons c cs)
  obtain k where k: "Socket (client_of s c) = Some k" using Cons.prems(2) by fastforce
  show ?case
  proof (cases "dead up s c")
    case True
    let ?s = "s\<lparr>Manager := (Manager s)\<lparr>DisConnect := DisConnect (Manager s) @ [c]\<rparr>\<rparr>"
    have cl: "client_of ?s = client_of s" by (simp add: client_of_def [abs_def])
    have dd: "dead up ?s = dead up s" by (rule dead_cong [OF cl]) simp
    have sk: "socks ?s = socks s" by (simp add: socks_def [abs_def] cl)
    have one: "write_one up info c s = Returns ?s"
      using True k Cons.prems(4)
      by (simp add: write_one_def dead_def Render_def write_json_def send_DisConnect_def chan_send_def)
    show ?thesis
      using Cons.IH [of ?s] Cons.prems True one unfolding cl dd sk by simp
  next
    case False
    let ?s = "s\<lparr>frames := add_frame (frame_of info) {k} (frames s)\<rparr>"
    have cl: "client_of ?s = client_of s" by (simp add: client_of_def [abs_def])
    have dd: "dead up ?s = dead up s" by (rule dead_cong [OF cl]) simp
    have sk: "socks ?s = socks s" by (simp add: socks_def [abs_def] cl)
    have one: "write_one up info c s = Returns ?s"
      using False k
      by (simp add: write_one_def dead_def Render_def write_json_def frame_of_def add_frame_def [abs_def])
        (auto simp: fun_eq_iff)
    have "k \<notin> socks s (filter (\<lambda>c. \<not> dead up s c) cs)"
      using Cons.prems(1,3) k by (auto simp: socks_def)
    moreover have "socks s (c # filter (\<lambda>c. \<not> dead up s c) cs) = insert k (socks s (filter (\<lambda>c. \<not> dead up s c) cs))"
      using k by (auto simp: socks_def)
    ultimately have fr: "add_frame (frame_of info) (socks s (filter (\<lambda>c. \<not> dead up s c) cs)) (frames ?s) =
        add_frame (frame_of info) (socks s (c # filter (\<lambda>c. \<not> dead up s c) cs)) (frames s)"
      by (auto simp: add_frame_def fun_eq_iff)
    show ?thesis
      using Cons.IH [of ?s] Cons.prems False one fr unfolding cl dd sk by simp
  qed
qed

lemma WriteMessage_effect:
  assumes inv: "sys_inv s" and "ToClientChan s = info # q"
    and "ranges order (old_conns (Manager s) (ci_ClientId info))"
    and "length (DisConnect (Manager s)) + map_len (old_conns (Manager s) (ci_ClientId info)) \<le> cap_DisConnect"
  shows "\<exists>cs. distinct cs \<and>
    set cs = {c. \<exists>a. fmlookup (old_conns (Manager s) (ci_ClientId info)) a = Some c} \<and>
    WriteMessage up order s = Returns (s\<lparr>
      Manager := (Manager s)\<lparr>DisConnect := DisConnect (Manager s) @ filter (dead up s) cs\<rparr>,
      ToClientChan := q,
      frames := add_frame (frame_of info) (socks s (filter (\<lambda>c. \<not> dead up s c) cs)) (frames s)\<rparr>)"
proof -
  let ?s1 = "s\<lparr>ToClientChan := q\<rparr>" and ?i = "ci_ClientId info"
  define cs where "cs = targets order ?i ?s1"
  have inv1: "sys_inv ?s1"
    using inv assms(2) by (auto simp: sys_inv_def writing_ok_def client_of_def)
  have cs_in: "c \<in> set cs \<longleftrightarrow> (\<exists>t. table (Manager s) ?i = Some t \<and> (\<exists>a \<in> set order. fmlookup t a = Some c))" for c
    by (simp add: cs_def targets_registered)
  have alloc: "c < next_client (Manager s)" if "c \<in> set cs" for c
    using that registered_allocated(1) [OF inv] by (auto simp: cs_in allocated_def)
  have set_cs: "set cs = {c. \<exists>a. fmlookup (old_conns (Manager s) ?i) a = Some c}"
  proof (rule set_eqI)
    fix c
    show "c \<in> set cs \<longleftrightarrow> c \<in> {c. \<exists>a. fmlookup (old_conns (Manager s) ?i) a = Some c}"
      using assms(3) by (cases "table (Manager s) ?i") (auto simp: cs_in old_conns_def ranges_def intro: fmdomI)
  qed
  have dist: "distinct cs"
    unfolding cs_def by (rule distinct_targets [OF inv1]) (use assms(3) in \<open>simp add: ranges_def\<close>)
  have "length cs \<le> length order"
    using length_map_filter_le by (auto simp: cs_def targets_def split: sum.splits)
  moreover have "length order = map_len (old_conns (Manager s) ?i)"
    using assms(3) distinct_card unfolding ranges_def map_len_def fcard.rep_eq by metis
  ultimately have "length (filter (dead up s) cs) \<le> map_len (old_conns (Manager s) ?i)"
    using length_filter_le [of "dead up s" cs] by linarith
  then have room: "length (DisConnect (Manager s)) + length (filter (dead up s) cs) \<le> cap_DisConnect"
    using assms(4) by linarith
  have cl: "client_of ?s1 = client_of s" by (simp add: client_of_def [abs_def])
  have dd: "dead up ?s1 = dead up s" by (rule dead_cong [OF cl]) simp
  have sk: "socks ?s1 = socks s" by (simp add: socks_def [abs_def] cl)
  note served = sys_invD(1) [OF inv]
  have "write_all up info cs ?s1 = Returns (?s1\<lparr>
      Manager := (Manager ?s1)\<lparr>DisConnect := DisConnect (Manager ?s1) @ filter (dead up ?s1) cs\<rparr>,
      frames := add_frame (frame_of info) (socks ?s1 (filter (\<lambda>c. \<not> dead up ?s1 c) cs)) (frames ?s1)\<rparr>)"
    using servedD(6,7) [OF served] alloc dist room
    by (intro write_all_effect) (auto simp: client_of_def dd)
  then have "WriteMessage up order s = Returns (s\<lparr>
      Manager := (Manager s)\<lparr>DisConnect := DisConnect (Manager s) @ filter (dead up s) cs\<rparr>,
      ToClientChan := q,
      frames := add_frame (frame_of info) (socks s (filter (\<lambda>c. \<not> dead up s c) cs)) (frames s)\<rparr>)"
    unfolding dd sk using assms(2) by (simp add: WriteMessage_def recv_client_def cs_def)
  then show ?thesis using dist set_cs by blast
qed

text \<open>
  C9. One round of \<open>WriteMessage\<close> in a reachable state, with room on \<open>DisConnect\<close>: the first
  message is taken off the channel; each registered connection of its client id that is alive
  gets its frame once, and no other connection gets anything; each of them that is dead is put
  on \<open>DisConnect\<close> once; and nothing else changes. \<open>order\<close> is any order of the addresses.
\<close>

theorem WriteMessage_round:
  assumes "sys_reach cfg acc psh s" and "ToClientChan s = info # q"
    and "ranges order (old_conns (Manager s) (ci_ClientId info))"
    and "length (DisConnect (Manager s)) + map_len (old_conns (Manager s) (ci_ClientId info)) \<le> cap_DisConnect"
  shows "\<exists>cs. distinct cs \<and>
    set cs = {c. \<exists>a. fmlookup (old_conns (Manager s) (ci_ClientId info)) a = Some c} \<and>
    WriteMessage up order s = Returns (s\<lparr>
      Manager := (Manager s)\<lparr>DisConnect := DisConnect (Manager s) @ filter (dead up s) cs\<rparr>,
      ToClientChan := q,
      frames := add_frame (frame_of info) (socks s (filter (\<lambda>c. \<not> dead up s c) cs)) (frames s)\<rparr>)"
  by (rule WriteMessage_effect [OF sys_reach_inv [OF assms(1)] assms(2-4)])

theorem WriteMessage_round_witness:
  "\<exists>cs. set cs = {0} \<and> WriteMessage (\<lambda>_. True) [''1.2.3.4:5''] srv2 = Returns (srv2\<lparr>
      Manager := m1\<lparr>DisConnect := filter (dead (\<lambda>_. True) srv2) cs\<rparr>, ToClientChan := [msgA],
      frames := add_frame (frame_of msgB) (socks srv2 (filter (\<lambda>c. \<not> dead (\<lambda>_. True) srv2 c) cs)) (\<lambda>_. [])\<rparr>)"
proof -
  have conns: "old_conns m1 (ci_ClientId msgB) = fmupd ''1.2.3.4:5'' 0 fmempty"
    by (simp add: old_conns_def msgB_def msg_def)
  have srv: "Manager srv2 = m1" "ToClientChan srv2 = [msgB, msgA]" "frames srv2 = (\<lambda>_. [])"
    by (simp_all add: srv2_def)
  have "\<exists>cs. distinct cs \<and> set cs = {c. \<exists>a. fmlookup (fmupd ''1.2.3.4:5'' 0 fmempty) a = Some c} \<and>
    WriteMessage (\<lambda>_. True) [''1.2.3.4:5''] srv2 = Returns (srv2\<lparr>
      Manager := m1\<lparr>DisConnect := [] @ filter (dead (\<lambda>_. True) srv2) cs\<rparr>, ToClientChan := [msgA],
      frames := add_frame (frame_of msgB) (socks srv2 (filter (\<lambda>c. \<not> dead (\<lambda>_. True) srv2 c) cs)) (\<lambda>_. [])\<rparr>)"
    using WriteMessage_round [OF srv2_reach srv(2), of "[''1.2.3.4:5'']" "\<lambda>_. True"]
    unfolding srv conns m1_facts by (simp add: ranges_def cap_DisConnect_def map_len_upd)
  moreover have "{c. \<exists>a. fmlookup (fmupd ''1.2.3.4:5'' 0 fmempty) a = Some c} = {0 :: cref}" by auto
  ultimately show ?thesis by auto
qed

section \<open>Closing from outside\<close>

text \<open>
  C37. \<open>CloseLocalClient\<close> on a reachable state with room on \<open>DisConnect\<close>: it queues the connection
  that is registered under the client id at just that remote address, if it is one of the given
  system, and does nothing for any other address; a caller that passes an address of its own,
  as the HTTP handler does, closes nothing.
\<close>

theorem CloseLocalClient_needs_address:
  assumes "sys_reach cfg acc psh s" and "length (DisConnect (Manager s)) < cap_DisConnect"
  shows "case fmlookup (old_conns (Manager s) i) addr of
      None \<Rightarrow> CloseLocalClient i systemId addr s = Returns s
    | Some c \<Rightarrow> ClientId (client_of s c) = i \<and> Addr (client_of s c) = addr \<and> c < next_client (Manager s) \<and>
        CloseLocalClient i systemId addr s =
          (if i = systemId
           then Returns (s\<lparr>Manager := (Manager s)\<lparr>DisConnect := DisConnect (Manager s) @ [c]\<rparr>\<rparr>)
           else Returns s)"
proof -
  note inv = sys_reach_inv [OF assms(1)]
  show ?thesis
  proof (cases "fmlookup (old_conns (Manager s) i) addr")
    case None
    then show ?thesis
      by (cases "table (Manager s) i") (simp_all add: CloseLocalClient_def GetByClientId_table old_conns_def)
  next
    case (Some c)
    then obtain t where t: "table (Manager s) i = Some t" "fmlookup t addr = Some c"
      by (cases "table (Manager s) i") (simp_all add: old_conns_def)
    note reg = registered_allocated [OF inv t]
    have "SystemId (client_of s c) = i"
      using servedD(5) [OF sys_invD(1) [OF inv], of c] reg(1,2) by (simp add: client_of_def allocated_def)
    then show ?thesis
      using Some t reg assms(2)
      by (simp add: CloseLocalClient_def GetByClientId_table send_DisConnect_def chan_send_def allocated_def)
  qed
qed

theorem CloseLocalClient_needs_address_witness:
  "CloseLocalClient ''im'' ''im'' ''1.2.3.4:5'' srv1 = Returns (srv1\<lparr>Manager := m1\<lparr>DisConnect := [0]\<rparr>\<rparr>) \<and>
   CloseLocalClient ''im'' ''im'' ''9.9.9.9:80'' srv1 = Returns srv1"
  using CloseLocalClient_needs_address [OF srv1_reach, where i = "''im''" and systemId = "''im''" and addr = "''1.2.3.4:5''"]
    CloseLocalClient_needs_address [OF srv1_reach, where i = "''im''" and systemId = "''im''" and addr = "''9.9.9.9:80''"]
  by (simp add: old_conns_def cap_DisConnect_def)

section \<open>Sending in a cluster\<close>

text \<open>
  C27. In a cluster, on a server whose host and port have no colon of their own, a message goes on
  \<open>ToClientChan\<close> exactly when its client id is an encryption of this server's address under the
  common key (and there is room); with every other id, a plain system id or the id of a client of
  another server, the message is dropped although the caller gets a message id, and an id that
  decodes to a bare initial vector panics.
\<close>

theorem cluster_sends_to_own_ids_only:
  assumes "IsCluster (Config s)" and "CHR '':'' \<notin> set (LocalHost (GlobalSetting (Config s)))"
    and "CHR '':'' \<notin> set (RPCPort (CommonSetting (Config s)))"
    and "length (ToClientChan s) < cap_ToClientChan"
  shows "SendMessage2Client r i u code txt data s =
    (GenUUID r,
     case Decrypt i (string_bytes (CryptoKey (CommonSetting (Config s)))) of
       Panic \<Rightarrow> Panics s
     | Err e \<Rightarrow> Returns s
     | Ok addr \<Rightarrow>
         (if addr = LocalHost (GlobalSetting (Config s)) @ '':'' @ RPCPort (CommonSetting (Config s))
          then Returns (s\<lparr>ToClientChan := ToClientChan s @ [\<lparr>ci_ClientId = i, ci_SendUserId = u,
            ci_MessageId = GenUUID r, ci_Code = code, ci_Msg = txt, ci_Data = data\<rparr>]\<rparr>)
          else Returns s))"
proof (cases "GetAddrInfoAndIsLocal (Config s) i")
  case (Ok x)
  obtain addr h p l where x: "x = (addr, h, p, l)" by (cases x)
  have acc: "Decrypt i (string_bytes (CryptoKey (CommonSetting (Config s)))) = fallible.Ok addr"
    "addr = h @ '':'' @ p" "CHR '':'' \<notin> set h" "CHR '':'' \<notin> set p"
    "l = (h = LocalHost (GlobalSetting (Config s)) \<and> p = RPCPort (CommonSetting (Config s)))"
    using Ok unfolding x GetAddrInfo_accepts by blast+
  then have "addr = LocalHost (GlobalSetting (Config s)) @ '':'' @ RPCPort (CommonSetting (Config s)) \<longleftrightarrow> l"
    using assms(2) by (simp add: sep_append_eq)
  then show ?thesis
    using assms(1,4) acc(1) Ok x
    by (simp add: SendMessage2Client_def SendMessage2LocalClient_def send_client_def chan_send_def Let_def)
next
  case (Err e)
  have "Decrypt i (string_bytes (CryptoKey (CommonSetting (Config s)))) = fallible.Ok addr \<Longrightarrow>
      addr \<noteq> LocalHost (GlobalSetting (Config s)) @ '':'' @ RPCPort (CommonSetting (Config s))" for addr
    using Err assms(2,3) GetAddrInfo_accepts [of "Config s" i addr "LocalHost (GlobalSetting (Config s))"
        "RPCPort (CommonSetting (Config s))" True] by auto
  moreover have "Decrypt i (string_bytes (CryptoKey (CommonSetting (Config s)))) \<noteq> Panic"
    using Err by (auto simp: GetAddrInfoAndIsLocal_def)
  ultimately show ?thesis
    using assms(1) Err by (auto simp: SendMessage2Client_def Let_def split: fallible.split)
next
  case Panic
  then have "Decrypt i (string_bytes (CryptoKey (CommonSetting (Config s)))) = fallible.Panic"
    using ParseRedisAddrValue_no_panic
    by (auto simp: GetAddrInfoAndIsLocal_def fallible_then_eq split: fallible.splits)
  then show ?thesis using assms(1) Panic by (simp add: SendMessage2Client_def Let_def)
qed

definition srv_cluster :: server where "srv_cluster = server_init two_servers"

theorem cluster_sends_to_own_ids_only_witness:
  "SendMessage2Client (\<lambda>_. 3) ''im'' [] [] [] None srv_cluster = (GenUUID (\<lambda>_. 3), Returns srv_cluster)"
proof -
  have "b64_decode ''im'' = None" by (simp add: b64_decode_def)
  then have "Decrypt ''im'' k = Err CorruptInputError" for k by (simp add: Decrypt_def DecodeString_def)
  then show ?thesis
    using cluster_sends_to_own_ids_only [of srv_cluster "\<lambda>_. 3" "''im''" "[]" "[]" "[]" None]
    by (simp add: srv_cluster_def server_init_def two_servers_def IsCluster_def cap_ToClientChan_def)
qed

end
