(* ===== verification/LocalSend.thy ===== *)
theory LocalSend
  imports ServerFacts
begin

text \<open>
  Sending to the members of a local group or system (\<open>SendMessage2LocalGroup\<close>,
  \<open>SendMessage2LocalSystem\<close> of servers/clientmanager.go), and the round of \<open>PingTimer\<close>.
\<close>

section \<open>Sending to each of a list of ids\<close>

definition local_info :: "string \<Rightarrow> string \<Rightarrow> string \<Rightarrow> string \<Rightarrow> string option \<Rightarrow> string \<Rightarrow> clientInfo" where
  "local_info messageId sendUserId code txt data i =
     \<lparr>ci_ClientId = i, ci_SendUserId = sendUserId, ci_MessageId = messageId, ci_Code = code,
      ci_Msg = txt, ci_Data = data\<rparr>"

lemma local_send:
  "length (ToClientChan s) < cap_ToClientChan \<Longrightarrow>
   SendMessage2LocalClient mid i u code txt data s =
     Returns (s\<lparr>ToClientChan := ToClientChan s @ [local_info mid u code txt data i]\<rparr>)"
  by (simp add: SendMessage2LocalClient_def send_client_def chan_send_def local_info_def)

lemma local_send_full:
  "length (ToClientChan s) = cap_ToClientChan \<Longrightarrow> SendMessage2LocalClient mid i u code txt data s = Blocks s"
  by (simp add: SendMessage2LocalClient_def send_client_def chan_send_def)

lemma send_each_total:
  "length (ToClientChan s) \<le> cap_ToClientChan \<Longrightarrow>
   send_each (\<lambda>i. SendMessage2LocalClient mid i u code txt data) ids s =
     (let q = ToClientChan s @ map (local_info mid u code txt data) ids
      in if length q \<le> cap_ToClientChan then Returns (s\<lparr>ToClientChan := q\<rparr>)
         else Blocks (s\<lparr>ToClientChan := take cap_ToClientChan q\<rparr>))"
proof (induction ids arbitrary: s)
  case (Cons i ids)
  show ?case
  proof (cases "length (ToClientChan s) = cap_ToClientChan")
    case True
    then show ?thesis by (simp add: local_send_full)
  next
    case False
    then have "length (ToClientChan s) < cap_ToClientChan" using Cons.prems by simp
    then show ?thesis by (simp add: local_send Cons.IH Let_def)
  qed
qed simp

text \<open>
  Sending to a local system: one message per entry of its list; if the channel has no room for
  them all, the first ones that fit are sent and the call blocks.
\<close>

lemma local_system_sends:
  assumes "length (ToClientChan s) \<le> cap_ToClientChan" and "sys \<noteq> []"
  shows "SendMessage2LocalSystem sys mid u code txt data s =
    (let q = ToClientChan s @ map (local_info mid u code txt data) (members (Manager s) (System sys))
     in if length q \<le> cap_ToClientChan then Returns (s\<lparr>ToClientChan := q\<rparr>)
        else Blocks (s\<lparr>ToClientChan := take cap_ToClientChan q\<rparr>))"
  using assms send_each_total [of s mid u code "txt" data]
  by (simp add: SendMessage2LocalSystem_def GetSystemClientList_def members_def)

section \<open>Groups\<close>

definition registered :: "manager \<Rightarrow> string \<Rightarrow> bool" where
  "registered m i \<longleftrightarrow> table m i \<noteq> None"

lemma GetByClientId_registered:
  "(case GetByClientId i m of Inr _ \<Rightarrow> x | Inl _ \<Rightarrow> y) = (if registered m i then x else y)"
  by (simp add: GetByClientId_table registered_def split: option.splits)

lemma local_group_loop_live:
  assumes "\<And>i. i \<in> set js \<Longrightarrow> registered (Manager s) (cells (arrays (Manager s)) (sbase sl) ! i)"
    and "length (ToClientChan s) + length js \<le> cap_ToClientChan"
  shows "local_group_loop (\<lambda>i. SendMessage2LocalClient mid i u code txt data) key sl js s =
    Returns (s\<lparr>ToClientChan := ToClientChan s @
      map (\<lambda>i. local_info mid u code txt data (cells (arrays (Manager s)) (sbase sl) ! i)) js\<rparr>)"
  using assms
  by (induction js arbitrary: s) (simp_all add: GetByClientId_registered local_send)

lemma local_group_loop_append:
  "local_group_loop send key sl (is @ js) s =
     outcome_then (local_group_loop send key sl is s) (local_group_loop send key sl js)"
proof (induction "is" arbitrary: s)
  case (Cons i "is")
  have "local_group_loop send key sl (is @ js) =
      (\<lambda>s. outcome_then (local_group_loop send key sl is s) (local_group_loop send key sl js))"
    by (rule ext) (rule Cons.IH)
  then show ?case by (simp add: outcome_then_assoc Let_def)
qed simp

lemma map_cells: "map (\<lambda>i. f (cells a (sbase sl) ! i)) [0..<slen sl] = map f (elems a sl)"
  if "wf_slice a sl"
  using that by (intro nth_equalityI) (simp_all add: length_elems elems_nth)

lemma delGroupClient_few_groups:
  assumes inv: "lists_inv m" and few: "map_len (Groups m) \<le> 1" and present: "k |\<in>| fmdom (Groups m)"
  shows "\<exists>m'. delGroupClient k cid m = Done m' \<and> arrays m' = arrays m \<and> table m' = table m \<and>
    lists_inv m' \<and> fmdom (Groups m') = fmdom (Groups m) \<and>
    members m' (Group k) = truncated cid (members m (Group k))"
proof -
  let ?s = "list_slice (Group k) m"
  obtain s' where del: "del_member (map_len (Groups m)) cid (arrays m) ?s = Done (arrays m, s')"
    and res: "elems (arrays m) s' = truncated cid (members m (Group k))"
    using del_member_truncates [OF lists_invD(1) [OF inv] few] unfolding members_def by metis
  let ?m = "list_store (Group k) (arrays m, s') m"
  obtain s where "fmlookup (Groups m) k = Some s" using present by (auto simp: fmlookup_dom_iff)
  then have "delGroupClient k cid m = Done ?m" using del by (simp add: delGroupClient_def map_get_def)
  moreover have "lists_inv ?m"
    using lists_inv_store_delete [OF inv, of "Group k" "map_len (Groups m)" cid] del by simp
  moreover have "table ?m = table m" by (rule table_list_store(1))
  ultimately show ?thesis
    using res members_store [of "Group k" "(arrays m, s')" m] present
    by (intro exI [of _ ?m]) (auto simp: finsert_absorb)
qed

text \<open>
  With at most one group: at each vanished member the group is truncated, but the loop goes on
  over the slice it was given, whose cells stay as they are.
\<close>

definition kept :: "(string \<Rightarrow> bool) \<Rightarrow> string list \<Rightarrow> nat \<Rightarrow> string list" where
  "kept reg L k = (if list_all reg (take k L) then L else takeWhile reg L)"

lemma takeWhile_take: "list_all P (take k L) \<Longrightarrow> k < length L \<Longrightarrow> \<not> P (L ! k) \<Longrightarrow> takeWhile P L = take k L"
  by (induction L arbitrary: k) (auto simp: take_Cons split: nat.splits)

lemma last_pos_split: "x \<notin> set ys \<Longrightarrow> last_pos x (xs @ x # ys) = Some (length xs)"
proof (induction ys rule: rev_induct)
  case (snoc y ys)
  then show ?case using last_pos_snoc [of x "xs @ x # ys" y] by auto
qed simp

lemma truncated_at:
  assumes "distinct L" and "k < length L"
  shows "truncated (L ! k) L = take k L"
proof -
  have split: "L = take k L @ L ! k # drop (Suc k) L" using assms(2) by (rule id_take_nth_drop)
  then have "L ! k \<notin> set (drop (Suc k) L)" using assms(1) by (metis distinct.simps(2) distinct_append)
  then have "last_pos (L ! k) L = Some (length (take k L))" using split last_pos_split by metis
  then show ?thesis using assms(2) by (simp add: truncated_def)
qed

lemma kept_step:
  assumes "distinct L" and "k < length L"
  shows "kept reg L (Suc k) =
    (if reg (L ! k) then kept reg L k else truncated (L ! k) (kept reg L k))"
proof (cases "list_all reg (take k L)")
  case True
  then show ?thesis
    using assms takeWhile_take [OF True assms(2)] truncated_at [OF assms]
    by (simp add: kept_def take_Suc_conv_app_nth)
next
  case False
  have "reg x" if "x \<in> set (takeWhile reg L)" for x using that by (rule set_takeWhileD [THEN conjunct2])
  then have "\<not> reg (L ! k) \<Longrightarrow> last_pos (L ! k) (takeWhile reg L) = None" by (auto simp: last_pos_None)
  then show ?thesis
    using False assms(2) by (simp add: kept_def take_Suc_conv_app_nth truncated_def)
qed

lemma local_group_few_groups:
  fixes s :: server and key :: string
  defines "m \<equiv> Manager s" and "reg \<equiv> registered (Manager s)"
  defines "sl \<equiv> list_slice (Group key) (Manager s)" and "L \<equiv> members (Manager s) (Group key)"
  assumes inv: "lists_inv m" and few: "map_len (Groups m) \<le> 1" and dist: "distinct L"
    and room: "length (ToClientChan s) + length L \<le> cap_ToClientChan" and k: "k \<le> length L"
  shows "\<exists>m'. local_group_loop (\<lambda>i. SendMessage2LocalClient mid i u code txt data) key sl [0..<k] s =
      Returns (s\<lparr>Manager := m', ToClientChan := ToClientChan s @
        map (local_info mid u code txt data) (filter reg (take k L))\<rparr>) \<and>
    arrays m' = arrays m \<and> table m' = table m \<and> lists_inv m' \<and> fmdom (Groups m') = fmdom (Groups m) \<and>
    members m' (Group key) = kept reg L k"
  using k
proof (induction k)
  case 0
  show ?case by (rule exI [of _ m]) (simp add: m_def L_def kept_def inv [unfolded m_def])
next
  case (Suc k)
  then obtain m' where loop: "local_group_loop (\<lambda>i. SendMessage2LocalClient mid i u code txt data) key sl [0..<k] s =
      Returns (s\<lparr>Manager := m', ToClientChan := ToClientChan s @
        map (local_info mid u code txt data) (filter reg (take k L))\<rparr>)"
    and m': "arrays m' = arrays m" "table m' = table m" "lists_inv m'" "fmdom (Groups m') = fmdom (Groups m)"
      "members m' (Group key) = kept reg L k"
    by auto
  let ?s = "s\<lparr>Manager := m', ToClientChan := ToClientChan s @
    map (local_info mid u code txt data) (filter reg (take k L))\<rparr>"
  have k: "k < length L" using Suc.prems by simp
  have wf: "wf_slice (arrays m) sl" "length L = slen sl"
    using lists_invD [OF inv, of "Group key"] by (simp_all add: m_def sl_def L_def)
  have cell: "cells (arrays m') (sbase sl) ! k = L ! k"
    using k wf(2) elems_nth [of k sl "arrays m"] by (simp add: m'(1) L_def members_def m_def sl_def)
  have regs: "registered m' = reg" using m'(2) by (simp add: reg_def registered_def [abs_def] m_def)
  have few': "map_len (Groups m') \<le> 1" using few m'(4) by (simp add: map_len_def)
  have "members m (Group key) \<noteq> []" using k by (auto simp: L_def m_def)
  then have present: "key |\<in>| fmdom (Groups m')" unfolding m'(4) by (rule list_slice_present(1))
  have len: "length (filter reg (take k L)) \<le> k" by (rule order_trans [OF length_filter_le]) simp
  have take: "take (Suc k) L = take k L @ [L ! k]" using k by (rule take_Suc_conv_app_nth)
  show ?case
  proof (cases "reg (L ! k)")
    case True
    have "SendMessage2LocalClient mid (L ! k) u code txt data ?s =
        Returns (?s\<lparr>ToClientChan := ToClientChan ?s @ [local_info mid u code txt data (L ! k)]\<rparr>)"
      using room len k by (intro local_send) simp
    then have "local_group_loop (\<lambda>i. SendMessage2LocalClient mid i u code txt data) key sl [k] ?s =
        Returns (?s\<lparr>ToClientChan := ToClientChan ?s @ [local_info mid u code txt data (L ! k)]\<rparr>)"
      using True by (simp add: GetByClientId_registered cell regs)
    then have "local_group_loop (\<lambda>i. SendMessage2LocalClient mid i u code txt data) key sl [0..<Suc k] s =
        Returns (?s\<lparr>ToClientChan := ToClientChan ?s @ [local_info mid u code txt data (L ! k)]\<rparr>)"
      using loop by (simp only: upt_Suc_append local_group_loop_append zero_le outcome_then.simps)
    then show ?thesis
      using True m' kept_step [OF dist k, of reg] by (intro exI [of _ m']) (simp add: take)
  next
    case False
    obtain m'' where del: "delGroupClient key (L ! k) m' = Done m''" and m'': "arrays m'' = arrays m'"
        "table m'' = table m'" "lists_inv m''" "fmdom (Groups m'') = fmdom (Groups m')"
        "members m'' (Group key) = truncated (L ! k) (members m' (Group key))"
      using delGroupClient_few_groups [OF m'(3) few' present] by blast
    have "local_group_loop (\<lambda>i. SendMessage2LocalClient mid i u code txt data) key sl [k] ?s =
        Returns (?s\<lparr>Manager := m''\<rparr>)"
      using False del by (simp add: GetByClientId_registered cell regs del_from_group_def)
    then have "local_group_loop (\<lambda>i. SendMessage2LocalClient mid i u code txt data) key sl [0..<Suc k] s =
        Returns (?s\<lparr>Manager := m''\<rparr>)"
      using loop by (simp only: upt_Suc_append local_group_loop_append zero_le outcome_then.simps)
    then show ?thesis
      using False m' m'' kept_step [OF dist k, of reg] by (intro exI [of _ m'']) (simp add: take)
  qed
qed


text \<open>
  With more groups the cut is made in the backing array that the loop is reading: deleting the
  first member moves every other one a cell to the left, and the last cell keeps its value.
\<close>

lemma del_first_cells:
  assumes wf: "wf_slice a sl" and el: "elems a sl = i0 # rest" and dist: "distinct (i0 # rest)" and g: "1 < g"
  shows "\<exists>a' sl'. del_member g i0 a sl = Done (a', sl') \<and> elems a' sl' = rest \<and>
    take (slen sl) (cells a' (sbase sl)) = rest @ [last (i0 # rest)]"
proof -
  let ?A = "cells a (sbase sl)" and ?n = "slen sl"
  have n: "?n = Suc (length rest)" using length_elems [OF wf] el by simp
  have A: "take ?n ?A = i0 # rest" "?n \<le> length ?A"
    using el wf by (simp_all add: elems_def wf_slice_def)
  have rest: "take (?n - 1) (drop 1 ?A) = rest" using arg_cong [OF A(1), of tl] by (simp add: tl_take drop_Suc)
  have "drop (?n - 1) ?A = ?A ! (?n - 1) # drop ?n ?A" using A(2) n by (simp add: Cons_nth_drop_Suc)
  moreover have "?A ! (?n - 1) = (i0 # rest) ! length rest"
    using n by (subst A(1) [symmetric], subst nth_take) simp_all
  then have "?A ! (?n - 1) = last (i0 # rest)" by (simp add: last_conv_nth)
  ultimately have last: "drop (?n - 1) ?A = last (i0 # rest) # drop ?n ?A" by simp
  obtain a' sl' where cut: "go_cut 0 a sl = Some (a', sl')"
    and a': "cells a' (sbase sl) = rest @ drop (?n - 1) ?A" and sl': "sl' = sl\<lparr>slen := ?n - 1\<rparr>"
    using n rest by (simp add: go_cut_def Let_def)
  have "del_loop g i0 [1..<?n] (a', sl') = Done (a', sl')"
    using cut_rest_absent [OF cut wf] dist el by (intro del_loop_absent) auto
  moreover have "[0..<?n] = 0 # [1..<?n]" using n by (simp add: upt_conv_Cons del: upt_Suc)
  moreover have "?A ! 0 = i0" using n arg_cong [OF A(1), of "\<lambda>xs. xs ! 0"] by simp
  ultimately have "del_member g i0 a sl = Done (a', sl')"
    using g cut by (simp add: del_member_def del: upt_Suc)
  moreover have "elems a' sl' = rest" using elems_cut [OF cut wf] el by simp
  moreover have "take ?n (cells a' (sbase sl)) = rest @ [last (i0 # rest)]"
    unfolding a' last by (simp add: n)
  ultimately show ?thesis by blast
qed

lemma delGroupClient_first:
  assumes inv: "lists_inv m" and el: "members m (Group k) = i0 # rest" and dist: "distinct (i0 # rest)"
    and g: "1 < map_len (Groups m)"
  shows "\<exists>m'. delGroupClient k i0 m = Done m' \<and> table m' = table m \<and> members m' (Group k) = rest \<and>
    take (Suc (length rest)) (cells (arrays m') (sbase (list_slice (Group k) m))) = rest @ [last (i0 # rest)]"
proof -
  let ?s = "list_slice (Group k) m"
  note wf = lists_invD [OF inv, of "Group k"]
  obtain a' s' where del: "del_member (map_len (Groups m)) i0 (arrays m) ?s = Done (a', s')"
    and res: "elems a' s' = rest" "take (slen ?s) (cells a' (sbase ?s)) = rest @ [last (i0 # rest)]"
    using del_first_cells [OF wf(1) el [unfolded members_def] dist g] by auto
  have "members m (Group k) \<noteq> []" using el by simp
  then obtain s where "fmlookup (Groups m) k = Some s"
    using list_slice_present(1) [of m k] by (auto simp: fmlookup_dom_iff)
  then have "delGroupClient k i0 m = Done (list_store (Group k) (a', s') m)"
    using del by (simp add: delGroupClient_def map_get_def)
  then show ?thesis
    using res wf(2) el members_store [of "Group k" "(a', s')" m]
    by (intro exI [of _ "list_store (Group k) (a', s') m"]) (simp add: table_def [abs_def])
qed

lemma map_nth_take: "n \<le> length xs \<Longrightarrow> map (\<lambda>i. xs ! i) [k..<n] = drop k (take n xs)"
  by (intro nth_equalityI) auto

lemma local_group_shifted:
  fixes s :: server and key :: string
  defines "sl \<equiv> list_slice (Group key) (Manager s)"
  assumes inv: "lists_inv (Manager s)" and el: "members (Manager s) (Group key) = i0 # rest"
    and dist: "distinct (i0 # rest)" and g: "1 < map_len (Groups (Manager s))"
    and gone: "\<not> registered (Manager s) i0" and live: "\<forall>i \<in> set rest. registered (Manager s) i"
    and room: "length (ToClientChan s) + length rest \<le> cap_ToClientChan"
  shows "\<exists>m'. local_group_loop (\<lambda>i. SendMessage2LocalClient mid i u code txt data) key sl [0..<slen sl] s =
      Returns (s\<lparr>Manager := m', ToClientChan := ToClientChan s @
        map (local_info mid u code txt data) (tl (rest @ [last (i0 # rest)]))\<rparr>) \<and>
    members m' (Group key) = rest"
proof -
  let ?send = "\<lambda>i. SendMessage2LocalClient mid i u code txt data"
  note wf = lists_invD [OF inv, of "Group key", folded sl_def]
  obtain m' where del: "delGroupClient key i0 (Manager s) = Done m'"
    and m': "table m' = table (Manager s)" "members m' (Group key) = rest"
      "take (slen sl) (cells (arrays m') (sbase sl)) = rest @ [last (i0 # rest)]"
    using delGroupClient_first [OF inv el dist g] wf(2) el by (auto simp: sl_def)
  let ?s = "s\<lparr>Manager := m'\<rparr>" and ?A = "cells (arrays m') (sbase sl)"
  have n: "slen sl = Suc (length rest)" using wf(2) el by simp
  have "length (take (slen sl) ?A) = slen sl" unfolding m'(3) using n by simp
  then have nA: "slen sl \<le> length ?A" by simp
  have seen: "map (\<lambda>i. ?A ! i) [1..<slen sl] = tl (rest @ [last (i0 # rest)])"
    unfolding map_nth_take [OF nA] m'(3) by (cases rest) simp_all
  have regs: "registered m' = registered (Manager s)" using m'(1) by (simp add: registered_def [abs_def])
  have "elems (arrays (Manager s)) sl = i0 # rest" using el by (simp add: members_def sl_def)
  then have first: "cells (arrays (Manager s)) (sbase sl) ! 0 = i0"
    using elems_nth [of 0 sl "arrays (Manager s)"] n by simp
  have "set (map (\<lambda>i. ?A ! i) [1..<slen sl]) \<subseteq> set rest"
    unfolding seen by (cases rest) auto
  then have "registered m' (?A ! i)" if "i \<in> set [1..<slen sl]" for i
    unfolding regs using live that by (force simp: image_subset_iff)
  then have "local_group_loop ?send key sl [1..<slen sl] ?s = Returns (?s\<lparr>ToClientChan := ToClientChan ?s @
      map (\<lambda>i. local_info mid u code txt data (?A ! i)) [1..<slen sl]\<rparr>)"
    using room n by (subst local_group_loop_live) (simp_all del: upt_Suc)
  moreover have "map (\<lambda>i. local_info mid u code txt data (?A ! i)) [1..<slen sl] =
      map (local_info mid u code txt data) (tl (rest @ [last (i0 # rest)]))"
    unfolding seen [symmetric] by simp
  moreover have "[0..<slen sl] = 0 # [1..<slen sl]" using n by (simp add: upt_conv_Cons del: upt_Suc)
  ultimately have "local_group_loop ?send key sl [0..<slen sl] s = Returns (?s\<lparr>ToClientChan := ToClientChan ?s @
      map (local_info mid u code txt data) (tl (rest @ [last (i0 # rest)]))\<rparr>)"
    using del gone first by (simp add: GetByClientId_registered del_from_group_def)
  then show ?thesis using m'(2) by (intro exI [of _ m']) simp
qed


section \<open>Three clients to look at\<close>

text \<open>Clients a, b and c of the system s; b and c have a connection, all three are in the group im.\<close>

definition trio0 :: manager where
  "trio0 = (let add = (\<lambda>i addr k m. snd (new_client (NewClient i addr ''s'' (Some k) 0) m))
     in add ''c'' ''10.0.0.3:1'' 3 (add ''b'' ''10.0.0.2:1'' 2 (add ''a'' ''10.0.0.1:1'' 1 NewClientManager)))"

definition trio1 :: manager where
  "trio1 = AddClient (Some 1) (AddClient (Some 2) trio0)"

abbreviation into :: "string \<Rightarrow> cref \<Rightarrow> manager \<Rightarrow> manager" where
  "into \<equiv> addClient2Group (\<lambda>old need. 2 * old)"

definition trio :: manager where
  "trio = into ''s:im'' 2 (into ''s:im'' 1 (into ''s:im'' 0 trio1))"

definition trio_two :: manager where
  "trio_two = into ''s:ops'' 0 trio"

lemma trio0_simps [simp]:
  "ClientId (clients trio0 0) = ''a''" "ClientId (clients trio0 (Suc 0)) = ''b''"
  "ClientId (clients trio0 2) = ''c''"
  "next_client trio0 = 3" "Groups trio0 = fmempty" "members trio0 k = []" "table trio0 i = None"
  by (cases k; simp add: trio0_def new_client_def NewClientManager_def members_def table_def Let_def)+

lemma trio_inv: "mgr_inv trio0" "mgr_inv trio1" "mgr_inv trio" "mgr_inv trio_two"
proof -
  show 0: "mgr_inv trio0" unfolding trio0_def Let_def by (intro new_client_inv mgr_inv_init)
  then show 1: "mgr_inv trio1" unfolding trio1_def by (intro AddClient_inv) simp_all
  then show 2: "mgr_inv trio" unfolding trio_def by (intro addClient2Group_inv)
  then show "mgr_inv trio_two" unfolding trio_two_def by (rule addClient2Group_inv)
qed

lemma Groups_into: "map_len (Groups (into k c m)) = (if k |\<in>| fmdom (Groups m) then map_len (Groups m) else Suc (map_len (Groups m)))"
  "fmdom (Groups (into k c m)) = finsert k (fmdom (Groups m))"
  by (simp_all add: addClient2Group_def map_len_upd split: prod.splits)

lemma trio_facts [simp]:
  "registered trio i \<longleftrightarrow> i = ''b'' \<or> i = ''c''" "registered trio_two i \<longleftrightarrow> i = ''b'' \<or> i = ''c''"
  "members trio (Group ''s:im'') = [''a'', ''b'', ''c'']" "members trio_two (Group ''s:im'') = [''a'', ''b'', ''c'']"
  "map_len (Groups trio) = 1" "map_len (Groups trio_two) = 2"
proof -
  have "refs_inv (AddClient (Some 2) trio0)"
    using AddClient_inv [OF trio_inv(1), of 2] mgr_invD(1) by simp
  then have tab: "table trio1 = (table trio0)(''c'' \<mapsto> conns_after_add trio0 2,
      ''b'' \<mapsto> conns_after_add (AddClient (Some 2) trio0) 1)"
    using mgr_invD(1) [OF trio_inv(1)] by (simp add: trio1_def table_AddClient)
  then show "registered trio i \<longleftrightarrow> i = ''b'' \<or> i = ''c''" "registered trio_two i \<longleftrightarrow> i = ''b'' \<or> i = ''c''"
    by (auto simp: registered_def trio_def trio_two_def)
  have ids: "ClientId (clients trio1 0) = ''a''" "ClientId (clients trio1 1) = ''b''" "ClientId (clients trio1 2) = ''c''"
    "members trio1 k = []" "Groups trio1 = fmempty" for k
    by (simp_all add: trio1_def)
  show "members trio (Group ''s:im'') = [''a'', ''b'', ''c'']"
    unfolding trio_def using trio_inv(2) ids
    by (simp add: members_addClient2Group mgr_invD(4) addClient2Group_inv)
  then show "members trio_two (Group ''s:im'') = [''a'', ''b'', ''c'']"
    unfolding trio_two_def using mgr_invD(4) [OF trio_inv(3)] by (simp add: members_addClient2Group)
  show one: "map_len (Groups trio) = 1" by (simp add: trio_def Groups_into ids)
  show "map_len (Groups trio_two) = 2" using one by (simp add: trio_two_def Groups_into trio_def ids)
qed

section \<open>Properties\<close>

text \<open>
  C32. Sending to a local group while there is at most one group: every member that still has a
  connection gets the message, in the order of the list, although the list is truncated on the
  way; afterwards the group holds only the members before the first one that was gone, so
  members with a live connection lose their place.
\<close>

theorem local_group_one_group:
  assumes "lists_inv (Manager s)" and "map_len (Groups (Manager s)) \<le> 1"
    and "members (Manager s) (Group (GenGroupKey sys grp)) = ms" and "distinct ms" and "grp \<noteq> []"
    and "length (ToClientChan s) + length ms \<le> 1000"
  shows "\<exists>s'. SendMessage2LocalGroup sys mid u grp code txt data s = Returns s' \<and>
    ToClientChan s' = ToClientChan s @ map (local_info mid u code txt data) (filter (registered (Manager s)) ms) \<and>
    members (Manager s') (Group (GenGroupKey sys grp)) = takeWhile (registered (Manager s)) ms"
proof -
  let ?k = "GenGroupKey sys grp" and ?reg = "registered (Manager s)"
  let ?L = "members (Manager s) (Group ?k)" and ?sl = "list_slice (Group ?k) (Manager s)"
  have len: "length ?L = slen ?sl" using lists_invD(2) [OF assms(1)] .
  have "kept ?reg ?L (length ?L) = takeWhile ?reg ms"
    using assms(3) by (simp add: kept_def list_all_iff) (metis takeWhile_eq_all_conv)
  then show ?thesis
    using local_group_few_groups [of s ?k "length ?L" mid u code "txt" data] assms len
    by (auto simp: SendMessage2LocalGroup_def GetGroupClientList_def Let_def cap_ToClientChan_def)
qed

lemma local_group_one_group_witness:
  "\<exists>s'. SendMessage2LocalGroup ''s'' ''m1'' [] ''im'' ''0'' ''hi'' None ((server_init cfg1)\<lparr>Manager := trio\<rparr>) = Returns s' \<and>
     map ci_ClientId (ToClientChan s') = [''b'', ''c''] \<and> members (Manager s') (Group ''s:im'') = []"
  using local_group_one_group [of "(server_init cfg1)\<lparr>Manager := trio\<rparr>" "''s''" "''im''" "[''a'', ''b'', ''c'']"
      "''m1''" "[]" "''0''" "''hi''" None] mgr_invD(4) [OF trio_inv(3)]
  by (auto simp: GenGroupKey_def local_info_def server_init_def)

text \<open>
  C31. With two groups or more and a first member that is gone, the deletion shifts the array that
  the loop reads: the second member is skipped although it is connected, the last one gets the
  message twice, and the list afterwards is right.
\<close>

theorem local_group_skips:
  assumes "lists_inv (Manager s)" and "1 < map_len (Groups (Manager s))"
    and "members (Manager s) (Group (GenGroupKey sys grp)) = gone # i # js" and "distinct (gone # i # js)"
    and "\<not> registered (Manager s) gone" and "\<forall>j \<in> set (i # js). registered (Manager s) j" and "grp \<noteq> []"
    and "length (ToClientChan s) + length (i # js) \<le> 1000"
  shows "\<exists>s'. SendMessage2LocalGroup sys mid u grp code txt data s = Returns s' \<and>
    ToClientChan s' = ToClientChan s @ map (local_info mid u code txt data) (js @ [last (i # js)]) \<and>
    members (Manager s') (Group (GenGroupKey sys grp)) = i # js"
  using local_group_shifted [OF assms(1,3,4,2,5,6), of mid u code "txt" data] assms(7,8)
  by (auto simp: SendMessage2LocalGroup_def GetGroupClientList_def Let_def cap_ToClientChan_def)

lemma local_group_skips_witness:
  "\<exists>s'. SendMessage2LocalGroup ''s'' ''m1'' [] ''im'' ''0'' ''hi'' None ((server_init cfg1)\<lparr>Manager := trio_two\<rparr>) = Returns s' \<and>
     map ci_ClientId (ToClientChan s') = [''c'', ''c''] \<and> members (Manager s') (Group ''s:im'') = [''b'', ''c'']"
  using local_group_skips [of "(server_init cfg1)\<lparr>Manager := trio_two\<rparr>" "''s''" "''im''" "''a''" "''b''" "[''c'']"
      "''m1''" "[]" "''0''" "''hi''" None] mgr_invD(4) [OF trio_inv(4)]
  by (auto simp: GenGroupKey_def local_info_def server_init_def)

end
