(* ===== verification/Heartbeat.thy ===== *)
theory Heartbeat
  imports ServerFacts
begin

text \<open>
  The heartbeat (\<open>PingTimer\<close> of servers/server.go): one tick, over all registered connections.
\<close>

definition queue :: "server \<Rightarrow> cref list \<Rightarrow> server" where
  "queue s cs = s\<lparr>Manager := (Manager s)\<lparr>DisConnect := DisConnect (Manager s) @ cs\<rparr>\<rparr>"

lemma queue_simps [simp]:
  "client_of (queue s cs) = client_of s" "dead up (queue s cs) = dead up s"
  "amaps (Manager (queue s cs)) = amaps (Manager s)" "queue s [] = s" "queue (queue s cs) ds = queue s (cs @ ds)"
  "DisConnect (Manager (queue s cs)) = DisConnect (Manager s) @ cs"
proof -
  show cl: "client_of (queue s cs) = client_of s" by (simp add: queue_def client_of_def [abs_def])
  show "dead up (queue s cs) = dead up s" by (rule dead_cong [OF cl]) (simp add: queue_def)
qed (simp_all add: queue_def)

lemma ping_one_effect:
  assumes "Socket (client_of s c) \<noteq> None" and "dead up s c \<longrightarrow> length (DisConnect (Manager s)) < cap_DisConnect"
  shows "ping_one up c s = Returns (queue s (filter (dead up s) [c]))"
  using assms by (auto simp: ping_one_def dead_def send_DisConnect_def chan_send_def queue_def)

definition in_map :: "manager \<Rightarrow> (mref \<Rightarrow> string list) \<Rightarrow> mref \<Rightarrow> cref list" where
  "in_map m order r = List.map_filter (fmlookup (amaps m r)) (order r)"

lemma ping_map_effect:
  assumes "\<forall>c \<in> set (List.map_filter (fmlookup (amaps (Manager s) r)) addrs). Socket (client_of s c) \<noteq> None"
    and "length (DisConnect (Manager s)) +
      length (filter (dead up s) (List.map_filter (fmlookup (amaps (Manager s) r)) addrs)) \<le> cap_DisConnect"
  shows "ping_map up r addrs s =
    Returns (queue s (filter (dead up s) (List.map_filter (fmlookup (amaps (Manager s) r)) addrs)))"
  using assms
proof (induction addrs arbitrary: s)
  case (Cons a addrs)
  show ?case
  proof (cases "fmlookup (amaps (Manager s) r) a")
    case None
    then show ?thesis using Cons by simp
  next
    case (Some c)
    let ?s = "queue s (filter (dead up s) [c])"
    have "ping_one up c s = Returns ?s"
      using Cons.prems Some by (intro ping_one_effect) auto
    moreover have "ping_map up r addrs ?s =
        Returns (queue ?s (filter (dead up ?s) (List.map_filter (fmlookup (amaps (Manager ?s) r)) addrs)))"
      using Cons.prems Some by (intro Cons.IH) (auto split: if_splits)
    ultimately show ?thesis using Some by (simp del: filter.simps) simp
  qed
qed simp

lemma ping_maps_effect:
  assumes "\<forall>c \<in> set (concat (map (in_map (Manager s) order) rs)). Socket (client_of s c) \<noteq> None"
    and "length (DisConnect (Manager s)) + length (filter (dead up s) (concat (map (in_map (Manager s) order) rs))) \<le> cap_DisConnect"
  shows "ping_maps up order rs s =
    Returns (queue s (filter (dead up s) (concat (map (in_map (Manager s) order) rs))))"
  using assms
proof (induction rs arbitrary: s)
  case (Cons r rs)
  let ?s = "queue s (filter (dead up s) (in_map (Manager s) order r))"
  have same: "in_map (Manager ?s) order = in_map (Manager s) order" by (simp add: in_map_def [abs_def])
  have "ping_map up r (order r) s = Returns ?s"
    using Cons.prems unfolding in_map_def by (intro ping_map_effect) auto
  moreover have "ping_maps up order rs ?s = Returns (queue ?s (filter (dead up ?s) (concat (map (in_map (Manager ?s) order) rs))))"
    unfolding same using Cons.prems by (intro Cons.IH [of ?s, unfolded same]) auto
  ultimately show ?case unfolding same by simp
qed simp

lemma distinct_concat_rows:
  "distinct rs \<Longrightarrow> (\<And>r. r \<in> set rs \<Longrightarrow> distinct (f r)) \<Longrightarrow>
   (\<And>r q. r \<in> set rs \<Longrightarrow> q \<in> set rs \<Longrightarrow> r \<noteq> q \<Longrightarrow> set (f r) \<inter> set (f q) = {}) \<Longrightarrow>
   distinct (concat (map f rs))"
  by (induction rs) fastforce+

text \<open>The registered connections, once each.\<close>

definition is_registered :: "manager \<Rightarrow> cref \<Rightarrow> bool" where
  "is_registered m c \<longleftrightarrow> (\<exists>i t a. table m i = Some t \<and> fmlookup t a = Some c)"

lemma in_maps:
  assumes "mgr_inv m" and "ranges keys (ClientIdMap m)"
    and "\<And>i r. fmlookup (ClientIdMap m) i = Some r \<Longrightarrow> ranges (order r) (amaps m r)"
  defines "rs \<equiv> List.map_filter (fmlookup (ClientIdMap m)) keys"
  shows "distinct (concat (map (in_map m order) rs))"
    and "set (concat (map (in_map m order) rs)) = {c. is_registered m c}"
proof -
  note refs = refs_invD [OF mgr_invD(1) [OF assms(1)]]
  have keys: "distinct keys" "set keys = fset (fmdom (ClientIdMap m))" using assms(2) by (simp_all add: ranges_def)
  have in_rs: "r \<in> set rs \<longleftrightarrow> (\<exists>i. fmlookup (ClientIdMap m) i = Some r)" for r
    using keys(2) by (auto simp: rs_def set_map_filter_iff intro: fmdomI)
  have row: "c \<in> set (in_map m order r) \<longleftrightarrow> (\<exists>a. fmlookup (amaps m r) a = Some c)" if "r \<in> set rs" for c r
  proof -
    have "set (order r) = fset (fmdom (amaps m r))" using that assms(3) by (auto simp: in_rs ranges_def)
    then show ?thesis by (auto simp: in_map_def set_map_filter_iff intro: fmdomI)
  qed
  have home: "ClientId (clients m c) = i \<and> Addr (clients m c) = a"
    if "fmlookup (ClientIdMap m) i = Some r" "fmlookup (amaps m r) a = Some c" for i r a c
    using table_invD(3,4) [OF mgr_invD(2) [OF assms(1)], of i "amaps m r" a c] that by (simp add: table_def)
  have "c \<in> set (concat (map (in_map m order) rs)) \<longleftrightarrow> is_registered m c" for c
  proof -
    have "c \<in> set (concat (map (in_map m order) rs)) \<longleftrightarrow> (\<exists>r \<in> set rs. \<exists>a. fmlookup (amaps m r) a = Some c)"
      using row by auto
    also have "\<dots> \<longleftrightarrow> is_registered m c"
      unfolding is_registered_def table_def Bex_def in_rs map_option_eq_Some by blast
    finally show ?thesis .
  qed
  then show "set (concat (map (in_map m order) rs)) = {c. is_registered m c}" by blast
  have "distinct rs" unfolding rs_def by (rule distinct_map_filter [OF keys(1)]) (metis refs(2))
  moreover have "distinct (in_map m order r)" if "r \<in> set rs" for r
  proof -
    obtain i where i: "fmlookup (ClientIdMap m) i = Some r" using \<open>r \<in> set rs\<close> by (auto simp: in_rs)
    then have "distinct (order r)" using assms(3) by (simp add: ranges_def)
    then show ?thesis unfolding in_map_def by (rule distinct_map_filter) (metis home [OF i])
  qed
  moreover have "set (in_map m order r) \<inter> set (in_map m order q) = {}"
    if "r \<in> set rs" "q \<in> set rs" "r \<noteq> q" for r q
  proof -
    have False if c: "c \<in> set (in_map m order r)" "c \<in> set (in_map m order q)" for c
    proof -
      obtain i j a b where "fmlookup (ClientIdMap m) i = Some r" "fmlookup (ClientIdMap m) j = Some q"
        "fmlookup (amaps m r) a = Some c" "fmlookup (amaps m q) b = Some c"
        using \<open>r \<in> set rs\<close> \<open>q \<in> set rs\<close> c by (auto simp: in_rs row)
      then show False using home \<open>r \<noteq> q\<close> by (metis option.inject)
    qed
    then show ?thesis by blast
  qed
  ultimately show "distinct (concat (map (in_map m order) rs))"
    by (intro distinct_concat_rows)
qed

lemma AllClient_loop_only_copies:
  "snd (AllClient_loop keys result m) = m\<lparr>amaps := amaps (snd (AllClient_loop keys result m)),
     next_amap := next_amap (snd (AllClient_loop keys result m))\<rparr>"
proof (induction keys arbitrary: result m)
  case Nil
  show ?case by (cases m) simp
next
  case (Cons k keys)
  show ?case
  proof (cases "fmlookup (ClientIdMap m) k")
    case None
    then show ?thesis using Cons.IH [of result m] by simp
  next
    case (Some v)
    obtain r result' m1 where step: "(case fmlookup result k of Some r \<Rightarrow> (r, result, m)
        | None \<Rightarrow> (let (r, m1) = make_amap m in (r, fmupd k v result, m1))) = (r, result', m1)"
      by (metis prod.collapse)
    have m1: "m1 = m\<lparr>amaps := amaps m1, next_amap := next_amap m1\<rparr>"
      using step by (auto simp: make_amap_def split: option.splits)
    let ?m = "m1\<lparr>amaps := (amaps m1)(r := fmadd (amaps m1 r) (amaps m1 v))\<rparr>"
    have "AllClient_loop (k # keys) result m = AllClient_loop keys result' ?m"
      using Some step by simp
    moreover have "?m\<lparr>amaps := a, next_amap := n\<rparr> = m\<lparr>amaps := a, next_amap := n\<rparr>" for a n
      by (subst m1) simp
    ultimately show ?thesis using Cons.IH [of result' ?m] by simp
  qed
qed

lemma AllClient_only_copies:
  "snd (AllClient keys m) = m\<lparr>amaps := amaps (snd (AllClient keys m)), next_amap := next_amap (snd (AllClient keys m))\<rparr>"
  unfolding AllClient_def by (rule AllClient_loop_only_copies)

text \<open>
  C14. One tick of the heartbeat in a reachable state, with room on \<open>DisConnect\<close>: every registered
  connection that is dead is queued for disconnection, each once, whatever client id and
  address it is registered under. The whole state after it is given: apart from that queue only
  the heap of inner maps has grown, by the copies that \<open>AllClient\<close> makes, and every inner map
  there was before is as it was. \<open>keys\<close> and \<open>order\<close> are any orders of the outer map and of the
  inner maps.
\<close>

theorem PingTimer_round:
  assumes "sys_reach cfg acc psh s" and "ranges keys (ClientIdMap (Manager s))"
    and "\<And>i r. fmlookup (ClientIdMap (Manager s)) i = Some r \<Longrightarrow> ranges (order r) (amaps (Manager s) r)"
    and "length (DisConnect (Manager s)) + card {c. is_registered (Manager s) c \<and> dead up s c} \<le> 10000"
  shows "\<exists>cs copies n. distinct cs \<and> set cs = {c. is_registered (Manager s) c \<and> dead up s c} \<and>
    (\<forall>r < next_amap (Manager s). copies r = amaps (Manager s) r) \<and>
    PingTimer up keys order s = Returns (s\<lparr>Manager := (Manager s)\<lparr>
      amaps := copies, next_amap := n, DisConnect := DisConnect (Manager s) @ cs\<rparr>\<rparr>)"
proof -
  define m where "m = snd (AllClient keys (Manager s))"
  obtain result where all: "AllClient keys (Manager s) = (result, m)" unfolding m_def by (metis prod.collapse)
  have keys: "distinct keys" "set keys = fset (fmdom (ClientIdMap (Manager s)))"
    using assms(2) by (simp_all add: ranges_def)
  note served = sys_invD(1) [OF sys_reach_inv [OF assms(1)]]
  note frame = AllClient_frame [OF servedD(1) [OF served] keys(1), folded m_def]
  have shares: "fmlookup result k = fmlookup (ClientIdMap (Manager s)) k" "ClientIdMap m = ClientIdMap (Manager s)"
    "r < next_amap (Manager s) \<Longrightarrow> amaps m r = amaps (Manager s) r" for k r
    using AllClient_loop_shares [OF keys(1) _ le_refl all [unfolded AllClient_def]] keys(2)
    by (auto simp: fmdom_notD)
  then have result: "result = ClientIdMap m" by (intro fmap_ext) simp
  have order: "ranges (order r) (amaps m r)" if "fmlookup (ClientIdMap m) i = Some r" for i r
    using assms(3) that shares(2,3) refs_invD(1) [OF mgr_invD(1) [OF servedD(1) [OF served]]] by simp
  let ?s = "s\<lparr>Manager := m\<rparr>"
  let ?all = "concat (map (in_map m order) (List.map_filter (fmlookup result) keys))"
  have "ranges keys (ClientIdMap m)" using assms(2) shares(2) by simp
  then have maps: "distinct ?all" "set ?all = {c. is_registered m c}"
    unfolding result using in_maps [OF frame(2), of keys order] order by blast+
  have cl: "client_of ?s = client_of s" using frame(4) by (simp add: client_of_def [abs_def])
  have dd: "dead up ?s = dead up s" by (rule dead_cong [OF cl]) simp
  have reg: "is_registered m = is_registered (Manager s)" using frame(1) by (simp add: is_registered_def [abs_def])
  have sock: "Socket (client_of ?s c) \<noteq> None" if "is_registered m c" for c
    using that registered_allocated(1) [OF sys_reach_inv [OF assms(1)]] servedD(6) [OF served]
    unfolding cl reg by (auto simp: is_registered_def allocated_def client_of_def)
  have set: "set (filter (dead up s) ?all) = {c. is_registered (Manager s) c \<and> dead up s c}"
    using maps(2) reg by auto
  have dist: "distinct (filter (dead up s) ?all)" using maps(1) by simp
  have "length (filter (dead up s) ?all) = card {c. is_registered (Manager s) c \<and> dead up s c}"
    using distinct_card [OF dist] set by metis
  then have room: "length (DisConnect (Manager ?s)) + length (filter (dead up ?s) ?all) \<le> cap_DisConnect"
    unfolding dd using assms(4) frame(8) by (simp add: cap_DisConnect_def)
  have "\<forall>c \<in> set ?all. Socket (client_of ?s c) \<noteq> None" unfolding maps(2) using sock by blast
  then have "ping_maps up order (List.map_filter (fmlookup result) keys) ?s = Returns (queue ?s (filter (dead up ?s) ?all))"
    using ping_maps_effect [of ?s order "List.map_filter (fmlookup result) keys" up] room by simp
  then have "PingTimer up keys order s = Returns (queue ?s (filter (dead up s) ?all))"
    by (simp add: PingTimer_def all dd)
  moreover have "m = (Manager s)\<lparr>amaps := amaps m, next_amap := next_amap m\<rparr>"
    using AllClient_only_copies [of keys "Manager s"] by (simp add: m_def)
  then have "queue ?s (filter (dead up s) ?all) = s\<lparr>Manager := (Manager s)\<lparr>
      amaps := amaps m, next_amap := next_amap m, DisConnect := DisConnect (Manager s) @ filter (dead up s) ?all\<rparr>\<rparr>"
    unfolding queue_def using frame(8) by simp
  ultimately show ?thesis
    using set dist shares(3)
    by (intro exI [of _ "filter (dead up s) ?all"] exI [of _ "amaps m"] exI [of _ "next_amap m"]) simp
qed

lemma PingTimer_round_witness:
  "\<exists>order copies n. PingTimer (\<lambda>_. False) [''im''] order srv1 =
     Returns (srv1\<lparr>Manager := m1\<lparr>amaps := copies, next_amap := n, DisConnect := [0]\<rparr>\<rparr>)"
proof -
  have tab: "map_option (amaps m1) (fmlookup (ClientIdMap m1) i) =
      (if i = ''im'' then Some (fmupd ''1.2.3.4:5'' 0 fmempty) else None)" for i
    using fun_cong [OF m1_facts(1), of i] unfolding table_def by simp
  have one: "i = ''im'' \<and> amaps m1 r = fmupd ''1.2.3.4:5'' 0 fmempty" if "fmlookup (ClientIdMap m1) i = Some r" for i r
    using tab [of i] that by (auto split: if_splits)
  obtain r where r: "fmlookup (ClientIdMap m1) ''im'' = Some r" using tab [of "''im''"] by auto
  have "i |\<in>| fmdom (ClientIdMap m1) \<longleftrightarrow> i = ''im''" for i
    using one [of i] r unfolding fmlookup_dom_iff by blast
  then have "fset (fmdom (ClientIdMap m1)) = {''im''}" by blast
  then have keys: "ranges [''im''] (ClientIdMap m1)" by (simp add: ranges_def)
  have reg: "{c. is_registered m1 c \<and> dead (\<lambda>_. False) srv1 c} = {0}"
    by (auto simp: is_registered_def dead_def)
  have "\<exists>cs copies n. distinct cs \<and> set cs = {0} \<and> PingTimer (\<lambda>_. False) [''im''] (\<lambda>_. [''1.2.3.4:5'']) srv1 =
      Returns (srv1\<lparr>Manager := m1\<lparr>amaps := copies, next_amap := n, DisConnect := cs\<rparr>\<rparr>)"
    using PingTimer_round [OF srv1_reach, of "[''im'']" "\<lambda>_. [''1.2.3.4:5'']" "\<lambda>_. False"] keys one reg
    by (auto simp: ranges_def)
  moreover have "cs = [0]" if "distinct cs" "set cs = {0 :: cref}" for cs
    using that by (cases cs; cases "tl cs") auto
  ultimately show ?thesis by blast
qed

end
