(* ===== verification/Etcd.thy ===== *)
theory Etcd
  imports Define Setting
begin

text \<open>
  pkg/etcd: the key-value client (etcd.go), the registration of this server under a lease
  (etcdreg.go) and the discovery of the others (etcddis.go).

  The etcd service and its client library are the environment. A key-value client is a pair of
  operations on a state of the service of any type \<open>'e\<close>; a lease client is two operations; what
  \<open>Get\<close> with a prefix returns and what \<open>Watch\<close> delivers are inputs. The lines logged are left out.
\<close>

section \<open>The key-value client\<close>

text \<open>What \<open>Get\<close> and \<open>Put\<close> come to: an error, or the number of keys found; an error, or nil.\<close>

record 'e kv =
  kv_Get :: "string \<Rightarrow> 'e \<Rightarrow> string + nat"
  kv_Put :: "string \<Rightarrow> string \<Rightarrow> 'e \<Rightarrow> string option \<times> 'e"

text \<open>The package variable (is there a client?) and the service.\<close>

record 'e etcd =
  etcdKvClient :: bool
  service :: 'e

text \<open>\<open>new\<close> is whether a client can be made for a list of endpoints.\<close>

definition GetInstance :: "(string list \<Rightarrow> bool) \<Rightarrow> setting \<Rightarrow> 'e etcd \<Rightarrow> bool \<times> 'e etcd" where
  "GetInstance new st e =
     (if \<not> etcdKvClient e then
        (if new (Endpoints (EtcdSetting st)) then (True, e\<lparr>etcdKvClient := True\<rparr>) else (False, e))
      else (True, e))"

text \<open>A method called on the nil client panics.\<close>

definition Put ::
  "(string list \<Rightarrow> bool) \<Rightarrow> 'e kv \<Rightarrow> setting \<Rightarrow> string \<Rightarrow> string \<Rightarrow> 'e etcd \<Rightarrow> (string, unit) fallible \<times> 'e etcd" where
  "Put new kv st key val e =
     (case GetInstance new st e of
        (False, e1) \<Rightarrow> (Panic, e1)
      | (True, e1) \<Rightarrow>
          (case kv_Put kv key val (service e1) of
             (None, s) \<Rightarrow> (Ok (), e1\<lparr>service := s\<rparr>)
           | (Some err, s) \<Rightarrow> (Err err, e1\<lparr>service := s\<rparr>)))"

definition Get ::
  "(string list \<Rightarrow> bool) \<Rightarrow> 'e kv \<Rightarrow> setting \<Rightarrow> string \<Rightarrow> 'e etcd \<Rightarrow> (string, nat) fallible \<times> 'e etcd" where
  "Get new kv st key e =
     (case GetInstance new st e of
        (False, e1) \<Rightarrow> (Panic, e1)
      | (True, e1) \<Rightarrow> ((case kv_Get kv key (service e1) of Inl err \<Rightarrow> Err err | Inr n \<Rightarrow> Ok n), e1))"

text \<open>
  The documented behaviour of the service as far as the program relies on it, while it can be
  reached: a key that was put is found once, and a put changes no other key.
\<close>

definition lawful_kv :: "'e kv \<Rightarrow> bool" where
  "lawful_kv kv \<longleftrightarrow>
     (\<forall>k e. \<exists>n. kv_Get kv k e = Inr n) \<and>
     (\<forall>k v e e'. kv_Put kv k v e = (None, e') \<longrightarrow>
        kv_Get kv k e' = Inr 1 \<and> (\<forall>k'. k' \<noteq> k \<longrightarrow> kv_Get kv k' e' = kv_Get kv k' e))"

text \<open>A service that is a finite map.\<close>

definition map_kv :: "(string, string) fmap kv" where
  "map_kv = \<lparr>kv_Get = (\<lambda>k e. Inr (case fmlookup e k of None \<Rightarrow> 0 | Some _ \<Rightarrow> 1)),
     kv_Put = (\<lambda>k v e. (None, fmupd k v e))\<rparr>"

lemma lawful_map_kv: "lawful_kv map_kv"
  by (auto simp: lawful_kv_def map_kv_def)

section \<open>The list of servers\<close>

text \<open>Both take the lock; while it is held by a goroutine that waits for ever, they wait too.\<close>

definition SetServiceList :: "string \<Rightarrow> string \<Rightarrow> setting \<Rightarrow> setting outcome" where
  "SetServiceList key val st =
     (if ServerListLock (GlobalSetting st) then Blocks st
      else Returns (st\<lparr>GlobalSetting := (GlobalSetting st)\<lparr>ServerList :=
             fmupd key val (ServerList (GlobalSetting st))\<rparr>\<rparr>))"

definition DelServiceList :: "string \<Rightarrow> setting \<Rightarrow> setting outcome" where
  "DelServiceList key st =
     (if ServerListLock (GlobalSetting st) then Blocks st
      else Returns (st\<lparr>GlobalSetting := (GlobalSetting st)\<lparr>ServerList :=
             fmdrop key (ServerList (GlobalSetting st))\<rparr>\<rparr>))"

text \<open>
  The key-values of a response, in their order; a value may be nil. The addresses found are
  returned and, one by one, put into the list.
\<close>

fun extract_loop :: "(string \<times> string option) list \<Rightarrow> string list \<Rightarrow> setting \<Rightarrow> (string list \<times> setting) outcome" where
  "extract_loop [] addrs st = Returns (addrs, st)"
| "extract_loop ((key, None) # kvs) addrs st = extract_loop kvs addrs st"
| "extract_loop ((key, Some v) # kvs) addrs st =
     (case SetServiceList key v st of
        Returns st1 \<Rightarrow> extract_loop kvs (addrs @ [v]) st1
      | Blocks st1 \<Rightarrow> Blocks (addrs, st1)
      | Panics st1 \<Rightarrow> Panics (addrs, st1))"

definition extractAddrs :: "(string \<times> string option) list option \<Rightarrow> setting \<Rightarrow> (string list \<times> setting) outcome" where
  "extractAddrs resp st =
     (case resp of None \<Rightarrow> Returns ([], st) | Some kvs \<Rightarrow> extract_loop kvs [] st)"

datatype event = PUT string string | DELETE string

definition on_event :: "event \<Rightarrow> setting \<Rightarrow> setting outcome" where
  "on_event ev st = (case ev of PUT key val \<Rightarrow> SetServiceList key val st | DELETE key \<Rightarrow> DelServiceList key st)"

fun on_events :: "event list \<Rightarrow> setting \<Rightarrow> setting outcome" where
  "on_events [] st = Returns st"
| "on_events (ev # evs) st = outcome_then (on_event ev st) (on_events evs)"

text \<open>The goroutine \<open>watcher\<close>, over the responses that have come so far.\<close>

fun watcher :: "event list list \<Rightarrow> setting \<Rightarrow> setting outcome" where
  "watcher [] st = Returns st"
| "watcher (evs # resps) st = outcome_then (on_events evs st) (watcher resps)"

text \<open>
  \<open>GetService\<close>: the state of a discovery is the configuration and whether a watcher was started.
  The watch begins when that goroutine runs, after \<open>Get\<close> was answered.
\<close>

definition GetService ::
  "string + (string \<times> string option) list option \<Rightarrow> setting \<Rightarrow> ((string, string list) fallible \<times> bool \<times> setting) outcome" where
  "GetService resp st =
     (case resp of
        Inl err \<Rightarrow> Returns (Err err, False, st)
      | Inr r \<Rightarrow>
          (case extractAddrs r st of
             Returns (addrs, st1) \<Rightarrow> Returns (Ok addrs, True, st1)
           | Blocks (addrs, st1) \<Rightarrow> Blocks (Ok addrs, False, st1)
           | Panics (addrs, st1) \<Rightarrow> Panics (Ok addrs, False, st1)))"

section \<open>Registration\<close>

text \<open>
  The lease client: what \<open>Grant\<close> answers to a time to live (an error or a lease id), and what
  \<open>KeepAlive\<close> answers for a lease (an error or nil).
\<close>

record lease_client =
  Grant :: "int \<Rightarrow> string + int"
  KeepAlive :: "int \<Rightarrow> string option"

record serviceReg =
  leaseResp :: "int option"
  cancelled :: bool

definition setLease :: "lease_client \<Rightarrow> int \<Rightarrow> serviceReg \<Rightarrow> string option \<times> serviceReg" where
  "setLease lc timeNum ser =
     (case Grant lc timeNum of
        Inl err \<Rightarrow> (Some err, ser)
      | Inr leaseId \<Rightarrow>
          (case KeepAlive lc leaseId of
             Some err \<Rightarrow> (Some err, ser)
           | None \<Rightarrow> (None, ser\<lparr>leaseResp := Some leaseId\<rparr>)))"

text \<open>\<open>new\<close>: the client of the endpoints, or the error of making it.\<close>

definition NewServiceReg ::
  "(string list \<Rightarrow> string + lease_client) \<Rightarrow> string list \<Rightarrow> int \<Rightarrow> string + serviceReg" where
  "NewServiceReg new addr timeNum =
     (case new addr of
        Inl err \<Rightarrow> Inl err
      | Inr lc \<Rightarrow>
          (case setLease lc timeNum \<lparr>leaseResp = None, cancelled = False\<rparr> of
             (Some err, _) \<Rightarrow> Inl err
           | (None, ser) \<Rightarrow> Inr ser))"

text \<open>
  The goroutine that reads the keep-alive channel: \<open>None\<close> is the nil response of a closed channel,
  which ends it. The result is whether it has ended after these responses.
\<close>

fun ListenLeaseRespChan :: "'r option list \<Rightarrow> bool" where
  "ListenLeaseRespChan [] = False"
| "ListenLeaseRespChan (None # resps) = True"
| "ListenLeaseRespChan (Some r # resps) = ListenLeaseRespChan resps"

lemma ListenLeaseRespChan_iff: "ListenLeaseRespChan resps \<longleftrightarrow> None \<in> set resps"
  by (induction resps rule: ListenLeaseRespChan.induct) auto

text \<open>\<open>put\<close>: the key-value client of the service, a put under a lease. Without a lease: a nil pointer.\<close>

definition PutService ::
  "(int \<Rightarrow> string \<Rightarrow> string \<Rightarrow> 'e \<Rightarrow> string option \<times> 'e) \<Rightarrow> serviceReg \<Rightarrow> string \<Rightarrow> string \<Rightarrow> 'e \<Rightarrow> (string, unit) fallible \<times> 'e" where
  "PutService put ser key val e =
     (case leaseResp ser of
        None \<Rightarrow> (Panic, e)
      | Some leaseId \<Rightarrow>
          (case put leaseId key val e of
             (None, e1) \<Rightarrow> (Ok (), e1)
           | (Some err, e1) \<Rightarrow> (Err err, e1)))"

definition RevokeLease ::
  "(int \<Rightarrow> 'e \<Rightarrow> string option \<times> 'e) \<Rightarrow> serviceReg \<Rightarrow> 'e \<Rightarrow> (string, unit) fallible \<times> serviceReg \<times> 'e" where
  "RevokeLease revoke ser e =
     (case leaseResp ser of
        None \<Rightarrow> (Panic, ser, e)
      | Some leaseId \<Rightarrow>
          (case revoke leaseId e of
             (None, e1) \<Rightarrow> (Ok (), ser\<lparr>cancelled := True\<rparr>, e1)
           | (Some err, e1) \<Rightarrow> (Err err, ser\<lparr>cancelled := True\<rparr>, e1)))"

section \<open>Replaying events\<close>

text \<open>What the events of a prefix make of the service's own map.\<close>

definition apply_event :: "event \<Rightarrow> (string, string) fmap \<Rightarrow> (string, string) fmap" where
  "apply_event ev m = (case ev of PUT k v \<Rightarrow> fmupd k v m | DELETE k \<Rightarrow> fmdrop k m)"

definition replay :: "event list \<Rightarrow> (string, string) fmap \<Rightarrow> (string, string) fmap" where
  "replay evs m = fold apply_event evs m"

lemma replay_append: "replay (xs @ ys) m = replay ys (replay xs m)"
  by (simp add: replay_def)

definition with_list :: "(string, string) fmap \<Rightarrow> setting \<Rightarrow> setting" where
  "with_list m st = st\<lparr>GlobalSetting := (GlobalSetting st)\<lparr>ServerList := m\<rparr>\<rparr>"

lemma with_list_simps [simp]:
  "ServerList (GlobalSetting (with_list m st)) = m"
  "ServerListLock (GlobalSetting (with_list m st)) = ServerListLock (GlobalSetting st)"
  "with_list m (with_list m' st) = with_list m st"
  "with_list (ServerList (GlobalSetting st)) st = st"
  by (simp_all add: with_list_def)

lemma SetServiceList_free:
  "\<not> ServerListLock (GlobalSetting st) \<Longrightarrow>
   SetServiceList k v st = Returns (with_list (fmupd k v (ServerList (GlobalSetting st))) st)"
  by (simp add: SetServiceList_def with_list_def)

lemma on_events_replay:
  "\<not> ServerListLock (GlobalSetting st) \<Longrightarrow>
   on_events evs st = Returns (with_list (replay evs (ServerList (GlobalSetting st))) st)"
proof (induction evs arbitrary: st)
  case (Cons ev evs)
  have "on_event ev st = Returns (with_list (apply_event ev (ServerList (GlobalSetting st))) st)"
    using Cons.prems
    by (cases ev) (simp_all add: on_event_def apply_event_def SetServiceList_def DelServiceList_def with_list_def)
  then show ?case using Cons by (simp add: replay_def)
qed (simp add: replay_def)

lemma watcher_replay:
  "\<not> ServerListLock (GlobalSetting st) \<Longrightarrow>
   watcher resps st = Returns (with_list (replay (concat resps) (ServerList (GlobalSetting st))) st)"
  by (induction resps arbitrary: st) (simp_all add: on_events_replay replay_append, simp add: replay_def)

lemma extract_loop_free:
  "\<not> ServerListLock (GlobalSetting st) \<Longrightarrow>
   extract_loop (map (\<lambda>(k, v). (k, Some v)) kvs) addrs st =
     Returns (addrs @ map snd kvs, with_list (replay (map (\<lambda>(k, v). PUT k v) kvs) (ServerList (GlobalSetting st))) st)"
  by (induction kvs arbitrary: addrs st)
    (auto simp: SetServiceList_free replay_def apply_event_def)

lemma replay_puts:
  "distinct (map fst kvs) \<Longrightarrow> fmlookup (replay (map (\<lambda>(k, v). PUT k v) kvs) m) k =
     (case map_of kvs k of None \<Rightarrow> fmlookup m k | Some v \<Rightarrow> Some v)"
proof (induction kvs arbitrary: m)
  case (Cons kv kvs)
  obtain k' v where kv: "kv = (k', v)" by (cases kv)
  have "map_of kvs k' = None" using Cons.prems by (auto simp: kv map_of_eq_None_iff)
  then show ?case using Cons by (simp add: kv replay_def apply_event_def split: option.split)
qed (simp add: replay_def)

text \<open>A key that no event names keeps what it had.\<close>

definition names_key :: "string \<Rightarrow> event \<Rightarrow> bool" where
  "names_key k ev = (case ev of PUT k' _ \<Rightarrow> k' = k | DELETE k' \<Rightarrow> k' = k)"

lemma replay_untouched:
  "list_all (\<lambda>ev. \<not> names_key k ev) evs \<Longrightarrow> fmlookup (replay evs m) k = fmlookup m k"
  by (induction evs arbitrary: m)
    (auto simp: replay_def names_key_def apply_event_def split: event.splits)

end
