(* ===== verification/Discovery.thy ===== *)
theory Discovery
  imports Etcd Rpc
begin

text \<open>
  What the list of servers is worth: it follows the service as long as the watch misses no event,
  and the broadcasts that use it.
\<close>

text \<open>The answer of the service to \<open>Get\<close> with a prefix after the events \<open>before\<close>: each key once.\<close>

definition snapshot :: "(string \<times> string) list \<Rightarrow> event list \<Rightarrow> bool" where
  "snapshot kvs before \<longleftrightarrow> distinct (map fst kvs) \<and> map_of kvs = fmlookup (replay before fmempty)"

definition response :: "(string \<times> string) list \<Rightarrow> string + (string \<times> string option) list option" where
  "response kvs = Inr (Some (map (\<lambda>(k, v). (k, Some v)) kvs))"

lemma GetService_snapshot:
  assumes "\<not> ServerListLock (GlobalSetting st)" and "ServerList (GlobalSetting st) = fmempty"
    and "snapshot kvs before"
  shows "GetService (response kvs) st =
    Returns (Ok (map snd kvs), True, with_list (replay before fmempty) st)"
proof -
  have "replay (map (\<lambda>(k, v). PUT k v) kvs) fmempty = replay before fmempty"
    using assms(3) by (intro fmap_ext) (simp add: snapshot_def replay_puts split: option.split)
  then show ?thesis
    using assms(1,2) by (simp add: GetService_def response_def extractAddrs_def extract_loop_free)
qed

text \<open>
  C22. Discovery follows etcd: if the watch delivers every event from the answer to \<open>Get\<close> on, then
  however they are grouped into responses the list of servers is at each moment the map that
  the service holds under the prefix, and the call returns the addresses found.
\<close>

theorem discovery_follows_etcd:
  assumes "\<not> ServerListLock (GlobalSetting st)" and "ServerList (GlobalSetting st) = fmempty"
    and "snapshot kvs before"
  shows "\<exists>st1. GetService (response kvs) st = Returns (Ok (map snd kvs), True, st1) \<and>
    (\<forall>resps. \<exists>st2. watcher resps st1 = Returns st2 \<and>
       ServerList (GlobalSetting st2) = replay (before @ concat resps) fmempty)"
  using GetService_snapshot [OF assms] assms(1) by (simp add: watcher_replay replay_append)

definition lone :: setting where
  "lone = with_list fmempty two_servers"

lemma lone_simps [simp]: "\<not> ServerListLock (GlobalSetting lone)" "ServerList (GlobalSetting lone) = fmempty"
  by (simp_all add: lone_def two_servers_def)

abbreviation (input) srv_a :: string where "srv_a \<equiv> ''/wsServers/10.0.0.1:7900''"

lemma snapshot_a: "snapshot [(srv_a, ''10.0.0.1:7900'')] [PUT srv_a ''10.0.0.1:7900'']"
  by (auto simp: snapshot_def replay_def apply_event_def)

lemma discovery_follows_etcd_witness:
  "\<exists>st1 st2. GetService (response [(srv_a, ''10.0.0.1:7900'')]) lone = Returns (Ok [''10.0.0.1:7900''], True, st1) \<and>
     watcher [[PUT ''/wsServers/x'' ''x''], [DELETE srv_a]] st1 = Returns st2 \<and>
     ServerList (GlobalSetting st2) = fmdrop srv_a (fmupd ''/wsServers/x'' ''x'' (fmupd srv_a ''10.0.0.1:7900'' fmempty))"
proof -
  obtain st1 where st1: "GetService (response [(srv_a, ''10.0.0.1:7900'')]) lone = Returns (Ok [''10.0.0.1:7900''], True, st1)"
    and all: "\<forall>resps. \<exists>st2. watcher resps st1 = Returns st2 \<and>
       ServerList (GlobalSetting st2) = replay ([PUT srv_a ''10.0.0.1:7900''] @ concat resps) fmempty"
    using discovery_follows_etcd [OF lone_simps snapshot_a] by auto
  obtain st2 where "watcher [[PUT ''/wsServers/x'' ''x''], [DELETE srv_a]] st1 = Returns st2"
    and "ServerList (GlobalSetting st2) = replay ([PUT srv_a ''10.0.0.1:7900''] @
      concat [[PUT ''/wsServers/x'' ''x''], [DELETE srv_a]]) fmempty"
    using all by blast
  then show ?thesis using st1 by (auto simp: replay_def apply_event_def)
qed

text \<open>
  C23. The gap: the watch begins only after \<open>Get\<close> was answered, so what happens in between is lost.
  A server that leaves then and is not named again stays in the list for good. It answers no
  call, so the next request for an online list never returns, and it keeps the lock of the
  list: no broadcast gets through after it, and no event of the watch is taken in.
\<close>

theorem discovery_gap:
  assumes "\<not> ServerListLock (GlobalSetting st)" and "ServerList (GlobalSetting st) = fmempty"
    and "snapshot kvs before" and "fmlookup (replay before fmempty) k = Some a"
    and "fmlookup (replay (before @ gap) fmempty) k = None"
    and "list_all (\<lambda>ev. \<not> names_key k ev) (concat resps)" and "\<And>req. answer a req = None"
  shows "\<exists>addrs st1 st2. GetService (response kvs) st = Returns (Ok addrs, True, st1) \<and>
    watcher resps st1 = Returns st2 \<and>
    fmlookup (replay (before @ gap @ concat resps) fmempty) k = None \<and>
    fmlookup (ServerList (GlobalSetting st2)) k = Some a \<and>
    (\<forall>arrival sys grp. ranges arrival (ServerList (GlobalSetting st2)) \<longrightarrow>
       (\<exists>st3. GetOnlineListBroadcast (\<lambda>_. True) answer arrival st2 (Some sys) (Some grp) = Some (None, st3) \<and>
          (\<forall>dial order req out. broadcast dial order st3 req out = Blocks out) \<and>
          (\<forall>ev. on_event ev st3 = Blocks st3)))"
proof -
  let ?st2 = "with_list (replay (concat resps) (replay before fmempty)) st"
  have stale: "fmlookup (ServerList (GlobalSetting ?st2)) k = Some a"
    using assms(4) replay_untouched [OF assms(6)] by simp
  have hang: "GetOnlineListBroadcast (\<lambda>_. True) answer arrival ?st2 (Some sys) (Some grp) = Some (None, hold_lock ?st2)"
    if "ranges arrival (ServerList (GlobalSetting ?st2))" for arrival sys grp
  proof (rule online_list_unanswered [OF _ that])
    have "k \<in> set arrival" using that fmdomI [OF stale] by (simp add: ranges_def)
    then show "a \<in> set (servers_in arrival ?st2)"
      using stale by (auto simp: servers_in_def set_map_filter_iff)
  qed (use assms(1,7) in \<open>simp_all add: list_all_iff\<close>)
  have "\<forall>dial order req out. broadcast dial order (hold_lock ?st2) req out = Blocks out"
    and "\<forall>ev. on_event ev (hold_lock ?st2) = Blocks (hold_lock ?st2)"
    by (simp_all add: broadcast_def on_event_def SetServiceList_def DelServiceList_def hold_lock_def split: event.split)
  moreover have "fmlookup (replay (before @ gap @ concat resps) fmempty) k = None"
    using assms(5) replay_untouched [OF assms(6)] by (simp add: replay_append)
  ultimately show ?thesis
    using GetService_snapshot [OF assms(1-3)] assms(1) stale hang
    by (intro exI [of _ "map snd kvs"] exI [of _ "with_list (replay before fmempty) st"] exI [of _ ?st2])
      (auto simp: watcher_replay)
qed

lemma discovery_gap_witness:
  "\<exists>addrs st1 st2 st3. GetService (response [(srv_a, ''10.0.0.1:7900'')]) lone = Returns (Ok addrs, True, st1) \<and>
     watcher [] st1 = Returns st2 \<and>
     GetOnlineListBroadcast (\<lambda>_. True) (\<lambda>_ _. None) [srv_a] st2 (Some ''im'') (Some ''g'') = Some (None, st3)"
proof -
  have "ranges [srv_a] (ServerList (GlobalSetting st2))"
    if "GetService (response [(srv_a, ''10.0.0.1:7900'')]) lone = Returns (Ok addrs, True, st1)"
      "watcher [] st1 = Returns st2" for addrs st1 st2
    using that GetService_snapshot [OF lone_simps snapshot_a]
    by (auto simp: replay_def apply_event_def ranges_def)
  then show ?thesis
    using discovery_gap [OF lone_simps snapshot_a, of srv_a "''10.0.0.1:7900''" "[DELETE srv_a]" "[]" "\<lambda>_ _. None"]
    by (simp add: replay_def apply_event_def) blast
qed

end
