(* ===== verification/ReadLoop.thy ===== *)
theory ReadLoop
  imports ServerFacts
begin

text \<open>
  The read loop of servers/client.go as a whole: \<open>Read\<close> on whatever \<open>ReadMessage\<close> returns, round
  after round, and what the server has seen of a client when it ends.
\<close>

section \<open>The loop\<close>

text \<open>The goroutine goes on as long as no round has ended it; with nothing more to read it waits.\<close>

fun Read :: "(conn \<Rightarrow> bool) \<Rightarrow> cref \<Rightarrow> read_result list \<Rightarrow> server \<Rightarrow> server outcome" where
  "Read up c [] s = Returns s"
| "Read up c (result # results) s =
     outcome_then (Read_round up c result s)
       (\<lambda>s1. if c \<in> set (Readers s1) then Read up c results s1 else Returns s1)"

section \<open>One goroutine for each client\<close>

lemma Readers_same:
  "send_Connect c s = Returns s' \<Longrightarrow> Readers s' = Readers s" "send_DisConnect c s = Returns s' \<Longrightarrow> Readers s' = Readers s"
  "send_client v s = Returns s' \<Longrightarrow> Readers s' = Readers s" "with_outbox f s = Returns s' \<Longrightarrow> Readers s' = Readers s"
  by (auto simp: send_iff with_outbox_def split: outcome.splits)

lemma Readers_CloseClient: "CloseClient dial i sys addr s = Returns s' \<Longrightarrow> Readers s' = Readers s"
  by (auto simp: CloseClient_def CloseLocalClient_def dest!: Readers_same
      split: fallible.splits sum.splits option.splits if_splits)

lemma Readers_Read_round:
  "Read_round up c result s = Returns s' \<Longrightarrow> Readers s' = Readers s \<or> Readers s' = remove1 c (Readers s)"
  by (auto simp: Read_round_def outcome_then_Returns reader_done_def handle_message_def write_json_def
      dest!: Readers_same split: option.splits read_result.splits if_splits)

lemma Readers_Start: "Start pick rs s = Returns s' \<Longrightarrow> Readers s' = Readers s"
  by (auto simp: Start_def EventConnect_def EventDisconnect_def Let_def core_fields(3) [OF core_notify_groups]
      recv_event_def recv_Connect_def recv_DisConnect_def split: option.splits sum.splits if_splits list.splits)

lemma step_Readers:
  assumes "sys_step s a p s'" and "sys_inv s" and "distinct (Readers s)"
  shows "distinct (Readers s')"
  using assms(1)
proof (cases rule: sys_step.cases)
  case (refuse k grow up r now)
  then show ?thesis using core_fields(3) [OF Run_open_None] assms(3) by metis
next
  case (accept k grow up r now c s1)
  then have "Readers s' = Readers s @ [c]" "c = next_client (Manager s)"
    using Run_open_Some [OF accept(5)] by simp_all
  then show ?thesis using sys_invD(7) [OF assms(2), of c] assms(3) by (auto simp: allocated_def)
next
  case (greet c up ok s1)
  then show ?thesis using core_fields(3) [OF core_Run_greet] assms(3) by simp
next
  case (read c up result)
  then show ?thesis using Readers_Read_round [OF read(4)] assms(3) by auto
next
  case (event pick rs)
  then show ?thesis using Readers_Start assms(3) by simp
next
  case (send r i u code msg data mid)
  then show ?thesis using SendMessage2Client_Returns(2) [OF send(3)] assms(3) by simp
next
  case (tick keys)
  then show ?thesis using assms(3) by simp
qed (use assms(3) in \<open>auto simp: SendMessage2Group_def SendMessage2System_def run_broadcast_def Let_def
      recv_iff GetOnlineList_def ping_one_def write_one_def Render_def write_json_def
    dest!: Readers_same Readers_CloseClient split: if_splits option.splits prod.splits\<close>)

lemma reach_Readers: "sys_reach cfg acc psh s \<Longrightarrow> distinct (Readers s)"
proof (induction rule: sys_reach.induct)
  case start
  then show ?case by (simp add: server_init_def)
next
  case (step acc psh s a p s')
  then show ?case using step_Readers sys_reach_inv by blast
qed

section \<open>What the loop comes to\<close>

text \<open>The reads, as a specification sees them.\<close>

definition ends_loop :: "read_result \<Rightarrow> bool" where
  "ends_loop result \<longleftrightarrow> (case result of ReadError messageType code \<Rightarrow> messageType \<noteq> 9 | ReadMessage j \<Rightarrow> False)"

definition says_goodbye :: "read_result \<Rightarrow> bool" where
  "says_goodbye result \<longleftrightarrow> (\<exists>n \<in> {1000, 1001, 1005}. result = ReadError (-1) (Some n))"

definition asks_keep_live :: "read_result \<Rightarrow> bool" where
  "asks_keep_live result \<longleftrightarrow>
     (case result of ReadMessage j \<Rightarrow> TypeMessage_Type j = JStr ''KeepLive'' | ReadError messageType code \<Rightarrow> False)"

definition before_end :: "read_result list \<Rightarrow> read_result list" where
  "before_end results = takeWhile (\<lambda>result. \<not> ends_loop result) results"

definition the_end :: "read_result list \<Rightarrow> read_result option" where
  "the_end results = List.find ends_loop results"

lemma read_simps:
  "before_end [] = []" "the_end [] = None"
  "before_end (x # xs) = (if ends_loop x then [] else x # before_end xs)"
  "the_end (x # xs) = (if ends_loop x then Some x else the_end xs)"
  by (simp_all add: before_end_def the_end_def)

lemma Read_round_spec:
  assumes "Socket (client_of s c) = Some k" and "length (DisConnect (Manager s)) < cap_DisConnect"
  shows "Read_round up c x s = Returns (s\<lparr>
    frames := (frames s)(k := frames s k @ (if asks_keep_live x \<and> up k \<and> \<not> closed s k then [keep_live_reply] else [])),
    Readers := (if ends_loop x then remove1 c (Readers s) else Readers s),
    Manager := (Manager s)\<lparr>DisConnect := DisConnect (Manager s) @ (if says_goodbye x then [c] else [])\<rparr>\<rparr>)"
proof (cases x)
  case (ReadError t code)
  then show ?thesis
    using assms
    by (cases code) (auto simp: Read_round_def IsCloseError_def CloseGoingAway_def CloseNormalClosure_def
        CloseNoStatusReceived_def PingMessage_def send_DisConnect_def chan_send_def reader_done_def
        handle_message_def TypeMessage_Type_def asks_keep_live_def ends_loop_def says_goodbye_def)
next
  case (ReadMessage j)
  then show ?thesis
    using assms(1)
    by (auto simp: Read_round_def handle_message_def write_json_def asks_keep_live_def ends_loop_def says_goodbye_def)
qed

text \<open>
  C38. The read loop of a client in a reachable state, on any sequence of reads (with room on
  \<open>DisConnect\<close>, and no other goroutine in between): it answers each keep-live message before the first error, one frame each as long
  as the connection takes them, and nothing else that is sent to it has any effect. The first
  error that is not of type ping ends the goroutine, and nothing after it is read. Only if that
  error is a close frame with code 1000, 1001 or 1005 the client is queued on \<open>DisConnect\<close>, once;
  after any other end, such as a connection that breaks off, no event is raised.
\<close>

theorem Read_loop:
  assumes "sys_reach cfg acc psh s" and "c \<in> set (Readers s)" and "Socket (client_of s c) = Some k"
    and "length (DisConnect (Manager s)) < cap_DisConnect"
  shows "Read up c results s = Returns (s\<lparr>
    frames := (frames s)(k := frames s k @
      (if up k \<and> \<not> closed s k then replicate (length (filter asks_keep_live (before_end results))) keep_live_reply
       else [])),
    Readers := (if the_end results = None then Readers s else remove1 c (Readers s)),
    Manager := (Manager s)\<lparr>DisConnect := DisConnect (Manager s) @
      (case the_end results of Some x \<Rightarrow> if says_goodbye x then [c] else [] | None \<Rightarrow> [])\<rparr>\<rparr>)"
  using reach_Readers [OF assms(1)] assms(2-4)
proof (induction results arbitrary: s)
  case Nil
  show ?case by (simp add: read_simps cong: if_cong)
next
  case (Cons x xs)
  note one = Read_round_spec [OF Cons.prems(3,4), of up x]
  show ?case
  proof (cases "ends_loop x")
    case True
    then show ?thesis
      using one Cons.prems(1,2)
      by (auto simp: read_simps asks_keep_live_def ends_loop_def split: read_result.splits cong: if_cong)
  next
    case False
    then have "\<not> says_goodbye x" by (auto simp: ends_loop_def says_goodbye_def)
    let ?s = "s\<lparr>frames := (frames s)(k := frames s k @
      (if asks_keep_live x \<and> up k \<and> \<not> closed s k then [keep_live_reply] else []))\<rparr>"
    have "Read_round up c x s = Returns ?s" using one False \<open>\<not> says_goodbye x\<close> by simp
    then have "Read up c (x # xs) s = Read up c xs ?s" using Cons.prems(2) by simp
    moreover have "Socket (client_of ?s c) = Some k" using Cons.prems(3) by (simp add: client_of_def)
    note Cons.IH [OF _ _ this]
    ultimately show ?thesis using False Cons.prems(1,2,4) by (auto simp: read_simps cong: if_cong)
  qed
qed

lemma Read_loop_witness:
  "Read (\<lambda>_. True) 0 [ReadMessage None, ReadMessage (Some (JObj [(''Type'', JStr ''KeepLive'')])),
     ReadError (-1) (Some 1000), ReadMessage None] srv1 =
   Returns (srv1\<lparr>frames := (\<lambda>_. [])(7 := [keep_live_reply]), Readers := [], Manager := m1\<lparr>DisConnect := [0]\<rparr>\<rparr>)"
proof -
  let ?ask = "ReadMessage (Some (JObj [(''Type'', JStr ''KeepLive'')]))"
  let ?reads = "[ReadMessage None, ?ask, ReadError (-1) (Some 1000), ReadMessage None]"
  have reads: "asks_keep_live ?ask" "\<not> asks_keep_live (ReadMessage None)" "\<not> ends_loop (ReadMessage j)"
    "ends_loop (ReadError (-1) (Some 1000))" "says_goodbye (ReadError (-1) (Some 1000))" for j
    by (simp_all add: asks_keep_live_def TypeMessage_Type_def ends_loop_def says_goodbye_def field_values_def field_of_def)
  have ends: "filter asks_keep_live (before_end ?reads) = [?ask]" "the_end ?reads = Some (ReadError (-1) (Some 1000))"
    by (simp_all add: read_simps reads)
  show ?thesis
    using Read_loop [OF srv1_reach, of 0 7 "\<lambda>_. True" ?reads] unfolding ends
    by (simp add: reads(5) cap_DisConnect_def del: Read.simps)
qed

end
