(* ===== verification/Gone.thy ===== *)
theory Gone
  imports ServerFacts
begin

text \<open>
  Connections that are gone: what every later step of the server leaves alone, and what becomes
  of a client whose connection has ended.
\<close>

section \<open>What later steps keep\<close>

text \<open>A client keeps its id and its connection, and a closed connection stays closed.\<close>

definition keeps_conns :: "server \<Rightarrow> server \<Rightarrow> bool" where
  "keeps_conns s s' \<longleftrightarrow>
     (\<forall>c. allocated s c \<longrightarrow> allocated s' c \<and> Socket (client_of s' c) = Socket (client_of s c) \<and>
        ClientId (client_of s' c) = ClientId (client_of s c)) \<and>
     (\<forall>k. closed s k \<longrightarrow> closed s' k)"

lemma keepsD:
  assumes "keeps_conns s s'"
  shows "allocated s c \<Longrightarrow> allocated s' c" "allocated s c \<Longrightarrow> Socket (client_of s' c) = Socket (client_of s c)"
    "allocated s c \<Longrightarrow> ClientId (client_of s' c) = ClientId (client_of s c)" "closed s k \<Longrightarrow> closed s' k"
  using assms unfolding keeps_conns_def by blast+

lemma keeps_refl [simp]: "keeps_conns s s" by (simp add: keeps_conns_def)

lemma keeps_trans: "keeps_conns s s1 \<Longrightarrow> keeps_conns s1 s2 \<Longrightarrow> keeps_conns s s2"
  unfolding keeps_conns_def by metis

lemma keeps_quiet: "quiet s s' \<Longrightarrow> (\<And>k. closed s k \<Longrightarrow> closed s' k) \<Longrightarrow> keeps_conns s s'"
  by (simp add: keeps_conns_def quiet_def allocated_def)

lemma keeps_core: "core s' = core s \<Longrightarrow> (\<And>k. closed s k \<Longrightarrow> closed s' k) \<Longrightarrow> keeps_conns s s'"
  using core_fields(1) [of s' s] by (simp add: keeps_conns_def allocated_def client_of_def)

lemma closed_send:
  "send_client v s = Returns s' \<Longrightarrow> closed s' = closed s"
  "send_Connect c s = Returns s' \<Longrightarrow> closed s' = closed s"
  "send_DisConnect c s = Returns s' \<Longrightarrow> closed s' = closed s"
  by (auto simp: send_iff)

lemma closed_Render: "Render up k mid u code m d s = (ok, s') \<Longrightarrow> closed s' = closed s"
  by (auto simp: Render_def write_json_iff split: if_splits)

lemma closed_write_one: "write_one up info c s = Returns s' \<Longrightarrow> closed s' = closed s"
  by (auto simp: write_one_def dest!: closed_send closed_Render split: option.splits if_splits prod.splits)

lemma closed_Read_round: "Read_round up c result s = Returns s' \<Longrightarrow> closed s' = closed s"
  by (auto simp: Read_round_def outcome_then_Returns reader_done_def handle_message_def write_json_def
      dest!: closed_send split: option.splits read_result.splits if_splits)

lemma closed_with_outbox: "with_outbox f s = Returns s' \<Longrightarrow> closed s' = closed s"
  by (auto simp: with_outbox_def split: outcome.splits)

lemma closed_CloseClient: "CloseClient dial i sys addr s = Returns s' \<Longrightarrow> closed s' = closed s"
  by (auto simp: CloseClient_def CloseLocalClient_def dest!: closed_send closed_with_outbox
      split: fallible.splits sum.splits option.splits if_splits)

lemma closed_notify_groups: "closed (notify_groups rs cl gs s) = closed s"
  by (induction rs cl gs s rule: notify_groups.induct) (simp_all add: SendMessage2Group_def Let_def)

lemma closed_Start: "Start pick rs s = Returns s' \<Longrightarrow> closed s k \<Longrightarrow> closed s' k"
  by (auto simp: Start_def EventConnect_def EventDisconnect_def Let_def closed_notify_groups recv_event_def
      recv_Connect_def recv_DisConnect_def split: option.splits sum.splits if_splits list.splits)

lemma closed_Run_open: "Run_open grow up r k now s = (x, s') \<Longrightarrow> closed s l \<Longrightarrow> closed s' l"
  by (auto simp: Run_open_def Let_def dest!: closed_Render split: option.splits if_splits prod.splits)

lemma closed_Run_greet: "Run_greet up c s = (ok, s') \<Longrightarrow> closed s l \<Longrightarrow> closed s' l"
  by (auto simp: Run_greet_def ConnRender_def write_json_def split: option.splits if_splits prod.splits)

lemma keeps_accept:
  assumes "Run_open grow up r (Some k) now s = (Some c, s')"
  shows "keeps_conns s s'"
  using Run_open_Some [OF assms] by (auto simp: keeps_conns_def allocated_def client_of_def new_client_def)

lemma keeps_upd:
  "keeps_conns s (s'\<lparr>Handlers := hs\<rparr>) = keeps_conns s s'" "keeps_conns s (s'\<lparr>Writing := w\<rparr>) = keeps_conns s s'"
  "keeps_conns s (s'\<lparr>Senders := q\<rparr>) = keeps_conns s s'" "keeps_conns s (s'\<lparr>Broadcasts := bs\<rparr>) = keeps_conns s s'"
  "keeps_conns s (s'\<lparr>ToClientChan := q\<rparr>) = keeps_conns s s'"
  by (simp_all add: keeps_conns_def allocated_def client_of_def)

lemma sys_step_keeps:
  assumes "sys_step s a p s'" and "sys_inv s"
  shows "keeps_conns s s'"
  using assms(1)
proof (cases rule: sys_step.cases)
  case (refuse k grow up r now)
  then show ?thesis using keeps_core [OF Run_open_None] closed_Run_open by blast
next
  case (accept k grow up r now c s1)
  then show ?thesis using keeps_accept by (simp add: keeps_upd)
next
  case (greet c up ok s1)
  then show ?thesis using keeps_core [OF core_Run_greet] closed_Run_greet by (simp add: keeps_upd)
next
  case (connect c s1)
  then show ?thesis using keeps_quiet [OF quiet_send(1)] closed_send(2) by (simp add: keeps_upd)
next
  case (read c up result)
  then have "Manager s' = Manager s \<or> (\<exists>q. Manager s' = (Manager s)\<lparr>DisConnect := q\<rparr>)"
    by (auto simp: Read_round_def outcome_then_Returns reader_done_def handle_message_def write_json_def send_iff
        split: option.splits read_result.splits if_splits)
  then show ?thesis
    using closed_Read_round [OF read(4)] by (auto simp: keeps_conns_def allocated_def client_of_def)
next
  case (event pick rs)
  then show ?thesis using keeps_quiet [OF quiet_Start [OF assms(2)]] closed_Start by blast
next
  case (send r i u code msg data mid)
  then show ?thesis using SendMessage2Client_Returns(2) [OF send(3)] by (simp add: keeps_upd)
next
  case (sender info s1)
  then show ?thesis by (auto simp: send_iff keeps_upd)
next
  case (fetch info s1 order)
  then show ?thesis by (auto simp: recv_iff keeps_upd)
next
  case (deliver info c cs up s1)
  then have "keeps_conns s s1"
    by (auto simp: keeps_conns_def write_one_def Render_def write_json_def send_iff allocated_def client_of_def
        split: option.splits if_splits)
  then show ?thesis using deliver by (simp add: keeps_upd)
next
  case (delivered info)
  then show ?thesis by (simp add: keeps_upd)
next
  case (tick keys)
  note frame = AllClient_frame [OF servedD(1) [OF sys_invD(1) [OF assms(2)]] tick(4)]
  show ?thesis unfolding tick(3) by (rule keeps_quiet [OF quiet_Manager]) (simp_all add: frame)
next
  case (ping c up)
  then show ?thesis by (auto simp: ping_one_def dest: closed_send intro!: keeps_quiet [OF quiet_ping] split: option.splits if_splits)
next
  case (close dial i sys addr)
  then show ?thesis using keeps_quiet [OF quiet_CloseClient] closed_CloseClient by metis
next
  case (group r call mid)
  then show ?thesis by (auto simp: SendMessage2Group_def Let_def keeps_upd)
next
  case (system dial order r sys u code msg data)
  then have "quiet s s'" "closed s' = closed s"
    by (auto simp: SendMessage2System_def Let_def intro: quiet_with_outbox closed_with_outbox split: if_splits)
  then show ?thesis using keeps_quiet by metis
next
  case (broadcast b dial order s1)
  then have "quiet s s1" "closed s1 = closed s"
    by (auto simp: run_broadcast_def intro: quiet_with_outbox closed_with_outbox)
  then show ?thesis unfolding broadcast(3) keeps_upd using keeps_quiet by metis
next
  case (online dial answer arrival sys grp j)
  then show ?thesis
    by (intro keeps_quiet [OF quiet_GetOnlineList]) (auto simp: GetOnlineList_def split: if_splits option.splits prod.splits)
next
  case (servers l)
  then show ?thesis by (simp add: keeps_conns_def allocated_def client_of_def)
qed

lemma sys_run_keeps: "sys_run s a p s' \<Longrightarrow> sys_inv s \<Longrightarrow> keeps_conns s s'"
  by (induction rule: sys_run.induct) (auto intro: keeps_trans sys_step_keeps sys_run_inv)

lemma closed_writes:
  assumes "Socket (client_of s c) = Some k" and "closed s k"
  shows "write_one up info c s = send_DisConnect c s" and "ping_one up c s = send_DisConnect c s"
  using assms by (simp_all add: write_one_def ping_one_def Render_def write_json_def)

section \<open>The end of a connection\<close>

text \<open>
  C15. Handling the end of a connection in a reachable state, for a client whose id is not also an
  address of one of its connections: the socket is closed, the client marked as deleted and one
  entry taken from the list of its system, but the table of connections stays as it was, with
  the client in it. In every state that any further steps of the server lead to, the socket is
  still closed and still the client's, and each write to the client there, as each ping of it,
  fails and comes to sending it to \<open>DisConnect\<close> for the same treatment again.
\<close>

theorem disconnected_stays_registered:
  assumes "sys_reach cfg acc psh s" and "c < next_client (Manager s)"
    and "ClientId (client_of s c) |\<notin>| fmdom (old_conns (Manager s) (ClientId (client_of s c)))"
    and "EventDisconnect rs c s = Returns s'"
  shows "(\<forall>i. GetByClientId i (Manager s') = GetByClientId i (Manager s)) \<and> IsDeleted (client_of s' c) \<and>
    (\<exists>k. Socket (client_of s' c) = Some k \<and> closed s' k) \<and>
    length (members (Manager s') (System (ClientId (client_of s c)))) =
      length (members (Manager s) (System (ClientId (client_of s c)))) - 1 \<and>
    (\<forall>a p s2. sys_run s' a p s2 \<longrightarrow>
       (\<exists>k. Socket (client_of s2 c) = Some k \<and> closed s2 k) \<and>
       (\<forall>up info. write_one up info c s2 = send_DisConnect c s2) \<and>
       (\<forall>up. ping_one up c s2 = send_DisConnect c s2))"
proof -
  let ?i = "ClientId (client_of s c)"
  note inv = sys_reach_inv [OF assms(1)]
  note served = sys_invD(1) [OF inv]
  note del = DelClient_served [OF served assms(2)]
  obtain k where k: "Socket (client_of s c) = Some k"
    using assms(4) by (auto simp: EventDisconnect_def split: option.splits)
  define s2 where "s2 = s\<lparr>closed := (closed s)(k := True), Manager := DelClient (Some c) (Manager s)\<rparr>"
  have s2: "client_of s2 = client_of s" "GroupList (client_of s2 c) = []"
    using servedD(3) [OF served] by (simp_all add: s2_def client_of_def [abs_def] del)
  have s': "s' = s2\<lparr>Manager := set_client c ((client_of s2 c)\<lparr>IsDeleted := True\<rparr>) (Manager s2)\<rparr>"
    using assms(4) k s2 by (simp add: EventDisconnect_def Let_def s2_def [symmetric])
  have "table (DelClient (Some c) (Manager s)) = table (Manager s)"
  proof -
    have drop: "fmdrop ?i t = t" if "table (Manager s) ?i = Some t" for t
      using that assms(3) by (intro fmap_ext) (auto simp: old_conns_def fmdom_notD)
    have "t \<noteq> fmempty" if "table (Manager s) ?i = Some t" for t
      using table_invD(1) [OF mgr_invD(2) [OF servedD(1) [OF served]] that] .
    then show ?thesis
      using DelClient_table [OF mgr_invD(1) [OF servedD(1) [OF served]], of c] drop
      by (auto simp: table_after_del_def client_of_def fun_eq_iff split: option.splits)
  qed
  then have "table (Manager s') = table (Manager s)" by (simp add: s' s2_def)
  moreover have "length (members (Manager s') (System ?i)) = length (members (Manager s) (System ?i)) - 1"
    by (simp add: s' s2_def del(6) client_of_def)
  moreover have "IsDeleted (client_of s' c)" and sock: "Socket (client_of s' c) = Some k" "closed s' k"
    using k by (simp_all add: s' s2_def client_of_def del)
  moreover have "(\<exists>k. Socket (client_of s2 c) = Some k \<and> closed s2 k) \<and>
      (\<forall>up info. write_one up info c s2 = send_DisConnect c s2) \<and> (\<forall>up. ping_one up c s2 = send_DisConnect c s2)"
    if "sys_run s' a p s2" for a p s2
  proof -
    have "allocated s' c" using assms(2) by (simp add: s' s2_def allocated_def del)
    moreover have "sys_inv s'"
      using sys_inv_EventDisconnect [OF inv _ assms(4)] assms(2) by (simp add: allocated_def)
    ultimately have "Socket (client_of s2 c) = Some k" "closed s2 k"
      using keepsD [OF sys_run_keeps [OF that]] sock by simp_all
    then show ?thesis using closed_writes by blast
  qed
  ultimately show ?thesis by (simp add: GetByClientId_table)
qed

theorem disconnected_stays_registered_witness:
  "\<exists>s'. EventDisconnect (\<lambda>_ _. 0) 0 srv1 = Returns s' \<and> GetByClientId ''im'' (Manager s') = Inr (fmupd ''1.2.3.4:5'' 0 fmempty) \<and>
     IsDeleted (client_of s' 0)"
proof -
  obtain s' where s': "EventDisconnect (\<lambda>_ _. 0) 0 srv1 = Returns s'"
    by (simp add: EventDisconnect_def Let_def)
  have "GetByClientId ''im'' m1 = Inr (fmupd ''1.2.3.4:5'' 0 fmempty)" by (simp add: GetByClientId_table)
  then show ?thesis
    using disconnected_stays_registered [OF srv1_reach _ _ s'] s' by (simp add: old_conns_def)
qed

end
