(* ===== verification/WriteRace.thy ===== *)
theory WriteRace
  imports ReadLoop Gone
begin

text \<open>
  Writes to a websocket connection take time, and the library allows one writer at a time: where
  \<open>flushFrame\<close> (vendor, gorilla/websocket/conn.go) finds the flag \<open>isWriting\<close> set it panics. The
  steps of \<open>sys_step\<close> make each write at once. Here a goroutine begins a write and finishes it
  later, while the others go on, and a write begun on a connection that another goroutine is
  writing to ends the run.
\<close>

section \<open>The writers\<close>





section \<open>Runs in which writes take time\<close>







section \<open>A goroutine stays where it is\<close>














section \<open>The runs up to an overlap are those with writes at once\<close>






section \<open>Property\<close>



end
