(* ===== verification/Work.thy ===== *)
theory Work
  imports ServerFacts
begin

text \<open>
  Whether the goroutines of one server get their work done: what they do without anything new
  from outside (no request, no connection, no message read, no tick of the heartbeat) comes to
  an end however they are scheduled, and it ends only when nothing is left to do.
\<close>

section \<open>Work without anything new\<close>

text \<open>
  The steps of servers that take something off a queue: a connect handler that is past its read
  loop's start, the event loop, a sending goroutine, and \<open>WriteMessage\<close>.
\<close>

inductive work_step :: "server \<Rightarrow> server \<Rightarrow> bool" where
  greet: "(c, False) \<in> set (Handlers s) \<Longrightarrow> Run_greet up c s = (ok, s') \<Longrightarrow>
    work_step s (s'\<lparr>Handlers := (if ok then [(c, True)] else []) @ remove1 (c, False) (Handlers s')\<rparr>)"
| connect: "(c, True) \<in> set (Handlers s) \<Longrightarrow> send_Connect c s = Returns s' \<Longrightarrow>
    work_step s (s'\<lparr>Handlers := remove1 (c, True) (Handlers s')\<rparr>)"
| event: "Start pick rs s = Returns s' \<Longrightarrow> work_step s s'"
| sender: "info \<in> set (Senders s) \<Longrightarrow> send_client info s = Returns s' \<Longrightarrow>
    work_step s (s'\<lparr>Senders := remove1 info (Senders s')\<rparr>)"
| fetch: "Writing s = None \<Longrightarrow> recv_client s = Some (info, s') \<Longrightarrow> distinct order \<Longrightarrow>
    work_step s (s'\<lparr>Writing := Some (info, targets order (ci_ClientId info) s')\<rparr>)"
| deliver: "Writing s = Some (info, c # cs) \<Longrightarrow> write_one up info c s = Returns s' \<Longrightarrow>
    work_step s (s'\<lparr>Writing := Some (info, cs)\<rparr>)"
| delivered: "Writing s = Some (info, []) \<Longrightarrow> work_step s (s\<lparr>Writing := None\<rparr>)"

inductive_cases work_stepE: "work_step s s'"

lemma work_step_sys: "work_step s s' \<Longrightarrow> \<exists>p. sys_step s [] p s'"
  by (cases rule: work_step.cases; assumption?) (blast intro: sys_step.intros)+

lemma work_step_inv: "work_step s s' \<Longrightarrow> sys_inv s \<Longrightarrow> sys_inv s'"
  using work_step_sys sys_step_inv by blast

definition drained :: "server \<Rightarrow> bool" where
  "drained s \<longleftrightarrow> Senders s = [] \<and> ToClientChan s = [] \<and> Writing s = None \<and> Handlers s = [] \<and>
     Connect (Manager s) = [] \<and> DisConnect (Manager s) = []"

section \<open>The measure\<close>

text \<open>
  A goroutine that sends fills the channel, a message taken off it becomes deliveries, a delivery
  may queue a disconnection: so what is left is compared in this order.
\<close>

definition writes_left :: "(clientInfo \<times> cref list) option \<Rightarrow> nat" where
  "writes_left w = (case w of None \<Rightarrow> 0 | Some (_, cs) \<Rightarrow> Suc (length cs))"

definition handlers_left :: "(cref \<times> bool) list \<Rightarrow> nat" where
  "handlers_left hs = (\<Sum>h\<leftarrow>hs. if snd h then 1 else 2)"

definition work_left :: "server \<Rightarrow> nat \<times> nat \<times> nat \<times> nat \<times> nat" where
  "work_left s = (length (Senders s), length (ToClientChan s), writes_left (Writing s), handlers_left (Handlers s),
     length (Connect (Manager s)) + length (DisConnect (Manager s)))"

definition less_work :: "((nat \<times> nat \<times> nat \<times> nat \<times> nat) \<times> (nat \<times> nat \<times> nat \<times> nat \<times> nat)) set" where
  "less_work = less_than <*lex*> less_than <*lex*> less_than <*lex*> less_than <*lex*> less_than"

lemma wf_less_work: "wf less_work"
  by (simp add: less_work_def wf_lex_prod)

lemma handlers_left_remove1:
  "h \<in> set hs \<Longrightarrow> handlers_left hs = (if snd h then 1 else 2) + handlers_left (remove1 h hs)"
  by (induction hs) (auto simp: handlers_left_def)

lemma greet_frame:
  assumes "Run_greet up c s = (ok, s')"
  shows "Manager s' = Manager s" "Handlers s' = Handlers s" "Writing s' = Writing s"
    "ToClientChan s' = ToClientChan s" "Senders s' = Senders s"
  using core_fields [OF core_Run_greet [OF assms]] assms
  by (auto simp: Run_greet_def ConnRender_def write_json_def split: option.splits if_splits prod.splits)

lemma EventDisconnect_queues:
  assumes "sys_inv s" and "allocated s c" and "EventDisconnect rs c s = Returns s'"
  shows "Handlers s' = Handlers s" "Connect (Manager s') = Connect (Manager s)"
    "DisConnect (Manager s') = DisConnect (Manager s)"
proof -
  obtain k where k: "Socket (client_of s c) = Some k"
    using assms(3) by (auto simp: EventDisconnect_def split: option.splits)
  define s2 where "s2 = s\<lparr>closed := (closed s)(k := True), Manager := DelClient (Some c) (Manager s)\<rparr>"
  define s3 where "s3 = notify_groups rs (client_of s2 c) (GroupList (client_of s2 c)) s2"
  have s': "s' = s3\<lparr>Manager := set_client c ((client_of s3 c)\<lparr>IsDeleted := True\<rparr>) (Manager s3)\<rparr>"
    using assms(3) k by (simp add: EventDisconnect_def Let_def s2_def s3_def del: DelClient.simps)
  have "core s3 = core s2" unfolding s3_def by (rule core_notify_groups)
  note c3 = core_fields [OF this]
  note del = DelClient_served [OF sys_invD(1) [OF assms(1)] assms(2) [unfolded allocated_def]]
  show "Handlers s' = Handlers s" "Connect (Manager s') = Connect (Manager s)"
    "DisConnect (Manager s') = DisConnect (Manager s)"
    by (simp_all add: s' c3 s2_def del del: DelClient.simps)
qed

text \<open>A round of the event loop: which event it takes, and that it always comes to its end.\<close>

lemma recv_event_cases:
  assumes "recv_event pick s = Some (e, s1)"
  obtains (connect) c where "e = Inl c" "recv_Connect s = Some (c, s1)"
  | (disconnect) c where "e = Inr c" "recv_DisConnect s = Some (c, s1)"
  using assms by (auto simp: recv_event_def split: option.splits if_splits)

lemma Start_work:
  assumes "Start pick rs s = Returns s'" and "sys_inv s"
  shows "Handlers s' = Handlers s"
    and "length (Connect (Manager s')) + length (DisConnect (Manager s')) <
     length (Connect (Manager s)) + length (DisConnect (Manager s))"
proof -
  obtain e s1 where e: "recv_event pick s = Some (e, s1)"
    using assms(1) by (auto simp: Start_def split: option.splits)
  have "Handlers s' = Handlers s \<and> length (Connect (Manager s')) + length (DisConnect (Manager s')) <
     length (Connect (Manager s)) + length (DisConnect (Manager s))"
    using e
  proof (cases rule: recv_event_cases)
    case (connect c)
    then have "s' = EventConnect c s1" using assms(1) e by (simp add: Start_def)
    then show ?thesis using connect(2) by (auto simp: recv_iff EventConnect_def)
  next
    case (disconnect c)
    note inv1 = sys_inv_recv(2) [OF assms(2) disconnect(2)]
    have "EventDisconnect rs c s1 = Returns s'" using assms(1) e disconnect(1) by (simp add: Start_def)
    then show ?thesis
      using EventDisconnect_queues [of s1 c rs s'] inv1 disconnect(2) by (auto simp: recv_iff)
  qed
  then show "Handlers s' = Handlers s"
    and "length (Connect (Manager s')) + length (DisConnect (Manager s')) <
     length (Connect (Manager s)) + length (DisConnect (Manager s))" by simp_all
qed

lemma Start_returns:
  assumes "sys_inv s" and "Connect (Manager s) \<noteq> [] \<or> DisConnect (Manager s) \<noteq> []"
  shows "\<exists>s'. Start pick rs s = Returns s'"
proof -
  have "recv_event pick s \<noteq> None"
    using assms(2) by (auto simp: recv_event_def recv_Connect_def recv_DisConnect_def split: list.split)
  then obtain e s1 where e: "recv_event pick s = Some (e, s1)" by (metis not_None_eq prod.collapse)
  from e show ?thesis
  proof (cases rule: recv_event_cases)
    case (connect c)
    then show ?thesis using e by (simp add: Start_def)
  next
    case (disconnect c)
    note inv1 = sys_inv_recv(2) [OF assms(1) disconnect(2)]
    then have "Socket (client_of s1 c) \<noteq> None"
      using servedD(6) [OF sys_invD(1)] by (simp add: allocated_def client_of_def)
    then show ?thesis using e disconnect(1) by (auto simp: Start_def EventDisconnect_def Let_def)
  qed
qed

lemma work_step_less:
  assumes "work_step s s'" and "sys_inv s"
  shows "(work_left s', work_left s) \<in> less_work"
  using assms(1)
proof (cases rule: work_step.cases)
  case (greet c up ok s1)
  then show ?thesis
    using greet_frame [OF greet(3)] handlers_left_remove1 [OF greet(2)]
    by (auto simp: work_left_def less_work_def) (auto simp: handlers_left_def)
next
  case (connect c s1)
  then show ?thesis
    using handlers_left_remove1 [OF connect(2)] by (auto simp: send_iff work_left_def less_work_def)
next
  case (event pick rs)
  have "quiet s s'" by (rule quiet_Start [OF assms(2) event])
  then show ?thesis
    using Start_work [OF event assms(2)] by (simp add: work_left_def less_work_def quiet_def)
next
  case (sender info s1)
  have "0 < length (Senders s)" by (rule length_pos_if_in_set [OF sender(2)])
  then show ?thesis using sender by (auto simp: send_iff work_left_def less_work_def length_remove1)
next
  case (fetch info s1 order)
  then show ?thesis by (auto simp: recv_iff work_left_def less_work_def)
next
  case (deliver info c cs up s1)
  then have "ToClientChan s1 = ToClientChan s" "Senders s1 = Senders s"
    by (auto simp: write_one_def Render_def write_json_def send_iff split: option.splits if_splits)
  then show ?thesis using deliver by (simp add: work_left_def less_work_def writes_left_def)
next
  case (delivered info)
  then show ?thesis by (simp add: work_left_def less_work_def writes_left_def)
qed

section \<open>Progress\<close>

lemma stuck_drained:
  assumes "sys_inv s" and stuck: "\<And>s'. \<not> work_step s s'"
  shows "drained s"
proof -
  have chans: "Connect (Manager s) = []" "DisConnect (Manager s) = []"
    using Start_returns [OF assms(1)] stuck work_step.event by blast+
  have writing: "Writing s = None"
  proof (cases "Writing s")
    case (Some w)
    obtain info cs where w: "w = (info, cs)" by (cases w)
    show ?thesis
    proof (cases cs)
      case Nil
      then show ?thesis using stuck work_step.delivered Some w by blast
    next
      case (Cons c cs')
      then have "allocated s c" using sys_invD(9) [OF assms(1)] Some w by (simp add: writing_ok_def)
      then have "Socket (client_of s c) \<noteq> None"
        using servedD(6) [OF sys_invD(1) [OF assms(1)]] by (simp add: allocated_def client_of_def)
      then have "\<exists>s'. write_one (\<lambda>_. True) info c s = Returns s'"
        using chans
        by (auto simp: write_one_def Render_def write_json_def send_DisConnect_def chan_send_def cap_DisConnect_def)
      then show ?thesis using stuck work_step.deliver Some w Cons by blast
    qed
  qed simp
  have queue: "ToClientChan s = []"
  proof (cases "ToClientChan s")
    case (Cons info q)
    then have "recv_client s = Some (info, s\<lparr>ToClientChan := q\<rparr>)" by (simp add: recv_client_def)
    then show ?thesis using stuck work_step.fetch [OF writing, of _ _ "[]"] by (metis distinct.simps(1))
  qed simp
  have senders: "Senders s = []"
  proof (cases "Senders s")
    case (Cons info rest)
    then have "info \<in> set (Senders s)" by simp
    moreover have "\<exists>s'. send_client info s = Returns s'"
      using queue by (simp add: send_client_def chan_send_def cap_ToClientChan_def)
    ultimately show ?thesis using stuck work_step.sender by blast
  qed simp
  have "Handlers s = []"
  proof (cases "Handlers s")
    case (Cons h rest)
    obtain c b where h: "h = (c, b)" by (cases h)
    then have in_hs: "(c, b) \<in> set (Handlers s)" using Cons by simp
    have "\<exists>s'. work_step s s'"
    proof (cases b)
      case True
      obtain s' where "send_Connect c s = Returns s'"
        using chans by (simp add: send_Connect_def chan_send_def cap_Connect_def)
      moreover have "(c, True) \<in> set (Handlers s)" using in_hs True by simp
      ultimately show ?thesis by (blast intro: work_step.connect)
    next
      case False
      obtain ok s' where "Run_greet (\<lambda>_. True) c s = (ok, s')" by (cases "Run_greet (\<lambda>_. True) c s")
      moreover have "(c, False) \<in> set (Handlers s)" using in_hs False by simp
      ultimately show ?thesis by (blast intro: work_step.greet)
    qed
    then show ?thesis using stuck by blast
  qed simp
  then show ?thesis using chans writing queue senders by (simp add: drained_def)
qed

lemma work_steps_inv: "work_step\<^sup>*\<^sup>* s s' \<Longrightarrow> sys_inv s \<Longrightarrow> sys_inv s'"
  by (induction rule: rtranclp_induct) (auto intro: work_step_inv)

lemma work_steps_run: "work_step\<^sup>*\<^sup>* s s' \<Longrightarrow> \<exists>p. sys_run s [] p s'"
proof (induction rule: rtranclp_induct)
  case base
  then show ?case using sys_run.stay by blast
next
  case (step s1 s2)
  then show ?case using work_step_sys sys_run.more by fastforce
qed

lemma no_infinite_work:
  assumes "sys_inv (f 0)"
  shows "\<not> (\<forall>n. work_step (f n) (f (Suc n)))"
proof
  assume run: "\<forall>n. work_step (f n) (f (Suc n))"
  have "sys_inv (f n)" for n
    by (induction n) (use assms run work_step_inv in blast)+
  then have "\<forall>n. (work_left (f (Suc n)), work_left (f n)) \<in> less_work"
    using run work_step_less by blast
  then have "\<exists>g. \<forall>n. (g (Suc n), g n) \<in> less_work" by (intro exI [of _ "\<lambda>n. work_left (f n)"]) simp
  then show False using wf_less_work unfolding wf_iff_no_infinite_down_chain by blast
qed

lemma work_ends:
  assumes "sys_inv s"
  shows "\<exists>s'. work_step\<^sup>*\<^sup>* s s' \<and> drained s'"
  using wf_less_work assms
proof (induction "work_left s" arbitrary: s rule: wf_induct_rule)
  case (less s)
  show ?case
  proof (cases "\<exists>s1. work_step s s1")
    case True
    then obtain s1 where s1: "work_step s s1" by blast
    have "\<exists>s'. work_step\<^sup>*\<^sup>* s1 s' \<and> drained s'"
      by (rule less(1)) (use s1 less(2) work_step_less work_step_inv in blast)+
    then show ?thesis using s1 by (meson converse_rtranclp_into_rtranclp)
  qed (use stuck_drained [OF less(2)] in blast)
qed

text \<open>
  C4. In every reachable state, whatever is queued, the goroutines of the server (connect handlers,
  event loop, senders, \<open>WriteMessage\<close>) finish: there is no infinite sequence of their steps
  without new input, whichever is scheduled when and whatever writes fail; a sequence can stop
  only in a state where every queue is empty and nothing is being written, so they do not
  deadlock; and such a state can be reached.
\<close>

theorem work_terminates:
  assumes "sys_reach cfg acc psh s"
  shows "(\<nexists>f. f 0 = s \<and> (\<forall>n. work_step (f n) (f (Suc n)))) \<and>
    (\<forall>s'. work_step\<^sup>*\<^sup>* s s' \<and> (\<nexists>s''. work_step s' s'') \<longrightarrow> drained s') \<and>
    (\<exists>s'. work_step\<^sup>*\<^sup>* s s' \<and> drained s')"
proof (intro conjI allI impI)
  note inv = sys_reach_inv [OF assms]
  show "\<nexists>f. f 0 = s \<and> (\<forall>n. work_step (f n) (f (Suc n)))" using no_infinite_work inv by blast
  show "drained s'" if "work_step\<^sup>*\<^sup>* s s' \<and> (\<nexists>s''. work_step s' s'')" for s'
    using that stuck_drained work_steps_inv [OF _ inv] by blast
  show "\<exists>s'. work_step\<^sup>*\<^sup>* s s' \<and> drained s'" by (rule work_ends [OF inv])
qed

lemma work_terminates_witness: "\<exists>s'. work_step\<^sup>*\<^sup>* srv2 s' \<and> ToClientChan s' = [] \<and> ToClientChan srv2 = [msgB, msgA]"
  using work_terminates [OF srv2_reach] by (auto simp: drained_def srv2_def)

end
