(* ===== verification/Frames.thy ===== *)
theory Frames
  imports Work
begin

text \<open>
  What a websocket connection can see: the shapes of all frames that the program ever writes to
  it, and how often.
\<close>

section \<open>The frames of a connection\<close>

definition greeting :: json where
  "greeting = JObj [(''Type'', JStr ''Link''), (''Data'', JStr msg_connected)]"

definition system_error_frame :: json where
  "system_error_frame = RetData [] ''retcode.SYSTEM_ID_ERROR'' (JArr [])"

lemma frame_kinds [simp]:
  "greeting \<noteq> keep_live_reply" "\<not> is_data greeting" "frame_of info \<noteq> greeting" "\<not> is_data keep_live_reply"
  "keep_live_reply \<noteq> greeting" "greeting \<noteq> frame_of info"
  by (simp_all add: greeting_def keep_live_reply_def is_data_def frame_of_def RetData_def)

definition owned :: "server \<Rightarrow> conn \<Rightarrow> bool" where
  "owned s k \<longleftrightarrow> (\<exists>c. allocated s c \<and> Socket (client_of s c) = Some k)"

text \<open>
  On a client's connection: messages, answers to a keep-live message, and the greeting once, if
  the handler is past it. On any other connection: the error frame, or nothing.
\<close>

definition frames_inv :: "server \<Rightarrow> bool" where
  "frames_inv s \<longleftrightarrow>
     distinct (map fst (Handlers s)) \<and>
     (\<forall>c k. allocated s c \<and> Socket (client_of s c) = Some k \<longrightarrow>
        (\<forall>j \<in> set (frames s k). is_data j \<or> j = greeting \<or> j = keep_live_reply) \<and>
        count_list (frames s k) greeting + (if (c, False) \<in> set (Handlers s) then 1 else 0) \<le> 1) \<and>
     (\<forall>k. \<not> owned s k \<longrightarrow> frames s k = [] \<or> frames s k = [system_error_frame])"

lemma frames_invD:
  assumes "frames_inv s"
  shows "distinct (map fst (Handlers s))"
    and "allocated s c \<Longrightarrow> Socket (client_of s c) = Some k \<Longrightarrow> j \<in> set (frames s k) \<Longrightarrow>
      is_data j \<or> j = greeting \<or> j = keep_live_reply"
    and "allocated s c \<Longrightarrow> Socket (client_of s c) = Some k \<Longrightarrow>
      count_list (frames s k) greeting + (if (c, False) \<in> set (Handlers s) then 1 else 0) \<le> 1"
    and "\<not> owned s k \<Longrightarrow> frames s k = [] \<or> frames s k = [system_error_frame]"
  using assms unfolding frames_inv_def by blast+

lemma frames_invI:
  assumes "distinct (map fst (Handlers s))"
    and "\<And>c k j. allocated s c \<Longrightarrow> Socket (client_of s c) = Some k \<Longrightarrow> j \<in> set (frames s k) \<Longrightarrow>
      is_data j \<or> j = greeting \<or> j = keep_live_reply"
    and "\<And>c k. allocated s c \<Longrightarrow> Socket (client_of s c) = Some k \<Longrightarrow>
      count_list (frames s k) greeting + (if (c, False) \<in> set (Handlers s) then 1 else 0) \<le> 1"
    and "\<And>k. \<not> owned s k \<Longrightarrow> frames s k = [] \<or> frames s k = [system_error_frame]"
  shows "frames_inv s"
  using assms unfolding frames_inv_def by blast

text \<open>Steps that write nothing, and may end or advance a handler.\<close>

definition same_conns :: "server \<Rightarrow> server \<Rightarrow> bool" where
  "same_conns s s' \<longleftrightarrow> (\<forall>c. allocated s' c = allocated s c) \<and> (\<forall>c. Socket (client_of s' c) = Socket (client_of s c))"

lemma frames_inv_frame:
  assumes "frames_inv s" and "same_conns s s'" and "frames s' = frames s"
    and "distinct (map fst (Handlers s'))" and "\<And>c. (c, False) \<in> set (Handlers s') \<Longrightarrow> (c, False) \<in> set (Handlers s)"
  shows "frames_inv s'"
proof -
  have own: "owned s' k = owned s k" for k using assms(2) by (simp add: owned_def same_conns_def)
  have before: "allocated s c" "Socket (client_of s c) = Some k"
    if "allocated s' c" "Socket (client_of s' c) = Some k" for c k
    using that assms(2) by (simp_all add: same_conns_def)
  show ?thesis
  proof (rule frames_invI [OF assms(4)])
    show "is_data j \<or> j = greeting \<or> j = keep_live_reply"
      if "allocated s' c" "Socket (client_of s' c) = Some k" "j \<in> set (frames s' k)" for c k j
      using frames_invD(2) [OF assms(1) before [OF that(1,2)]] that(3) assms(3) by simp
    show "count_list (frames s' k) greeting + (if (c, False) \<in> set (Handlers s') then 1 else 0) \<le> 1"
      if "allocated s' c" "Socket (client_of s' c) = Some k" for c k
      using frames_invD(3) [OF assms(1) before [OF that]] assms(3,5) by (auto split: if_splits)
    show "frames s' k = [] \<or> frames s' k = [system_error_frame]" if "\<not> owned s' k" for k
      using frames_invD(4) [OF assms(1)] that own assms(3) by simp
  qed
qed

lemma quiet_conns: "quiet s s' \<Longrightarrow> same_conns s s'"
  by (simp add: quiet_def same_conns_def allocated_def)

lemma frames_inv_quiet:
  "quiet s s' \<Longrightarrow> Handlers s' = Handlers s \<Longrightarrow> frames_inv s \<Longrightarrow> frames_inv s'"
  by (rule frames_inv_frame [OF _ quiet_conns]) (auto simp: quiet_def frames_invD(1))

text \<open>Writing a frame that is no greeting to a client's connection.\<close>

lemma frames_inv_append:
  assumes "frames_inv s" and "served (Manager s)" and "allocated s c" and "Socket (client_of s c) = Some k"
    and "same_conns s s'" and "Handlers s' = Handlers s"
    and "frames s' = (frames s)(k := frames s k @ [j])" and "is_data j \<or> j = keep_live_reply"
  shows "frames_inv s'"
proof -
  have own: "owned s' l = owned s l" for l using assms(5) by (simp add: owned_def same_conns_def)
  have k: "owned s k" using assms(3,4) by (auto simp: owned_def)
  have j: "j \<noteq> greeting" using assms(8) by auto
  have before: "allocated s d" "Socket (client_of s d) = Some l"
    if "allocated s' d" "Socket (client_of s' d) = Some l" for d l
    using that assms(5) by (simp_all add: same_conns_def)
  show ?thesis
  proof (rule frames_invI)
    show "distinct (map fst (Handlers s'))" using frames_invD(1) [OF assms(1)] assms(6) by simp
    show "is_data i \<or> i = greeting \<or> i = keep_live_reply"
      if "allocated s' d" "Socket (client_of s' d) = Some l" "i \<in> set (frames s' l)" for d l i
      using frames_invD(2) [OF assms(1) before [OF that(1,2)]] that(3) assms(7,8) by (auto split: if_splits)
    show "count_list (frames s' l) greeting + (if (d, False) \<in> set (Handlers s') then 1 else 0) \<le> 1"
      if "allocated s' d" "Socket (client_of s' d) = Some l" for d l
      using frames_invD(3) [OF assms(1) before [OF that]] assms(6,7) j by (cases "l = k") (simp_all split: if_splits)
    show "frames s' l = [] \<or> frames s' l = [system_error_frame]" if "\<not> owned s' l" for l
      using frames_invD(4) [OF assms(1), of l] that own k assms(7) by auto
  qed
qed

lemma frames_inv_write:
  assumes "frames_inv s" and "sys_inv s" and "allocated s c" and "Socket (client_of s c) = Some k"
    and "write_json up k j s = (ok, s')" and "is_data j \<or> j = keep_live_reply"
  shows "frames_inv s'"
  using assms(5) frames_inv_append [OF assms(1) sys_invD(1) [OF assms(2)] assms(3,4), of s' j] assms(1,6)
  by (auto simp: write_json_iff same_conns_def client_of_def split: if_splits)

lemma remove1_key: "distinct (map fst hs) \<Longrightarrow> (c, b) \<in> set hs \<Longrightarrow> c \<notin> fst ` set (remove1 (c, b) hs)"
  by (induction hs) (auto simp: image_iff)

lemma distinct_remove1_key: "distinct (map fst hs) \<Longrightarrow> distinct (map fst (remove1 h hs))"
  by (induction hs) (auto dest: set_remove1_subset [THEN subsetD])

lemma frames_inv_greet:
  assumes inv: "frames_inv s" and sys: "sys_inv s" and here: "(c, False) \<in> set (Handlers s)"
    and run: "Run_greet up c s = (ok, s')"
  shows "frames_inv (s'\<lparr>Handlers := (if ok then [(c, True)] else []) @ remove1 (c, False) (Handlers s')\<rparr>)"
    (is "frames_inv ?s")
proof -
  have alloc: "allocated s c" by (rule sys_invD(8) [OF sys here])
  then obtain k where k: "Socket (client_of s c) = Some k"
    using servedD(6) [OF sys_invD(1) [OF sys]] by (auto simp: allocated_def client_of_def)
  note frame = greet_frame [OF run]
  have fr: "frames s' = (frames s)(k := frames s k @ (if ok then [greeting] else []))"
    using run k by (auto simp: Run_greet_def ConnRender_def write_json_def greeting_def split: if_splits)
  have conns: "same_conns s ?s" using frame by (simp add: same_conns_def allocated_def client_of_def)
  have own: "owned ?s l = owned s l" for l using conns by (simp add: owned_def same_conns_def)
  have dist: "distinct (map fst (Handlers s))" by (rule frames_invD(1) [OF inv])
  have gone: "c \<notin> fst ` set (remove1 (c, False) (Handlers s))"
    by (rule remove1_key [OF dist here])
  have sub: "set (remove1 (c, False) (Handlers s)) \<subseteq> set (Handlers s)" by (rule set_remove1_subset)
  show ?thesis
  proof (rule frames_invI)
    show "distinct (map fst (Handlers ?s))"
      using gone distinct_remove1_key [OF dist] by (simp add: frame)
  next
    fix d l j
    assume "allocated ?s d" "Socket (client_of ?s d) = Some l" and j: "j \<in> set (frames ?s l)"
    then have d: "allocated s d" "Socket (client_of s d) = Some l" using conns by (simp_all add: same_conns_def)
    show "is_data j \<or> j = greeting \<or> j = keep_live_reply"
      using frames_invD(2) [OF inv d] j k d by (auto simp: fr split: if_splits)
  next
    fix d l
    assume "allocated ?s d" "Socket (client_of ?s d) = Some l"
    then have d: "allocated s d" "Socket (client_of s d) = Some l" using conns by (simp_all add: same_conns_def)
    show "count_list (frames ?s l) greeting + (if (d, False) \<in> set (Handlers ?s) then 1 else 0) \<le> 1"
    proof (cases "d = c")
      case True
      then have "l = k" using d k by simp
      then show ?thesis
        using frames_invD(3) [OF inv alloc k] gone here True by (force simp: fr frame)
    next
      case False
      then have "l \<noteq> k"
        using servedD(7) [OF sys_invD(1) [OF sys], of d c l] d k alloc by (auto simp: allocated_def client_of_def)
      then show ?thesis
        using frames_invD(3) [OF inv d] sub False by (auto simp: fr frame split: if_splits)
    qed
  next
    fix l assume "\<not> owned ?s l"
    then have "\<not> owned s l" using own by simp
    then show "frames ?s l = [] \<or> frames ?s l = [system_error_frame]"
      using frames_invD(4) [OF inv] alloc k by (auto simp: fr owned_def)
  qed
qed

lemma frames_inv_accept:
  assumes inv: "frames_inv s" and sys: "sys_inv s" and fresh: "fresh_conn s k"
    and run: "Run_open grow up r (Some k) now s = (Some c, s')"
  shows "frames_inv (s'\<lparr>Handlers := Handlers s' @ [(c, False)]\<rparr>)" (is "frames_inv ?s")
proof -
  let ?i = "system_id_of r"
  note open_c = Run_open_Some [OF run]
  have cl: "client_of ?s d = (if d = c then NewClient ?i (RemoteAddr r) ?i (Some k) now else client_of s d)"
    "allocated ?s d \<longleftrightarrow> d = c \<or> allocated s d" "\<not> allocated s c" "frames ?s = frames s"
    "Handlers ?s = Handlers s @ [(c, False)]" for d
    by (auto simp: open_c(3) client_of_def allocated_def new_client_def less_Suc_eq simp flip: open_c(2))
  have new: "frames s k = []" "\<not> owned s k"
    using fresh by (auto simp: fresh_conn_def owned_def allocated_def)
  have none: "(c, b) \<notin> set (Handlers s)" for b using sys_invD(8) [OF sys] cl(3) by blast
  show ?thesis
  proof (rule frames_invI)
    show "distinct (map fst (Handlers ?s))" using frames_invD(1) [OF inv] none by (auto simp: cl(5))
    fix d l
    assume "allocated ?s d" "Socket (client_of ?s d) = Some l"
    then consider "d = c" "l = k" | "d \<noteq> c" "allocated s d" "Socket (client_of s d) = Some l"
      by (auto simp: cl(1,2) split: if_splits)
    then have "(\<forall>j \<in> set (frames s l). is_data j \<or> j = greeting \<or> j = keep_live_reply) \<and>
        count_list (frames s l) greeting + (if (d, False) \<in> set (Handlers ?s) then 1 else 0) \<le> 1"
    proof cases
      case 1
      then show ?thesis using new by simp
    next
      case 2
      then show ?thesis using frames_invD(2,3) [OF inv 2(2,3)] by (auto simp: cl(5))
    qed
    then show "j \<in> set (frames ?s l) \<Longrightarrow> is_data j \<or> j = greeting \<or> j = keep_live_reply"
      and "count_list (frames ?s l) greeting + (if (d, False) \<in> set (Handlers ?s) then 1 else 0) \<le> 1" for j
      unfolding cl(4) by blast+
  next
    fix l assume "\<not> owned ?s l"
    have "\<not> owned s l"
    proof
      assume "owned s l"
      then obtain d where d: "allocated s d" "Socket (client_of s d) = Some l" by (auto simp: owned_def)
      then have "d \<noteq> c" using cl(3) by auto
      then have "allocated ?s d" "Socket (client_of ?s d) = Some l" using d unfolding cl(1,2) by simp_all
      then show False using \<open>\<not> owned ?s l\<close> unfolding owned_def by blast
    qed
    then show "frames ?s l = [] \<or> frames ?s l = [system_error_frame]"
      unfolding cl(4) by (rule frames_invD(4) [OF inv])
  qed
qed

lemma frames_inv_refuse:
  assumes inv: "frames_inv s" and fresh: "fresh_conn s k"
    and run: "Run_open grow up r (Some k) now s = (None, s')"
  shows "frames_inv s'"
proof -
  have core: "core s' = core s" by (rule Run_open_None [OF run])
  have conns: "same_conns s s'"
    using core_fields(1) [OF core] by (simp add: same_conns_def allocated_def client_of_def)
  have fr: "frames s' = frames s \<or> frames s' = (frames s)(k := [system_error_frame])"
    using run fresh
    by (auto simp: Run_open_def Render_def write_json_def Let_def new_client_def system_error_frame_def fresh_conn_def
        split: if_splits prod.splits)
  have own: "owned s' l = owned s l" for l using conns by (simp add: owned_def same_conns_def)
  have new: "\<not> owned s k" using fresh by (auto simp: fresh_conn_def owned_def allocated_def)
  show ?thesis
  proof (rule frames_invI)
    show "distinct (map fst (Handlers s'))" using frames_invD(1) [OF inv] core_fields(2) [OF core] by simp
    fix d l
    assume "allocated s' d" "Socket (client_of s' d) = Some l"
    then have d: "allocated s d" "Socket (client_of s d) = Some l" using conns by (simp_all add: same_conns_def)
    then have "l \<noteq> k" using new by (auto simp: owned_def)
    then have same: "frames s' l = frames s l" using fr by auto
    show "j \<in> set (frames s' l) \<Longrightarrow> is_data j \<or> j = greeting \<or> j = keep_live_reply" for j
      unfolding same by (rule frames_invD(2) [OF inv d])
    show "count_list (frames s' l) greeting + (if (d, False) \<in> set (Handlers s') then 1 else 0) \<le> 1"
      unfolding same core_fields(2) [OF core] by (rule frames_invD(3) [OF inv d])
  next
    fix l assume "\<not> owned s' l"
    then show "frames s' l = [] \<or> frames s' l = [system_error_frame]"
      using frames_invD(4) [OF inv, of l] own fr by (cases "l = k") auto
  qed
qed

lemma frames_inv_Read_round:
  assumes inv: "frames_inv s" and sys: "sys_inv s" and c: "c \<in> set (Readers s)"
    and run: "Read_round up c result s = Returns s'"
  shows "frames_inv s'"
proof -
  have alloc: "allocated s c" by (rule sys_invD(7) [OF sys c])
  have done1: "frames_inv (reader_done c s)"
    by (rule frames_inv_quiet [OF _ _ inv]) (simp_all add: reader_done_def)
  have done2: "frames_inv (reader_done c s1)" if "send_DisConnect c s = Returns s1" for s1
  proof -
    have "quiet s (reader_done c s1)"
      using quiet_trans [OF quiet_send(2) [OF that]] by (simp add: reader_done_def)
    then show ?thesis
      by (rule frames_inv_quiet [OF _ _ inv]) (use that in \<open>auto simp: reader_done_def send_iff\<close>)
  qed
  have msg: "frames_inv (handle_message up k receive s)" if "Socket (client_of s c) = Some k" for k receive
    using frames_inv_write [OF inv sys alloc that, of up keep_live_reply]
    by (cases "write_json up k keep_live_reply s") (simp add: handle_message_def inv)
  show ?thesis
    using run done1 done2 msg
    by (auto simp: Read_round_def outcome_then_Returns split: option.splits read_result.splits if_splits)
qed

lemma frames_inv_deliver:
  assumes inv: "frames_inv s" and sys: "sys_inv s" and w: "Writing s = Some (info, c # cs)"
    and one: "write_one up info c s = Returns s1"
  shows "frames_inv s1"
proof -
  have alloc: "allocated s c" using sys_invD(9) [OF sys] w by (simp add: writing_ok_def)
  obtain k where k: "Socket (client_of s c) = Some k"
    using one by (auto simp: write_one_def split: option.splits)
  show ?thesis
    using write_one_cases [OF one k]
  proof
    assume "s1 = s\<lparr>frames := (frames s)(k := frames s k @ [frame_of info])\<rparr> \<and> \<not> closed s k \<and> up k"
    then show ?thesis
      using frames_inv_append [OF inv sys_invD(1) [OF sys] alloc k, of s1 "frame_of info"]
      by (simp add: same_conns_def allocated_def client_of_def)
  next
    assume "send_DisConnect c s = Returns s1 \<and> (closed s k \<or> \<not> up k)"
    then show ?thesis
      by (intro frames_inv_quiet [OF quiet_send(2) _ inv]) (auto simp: send_iff)
  qed
qed

lemma frames_inv_Handlers:
  assumes "frames_inv s"
  shows "frames_inv (s\<lparr>Handlers := remove1 h (Handlers s)\<rparr>)"
  by (rule frames_inv_frame [OF assms])
    (use distinct_remove1_key [OF frames_invD(1) [OF assms]] in
      \<open>auto simp: same_conns_def allocated_def client_of_def dest: set_remove1_subset [THEN subsetD]\<close>)

lemma frames_inv_chans:
  "frames_inv (s\<lparr>Writing := x\<rparr>) = frames_inv s" "frames_inv (s\<lparr>ToClientChan := q\<rparr>) = frames_inv s"
  "frames_inv (s\<lparr>Senders := ms\<rparr>) = frames_inv s"
  by (simp_all add: frames_inv_def owned_def allocated_def client_of_def)

lemma step_frames_inv:
  assumes "sys_step s a p s'" and "sys_inv s" and "frames_inv s"
  shows "frames_inv s'"
  using assms(1)
proof (cases rule: sys_step.cases)
  case (refuse k grow up r now)
  then show ?thesis using frames_inv_refuse [OF assms(3)] by blast
next
  case (accept k grow up r now c s1)
  then show ?thesis using frames_inv_accept [OF assms(3,2)] by blast
next
  case (greet c up ok s1)
  then show ?thesis using frames_inv_greet [OF assms(3,2)] by blast
next
  case (connect c s1)
  then have "frames_inv s1" by (intro frames_inv_quiet [OF quiet_send(1) _ assms(3)]) (auto simp: send_iff)
  then show ?thesis unfolding connect(3) by (rule frames_inv_Handlers)
next
  case (read c up result)
  then show ?thesis using frames_inv_Read_round [OF assms(3,2)] by blast
next
  case (event pick rs)
  then show ?thesis
    using frames_inv_quiet [OF quiet_Start [OF assms(2)] _ assms(3)] Start_work(1) [OF _ assms(2)] by blast
next
  case (send r i u code msg data mid)
  then show ?thesis
    using assms(3)
    by (auto simp: SendMessage2Client_def SendMessage2LocalClient_def Let_def send_iff frames_inv_chans
        split: if_splits fallible.splits prod.splits)
next
  case (sender info s1)
  then show ?thesis using assms(3) by (auto simp: send_iff frames_inv_chans)
next
  case (fetch info s1 order)
  then show ?thesis using assms(3) by (auto simp: recv_iff frames_inv_chans)
next
  case (deliver info c cs up s1)
  then show ?thesis using frames_inv_deliver [OF assms(3,2)] by (simp add: frames_inv_chans)
next
  case (delivered info)
  then show ?thesis using assms(3) by (simp add: frames_inv_chans)
next
  case (tick keys)
  note frame = AllClient_frame [OF servedD(1) [OF sys_invD(1) [OF assms(2)]] tick(4)]
  show ?thesis unfolding tick(3)
    by (rule frames_inv_quiet [OF quiet_Manager _ assms(3)]) (simp_all add: frame)
next
  case (ping c up)
  then show ?thesis
    by (intro frames_inv_quiet [OF quiet_ping _ assms(3)]) (auto simp: ping_one_def send_iff split: option.splits if_splits)
next
  case (close dial i sys addr)
  then show ?thesis
    by (intro frames_inv_quiet [OF quiet_CloseClient _ assms(3)])
      (auto simp: CloseClient_def CloseLocalClient_def send_iff with_outbox_def
        split: if_splits fallible.splits prod.splits sum.splits option.splits outcome.splits)
next
  case (group r call mid)
  then show ?thesis
    by (intro frames_inv_quiet [OF _ _ assms(3)]) (auto simp: SendMessage2Group_def Let_def)
next
  case (system dial order r sys u code msg data)
  then show ?thesis
    by (intro frames_inv_quiet [OF _ _ assms(3)])
      (auto simp: SendMessage2System_def Let_def with_outbox_def intro: quiet_with_outbox
        split: if_splits outcome.splits)
next
  case (broadcast b dial order s1)
  then have "quiet s s1" "Handlers s1 = Handlers s"
    by (auto simp: run_broadcast_def with_outbox_def split: outcome.splits)
  then show ?thesis
    unfolding broadcast(3) by (intro frames_inv_quiet [OF _ _ assms(3)]) (auto intro: quiet_trans)
next
  case (online dial answer arrival sys grp j)
  then show ?thesis
    by (intro frames_inv_quiet [OF quiet_GetOnlineList _ assms(3)])
      (auto simp: GetOnlineList_def split: if_splits option.splits prod.splits)
next
  case (servers l)
  then show ?thesis
    by (intro frames_inv_quiet [OF _ _ assms(3)]) (auto simp: quiet_def client_of_def IsCluster_def)
qed

lemma reach_frames_inv: "sys_reach cfg acc psh s \<Longrightarrow> frames_inv s"
proof (induction rule: sys_reach.induct)
  case start
  then show ?case by (simp add: frames_inv_def server_init_def allocated_def)
next
  case (step acc psh s a p s')
  then show ?case using step_frames_inv sys_reach_inv by blast
qed

text \<open>
  C10. The type of what goes out. In every run each frame on the connection of a client is the
  greeting, the answer to a keep-live message, or the frame of a message that was put on the
  channel for just this client's id; the greeting is there at most once; and a connection that
  is no client's gets at most one frame, the error about the missing system id.
\<close>

theorem frames_typed:
  assumes "sys_reach cfg acc psh s"
  shows "(c < next_client (Manager s) \<and> Socket (client_of s c) = Some k \<longrightarrow>
      (\<forall>j \<in> set (frames s k). j = greeting \<or> j = keep_live_reply \<or>
         (\<exists>info \<in> set psh. ci_ClientId info = ClientId (client_of s c) \<and>
            j = RetData (ci_MessageId info) (ci_Code info) (data_json (ci_Data info)))) \<and>
      count_list (frames s k) greeting \<le> 1) \<and>
    ((\<forall>c < next_client (Manager s). Socket (client_of s c) \<noteq> Some k) \<longrightarrow>
      frames s k = [] \<or> frames s k = [system_error_frame])"
proof (intro conjI impI)
  note inv = reach_frames_inv [OF assms]
  assume "c < next_client (Manager s) \<and> Socket (client_of s c) = Some k"
  then have c: "allocated s c" "Socket (client_of s c) = Some k" by (simp_all add: allocated_def)
  show "\<forall>j \<in> set (frames s k). j = greeting \<or> j = keep_live_reply \<or>
      (\<exists>info \<in> set psh. ci_ClientId info = ClientId (client_of s c) \<and>
        j = RetData (ci_MessageId info) (ci_Code info) (data_json (ci_Data info)))"
  proof
    fix j assume j: "j \<in> set (frames s k)"
    show "j = greeting \<or> j = keep_live_reply \<or> (\<exists>info \<in> set psh. ci_ClientId info = ClientId (client_of s c) \<and>
        j = RetData (ci_MessageId info) (ci_Code info) (data_json (ci_Data info)))"
    proof (cases "is_data j")
      case True
      from sys_reach_hist [OF assms] obtain hist where "psh = hist @ ToClientChan s"
        and "subseq (data_frames (frames s k)) (due (ClientId (client_of s c)) hist)"
        using c by (auto simp: hist_inv_def conn_hist_def)
      moreover have "j \<in> set (data_frames (frames s k))" using j True by (simp add: data_frames_def)
      ultimately have "j \<in> set (due (ClientId (client_of s c)) psh)"
        by (auto elim: list_emb_set)
      then show ?thesis by (auto simp: due_def frame_of_def)
    next
      case False
      then show ?thesis using frames_invD(2) [OF inv c j] by blast
    qed
  qed
  show "count_list (frames s k) greeting \<le> 1" using frames_invD(3) [OF inv c] by simp
next
  assume "\<forall>c < next_client (Manager s). Socket (client_of s c) \<noteq> Some k"
  then have "\<not> owned s k" by (auto simp: owned_def allocated_def)
  then show "frames s k = [] \<or> frames s k = [system_error_frame]"
    by (rule frames_invD(4) [OF reach_frames_inv [OF assms]])
qed

lemma frames_typed_witness: "frames srv2 7 = [] \<and> count_list (frames srv2 7) greeting \<le> 1"
  using frames_typed [OF srv2_reach, of 0 7] by (simp add: srv2_def)

end
