(* ===== verification/RpcServer.thy ===== *)
theory RpcServer
  imports ServerFacts
begin

text \<open>
  servers/rpcserver.go: what a server does with the calls of the others. Five of the six
  handlers log and answer with an empty reply: what they should do is commented out.
\<close>

datatype rpc_reply =
    Send2ClientReply
  | CloseClientReply
  | BindGroupReply
  | Send2GroupReply
  | Send2SystemReply
  | GetGroupClientsReply (reply_List: "string list")

definition GetGroupClients :: "string \<Rightarrow> string \<Rightarrow> server \<Rightarrow> rpc_reply" where
  "GetGroupClients systemId groupName s =
     GetGroupClientsReply (elems (arrays (Manager s)) (GetGroupClientList (GenGroupKey systemId groupName) (Manager s)))"

text \<open>The registered service: each call to its method. None of them changes the state.\<close>

definition CommonServiceServer :: "rpc_request \<Rightarrow> server \<Rightarrow> rpc_reply \<times> server" where
  "CommonServiceServer req s =
     (case req of
        Send2ClientReq _ _ _ _ _ _ \<Rightarrow> (Send2ClientReply, s)
      | CloseClientReq _ _ \<Rightarrow> (CloseClientReply, s)
      | BindGroupReq _ _ _ _ _ \<Rightarrow> (BindGroupReply, s)
      | Send2GroupReq _ _ _ _ _ _ _ \<Rightarrow> (Send2GroupReply, s)
      | Send2SystemReq _ _ _ _ _ _ \<Rightarrow> (Send2SystemReply, s)
      | GetGroupClientsReq sys grp \<Rightarrow> (GetGroupClients sys grp s, s))"

text \<open>
  The server goroutine: a port that cannot be listened on, or a server that fails, ends the
  process. \<open>serve\<close> is the error that \<open>Serve\<close> comes back with, if it does.
\<close>

definition createGRPCServer :: "(string \<Rightarrow> bool) \<Rightarrow> (string \<Rightarrow> string option) \<Rightarrow> string \<Rightarrow> unit outcome" where
  "createGRPCServer listen serve port =
     (if \<not> listen port then Panics ()
      else (case serve port of Some err \<Rightarrow> Panics () | None \<Rightarrow> Returns ()))"

definition InitGRpcServer :: "(string \<Rightarrow> bool) \<Rightarrow> (string \<Rightarrow> string option) \<Rightarrow> setting \<Rightarrow> unit outcome" where
  "InitGRpcServer listen serve st = createGRPCServer listen serve ('':'' @ RPCPort (CommonSetting st))"

lemma CommonServiceServer_state [simp]: "snd (CommonServiceServer req s) = s"
  by (simp add: CommonServiceServer_def split: rpc_request.split)

section \<open>A cluster of servers\<close>

text \<open>\<open>at\<close> gives the process that listens on an address, \<open>None\<close> where there is none.\<close>

definition cluster_answer :: "(string \<Rightarrow> server option) \<Rightarrow> string \<Rightarrow> rpc_request \<Rightarrow> string list option" where
  "cluster_answer at a req =
     map_option (\<lambda>s. reply_List (fst (CommonServiceServer req s))) (at a)"

lemma cluster_answer_groups:
  "cluster_answer at a (GetGroupClientsReq sys grp) =
     map_option (\<lambda>s. members (Manager s) (Group (GenGroupKey sys grp))) (at a)"
  by (simp add: cluster_answer_def CommonServiceServer_def GetGroupClients_def GetGroupClientList_def members_def)

text \<open>
  C25. The online list of a cluster, through both ends of the call: if every server of the list is
  up, in any state that a run of it reaches, the list is empty for every system and group,
  because no server ever puts a client into a group; the reply is count 0 and null.
\<close>

theorem cluster_online_list_empty:
  assumes "IsCluster (Config s)" and "\<not> ServerListLock (GlobalSetting (Config s))"
    and "ranges arrival (ServerList (GlobalSetting (Config s)))"
    and "\<forall>a \<in> set (servers_in arrival (Config s)). \<exists>cfg acc psh peer. at a = Some peer \<and> sys_reach cfg acc psh peer"
  shows "GetOnlineList (\<lambda>_. True) (cluster_answer at) arrival (Some sys) (Some grp) s =
    Returns (Some (JObj [(''count'', JInt 0), (''list'', JNull)]), s)"
proof -
  let ?ans = "\<lambda>a. cluster_answer at a (GetGroupClientsReq sys grp)"
  have ans: "?ans a = Some []" if "a \<in> set (servers_in arrival (Config s))" for a
  proof -
    have "\<exists>cfg acc psh peer. at a = Some peer \<and> sys_reach cfg acc psh peer" using assms(4) that by blast
    then obtain cfg acc psh peer where peer: "at a = Some peer" "sys_reach cfg acc psh peer" by blast
    then have "members (Manager peer) (Group (GenGroupKey sys grp)) = []"
      using servedD(2) [OF sys_invD(1) [OF sys_reach_inv [OF peer(2)]]] by (simp add: members_def)
    then show ?thesis by (simp add: cluster_answer_groups peer(1))
  qed
  then have "concat (map (\<lambda>a. the (?ans a)) (servers_in arrival (Config s))) = []" by simp
  moreover have "list_all (\<lambda>_. True) (servers_in arrival (Config s))" by (simp add: list_all_iff)
  ultimately have "GetOnlineListBroadcast (\<lambda>_. True) (cluster_answer at) arrival (Config s) (Some sys) (Some grp) =
      Some (Some [], Config s)"
    using online_list_answered [OF assms(2,3), of "\<lambda>_. True" "cluster_answer at" sys grp] ans by simp
  then show ?thesis using assms(1) by (simp add: GetOnlineList_def online_reply_def)
qed

definition srv_two :: server where
  "srv_two = server_init two_servers"

lemma cluster_online_list_empty_witness:
  "GetOnlineList (\<lambda>_. True) (cluster_answer (\<lambda>_. Some srv2)) [''/wsServers/b'', ''/wsServers/a''] (Some ''im'') (Some ''g'') srv_two =
     Returns (Some (JObj [(''count'', JInt 0), (''list'', JNull)]), srv_two)"
  by (rule cluster_online_list_empty)
    (use srv2_reach two_servers_facts in \<open>auto simp: srv_two_def server_init_def IsCluster_def two_servers_def\<close>)

end
