(* ===== verification/Http.thy ===== *)
theory Http
  imports Server Etcd Json
begin

text \<open>
  api/controller.go and what the handlers of the HTTP interface work on: a request, the state
  of the process, and a reply.
\<close>

section \<open>Requests, replies and the state\<close>

text \<open>
  \<open>req_Header\<close> maps a header name to its value, the empty string for a header that is not there.
  \<open>req_Body\<close> is the first JSON value of the body, \<open>None\<close> where there is none; \<open>req_Dump\<close> is the
  text \<open>DumpRequest\<close> makes of the request.
\<close>

record http_request =
  req_Method :: string
  req_Path :: string
  req_RequestURI :: string
  req_Header :: "string \<Rightarrow> string"
  req_RemoteAddr :: string
  req_Body :: "json option"
  req_Dump :: string

datatype reply = Status nat | Rendered json

text \<open>The struct \<open>accountInfo\<close> of servers/account.go.\<close>

record accountInfo =
  ai_SystemId :: string
  ai_RegisterTime :: int

datatype log_line =
    RequestLog (log_trace: string) (log_request: string)
  | AccessLog (log_trace: string) (log_latency: int) (log_ip: string) (log_method: string) (log_uri: string)

record 'e world =
  App :: server
  SystemMap :: "(string, accountInfo) fmap"
  Etcd :: "'e etcd"
  Logs :: "log_line list"

text \<open>
  What the handlers take from outside: random bytes for the message ids of one request, the
  answers of the network, the etcd client, the clock, and what the access log measures.
\<close>

record 'e env =
  env_rand :: "nat \<Rightarrow> nat \<Rightarrow> byte"
  env_dial :: "string \<Rightarrow> bool"
  env_answer :: "string \<Rightarrow> rpc_request \<Rightarrow> string list option"
  env_arrival :: "string list"
  env_new :: "string list \<Rightarrow> bool"
  env_kv :: "'e kv"
  env_now :: int
  env_trace :: string
  env_latency :: int

text \<open>How a handler comes out: with a reply, or it waits or panics and there is none.\<close>

type_synonym 's handled = "(reply option \<times> 's) outcome"

type_synonym 's handler = "http_request \<Rightarrow> 's \<Rightarrow> 's handled"

definition respond :: "reply \<Rightarrow> 's \<Rightarrow> 's handled" where
  "respond r w = Returns (Some r, w)"

text \<open>An operation of the server package, and then the reply.\<close>

fun then_reply :: "server outcome \<Rightarrow> reply \<Rightarrow> 'e world \<Rightarrow> 'e world handled" where
  "then_reply (Returns s) r w = Returns (Some r, w\<lparr>App := s\<rparr>)"
| "then_reply (Blocks s) r w = Blocks (None, w\<lparr>App := s\<rparr>)"
| "then_reply (Panics s) r w = Panics (None, w\<lparr>App := s\<rparr>)"

section \<open>api/controller.go\<close>

definition api_RetData :: "int \<Rightarrow> string \<Rightarrow> json \<Rightarrow> json" where
  "api_RetData code txt data = JObj [(''code'', JInt code), (''msg'', JStr txt), (''data'', data)]"

definition api_Render :: "int \<Rightarrow> string \<Rightarrow> json \<Rightarrow> reply" where
  "api_Render code txt data = Rendered (api_RetData code txt data)"

text \<open>The bytes that the program writes: none after a bare status.\<close>

definition reply_text :: "reply \<Rightarrow> string" where
  "reply_text r = (case r of Status n \<Rightarrow> [] | Rendered j \<Rightarrow> json_text j)"

text \<open>
  \<open>Validate\<close> on a struct: its fields tagged \<open>required\<close> in order, each with whether it is set; the
  first one that is not is reported, by the Chinese translation of the validator library.
\<close>

definition Validate :: "(string \<times> bool) list \<Rightarrow> string option" where
  "Validate fs =
     (case filter (\<lambda>f. \<not> snd f) fs of [] \<Rightarrow> None | f # _ \<Rightarrow> Some (fst f @ msg_required))"

definition BadRequest :: nat where "BadRequest = 400"
definition MethodNotAllowed :: nat where "MethodNotAllowed = 405"

text \<open>
  What every controller does first: decode the body, or reply with the bare status; validate,
  or render the error; then its own part.
\<close>

definition controller ::
  "(json \<Rightarrow> 'd option) \<Rightarrow> ('d \<Rightarrow> (string \<times> bool) list) \<Rightarrow> ('d \<Rightarrow> 's \<Rightarrow> 's handled) \<Rightarrow> http_request \<Rightarrow> 's \<Rightarrow> 's handled" where
  "controller decode required act r w =
     (case Option.bind (req_Body r) decode of
        None \<Rightarrow> respond (Status BadRequest) w
      | Some d \<Rightarrow>
          (case Validate (required d) of
             Some err \<Rightarrow> respond (api_Render FAIL err (JArr [])) w
           | None \<Rightarrow> act d w))"

lemma controller_cases:
  assumes "P (respond (Status BadRequest) w)"
    and "\<And>err. P (respond (api_Render FAIL err (JArr [])) w)"
    and "\<And>d. Validate (required d) = None \<Longrightarrow> P (act d w)"
  shows "P (controller decode required act r w)"
  using assms by (auto simp: controller_def split: option.split)

lemma Validate_None: "Validate fs = None \<longleftrightarrow> list_all snd fs"
  by (induction fs) (auto simp: Validate_def split: list.splits)

end
