(* ===== verification/Account.thy ===== *)
theory Account
  imports Http ServerFacts
begin

text \<open>
  servers/account.go and routers/middleware.go: the registration of systems, on a single server
  in \<open>SystemMap\<close> and in a cluster in etcd, and the two middlewares of the HTTP interface.
\<close>

section \<open>Register\<close>

definition with_etcd :: "'e world \<Rightarrow> ('a \<times> 'e etcd) \<Rightarrow> 'a \<times> 'e world" where
  "with_etcd w r = (fst r, w\<lparr>Etcd := snd r\<rparr>)"

definition account_json :: "accountInfo \<Rightarrow> json" where
  "account_json a = JObj [(''systemId'', JStr (ai_SystemId a)), (''registerTime'', JInt (ai_RegisterTime a))]"

definition Get_account :: "'e env \<Rightarrow> string \<Rightarrow> 'e world \<Rightarrow> (string, nat) fallible \<times> 'e world" where
  "Get_account env systemId w =
     with_etcd w (Get (env_new env) (env_kv env) (Config (App w)) (ETCD_PREFIX_ACCOUNT_INFO @ systemId) (Etcd w))"

text \<open>
  The check and the store are two steps, and another handler may run between them. \<open>Register_check\<close>
  is \<open>Ok\<close> where the id is not empty and not taken.
\<close>

definition Register_check :: "'e env \<Rightarrow> string \<Rightarrow> 'e world \<Rightarrow> (string, unit) fallible \<times> 'e world" where
  "Register_check env systemId w =
     (if length systemId = 0 then (Err msg_system_empty, w)
      else if IsCluster (Config (App w)) then
        (case Get_account env systemId w of
           (Panic, w1) \<Rightarrow> (Panic, w1)
         | (Err err, w1) \<Rightarrow> (Err err, w1)
         | (Ok n, w1) \<Rightarrow> (if n > 0 then (Err msg_registered, w1) else (Ok (), w1)))
      else
        (case fmlookup (SystemMap w) systemId of
           Some _ \<Rightarrow> (Err msg_registered, w)
         | None \<Rightarrow> (Ok (), w)))"

text \<open>A failed put panics.\<close>

definition Register_store :: "'e env \<Rightarrow> string \<Rightarrow> 'e world \<Rightarrow> (string, unit) fallible \<times> 'e world" where
  "Register_store env systemId w =
     (let account = \<lparr>ai_SystemId = systemId, ai_RegisterTime = env_now env\<rparr>
      in if IsCluster (Config (App w)) then
           (case with_etcd w (Put (env_new env) (env_kv env) (Config (App w))
                   (ETCD_PREFIX_ACCOUNT_INFO @ systemId) (json_text (account_json account)) (Etcd w)) of
              (Ok _, w1) \<Rightarrow> (Ok (), w1)
            | (_, w1) \<Rightarrow> (Panic, w1))
         else (Ok (), w\<lparr>SystemMap := fmupd systemId account (SystemMap w)\<rparr>))"

definition Register :: "'e env \<Rightarrow> string \<Rightarrow> 'e world \<Rightarrow> (string, unit) fallible \<times> 'e world" where
  "Register env systemId w =
     (case Register_check env systemId w of
        (Ok _, w1) \<Rightarrow> Register_store env systemId w1
      | r \<Rightarrow> r)"

section \<open>The middlewares\<close>

definition fail_reply :: "string \<Rightarrow> reply" where
  "fail_reply txt = api_Render FAIL txt (JArr [])"

definition AccessTokenMiddleware :: "'e env \<Rightarrow> 'e world handler \<Rightarrow> 'e world handler" where
  "AccessTokenMiddleware env nxt r w =
     (if req_Method r \<noteq> ''POST'' then respond (Status MethodNotAllowed) w
      else
        (let systemId = req_Header r ''SystemId''
         in if length systemId = 0 then respond (fail_reply msg_system_empty) w
            else if IsCluster (Config (App w)) then
              (case Get_account env systemId w of
                 (Panic, w1) \<Rightarrow> Panics (None, w1)
               | (Err err, w1) \<Rightarrow> respond (fail_reply msg_etcd_error) w1
               | (Ok n, w1) \<Rightarrow>
                   (if n = 0 then respond (fail_reply msg_system_invalid) w1 else nxt r w1))
            else
              (case fmlookup (SystemMap w) systemId of
                 None \<Rightarrow> respond (fail_reply msg_system_invalid) w
               | Some _ \<Rightarrow> nxt r w)))"

text \<open>The logged request has its line breaks replaced by blanks; the log line of the end is last.\<close>

definition log_append :: "log_line \<Rightarrow> 'e world \<Rightarrow> 'e world" where
  "log_append l w = w\<lparr>Logs := Logs w @ [l]\<rparr>"

definition trace_id :: "'e env \<Rightarrow> http_request \<Rightarrow> string" where
  "trace_id env r = (if req_Header r ''Trace-Id'' = [] then env_trace env else req_Header r ''Trace-Id'')"

fun replace_crlf :: "string \<Rightarrow> string" where
  "replace_crlf (x # y # s) =
     (if x = CHR 0x0D \<and> y = CHR 0x0A then CHR '' '' # replace_crlf s else x # replace_crlf (y # s))"
| "replace_crlf s = s"

definition one_line :: "string \<Rightarrow> string" where
  "one_line s = replace_all (CHR 0x0A) (CHR '' '') (replace_crlf s)"

lemma one_line_no_newline: "CHR 0x0A \<notin> set (one_line s)"
  by (auto simp: one_line_def replace_all_def)

definition AccessLogMiddleware :: "'e env \<Rightarrow> 'e world handler \<Rightarrow> 'e world handler" where
  "AccessLogMiddleware env nxt r w =
     (case nxt r (log_append (RequestLog (trace_id env r) (one_line (req_Dump r))) w) of
        Returns (reply, w1) \<Rightarrow>
          Returns (reply, log_append (AccessLog (trace_id env r) (env_latency env) (req_RemoteAddr r)
            (req_Method r) (req_RequestURI r)) w1)
      | Blocks x \<Rightarrow> Blocks x
      | Panics x \<Rightarrow> Panics x)"

section \<open>Facts\<close>

text \<open>An id as the handlers see it taken, in the mode the process runs in.\<close>

definition taken_in :: "'e env \<Rightarrow> 'e world \<Rightarrow> string \<Rightarrow> bool" where
  "taken_in env w i \<longleftrightarrow>
     (if IsCluster (Config (App w)) then
        kv_Get (env_kv env) (ETCD_PREFIX_ACCOUNT_INFO @ i) (service (Etcd w)) \<noteq> Inr 0
      else fmlookup (SystemMap w) i \<noteq> None)"

lemma taken_in_now: "taken_in (env\<lparr>env_now := now\<rparr>) w i = taken_in env w i"
  by (simp add: taken_in_def)

text \<open>In a cluster: the process has a client of the service, or can make one.\<close>

definition connected :: "'e env \<Rightarrow> 'e world \<Rightarrow> bool" where
  "connected env w \<longleftrightarrow> etcdKvClient (Etcd w) \<or> env_new env (Endpoints (EtcdSetting (Config (App w))))"

definition connect_etcd :: "'e world \<Rightarrow> 'e world" where
  "connect_etcd w = w\<lparr>Etcd := (Etcd w)\<lparr>etcdKvClient := True\<rparr>\<rparr>"

lemma connect_etcd_simps [simp]:
  "App (connect_etcd w) = App w" "SystemMap (connect_etcd w) = SystemMap w"
  "service (Etcd (connect_etcd w)) = service (Etcd w)" "etcdKvClient (Etcd (connect_etcd w))"
  "taken_in env (connect_etcd w) i = taken_in env w i"
  by (simp_all add: connect_etcd_def taken_in_def)

lemma connect_etcd_idle: "etcdKvClient (Etcd w) \<Longrightarrow> connect_etcd w = w"
  by (simp add: connect_etcd_def)

lemma Get_account_connected:
  assumes "lawful_kv (env_kv env)" and "connected env w"
  shows "\<exists>n. Get_account env i w = (Ok n, connect_etcd w) \<and>
    kv_Get (env_kv env) (ETCD_PREFIX_ACCOUNT_INFO @ i) (service (Etcd w)) = Inr n"
proof -
  obtain n where "kv_Get (env_kv env) (ETCD_PREFIX_ACCOUNT_INFO @ i) (service (Etcd w)) = Inr n"
    using assms(1) unfolding lawful_kv_def by blast
  then show ?thesis
    using assms(2)
    by (auto simp: Get_account_def with_etcd_def Get_def GetInstance_def connect_etcd_def connected_def)
qed

lemma Get_account_unconnected:
  "\<not> connected env w \<Longrightarrow> Get_account env i w = (Panic, w)"
  by (simp add: Get_account_def with_etcd_def Get_def GetInstance_def connected_def)

lemma Register_check_cases:
  assumes "lawful_kv (env_kv env)"
  shows "Register_check env i w =
    (if i = [] then (Err msg_system_empty, w)
     else if IsCluster (Config (App w)) \<and> \<not> connected env w then (Panic, w)
     else (if taken_in env w i then Err msg_registered else Ok (),
           if IsCluster (Config (App w)) then connect_etcd w else w))"
proof (cases "IsCluster (Config (App w))")
  case True
  then show ?thesis
    using Get_account_connected [OF assms, of w i] Get_account_unconnected [of env w i]
    by (cases "connected env w") (auto simp: Register_check_def taken_in_def)
qed (auto simp: Register_check_def taken_in_def split: option.split)

lemma Register_store_Ok:
  assumes "lawful_kv (env_kv env)" and "Register_store env i w = (Ok u, w')"
  shows "Config (App w') = Config (App w)" and "taken_in env w' j \<longleftrightarrow> j = i \<or> taken_in env w j"
    and "IsCluster (Config (App w)) \<Longrightarrow> etcdKvClient (Etcd w')"
proof (atomize (full), cases "IsCluster (Config (App w))")
  case True
  then obtain v e where put: "kv_Put (env_kv env) (ETCD_PREFIX_ACCOUNT_INFO @ i) v (service (Etcd w)) = (None, e)"
    and w': "service (Etcd w') = e" "etcdKvClient (Etcd w')" "App w' = App w"
    using assms(2)
    by (auto simp: Register_store_def with_etcd_def Put_def GetInstance_def Let_def
        split: fallible.splits option.splits prod.splits if_splits)
  have "kv_Get (env_kv env) (ETCD_PREFIX_ACCOUNT_INFO @ i) e = Inr 1"
    and "j \<noteq> i \<Longrightarrow> kv_Get (env_kv env) (ETCD_PREFIX_ACCOUNT_INFO @ j) e =
      kv_Get (env_kv env) (ETCD_PREFIX_ACCOUNT_INFO @ j) (service (Etcd w))"
    using assms(1) put by (simp_all add: lawful_kv_def)
  then show "Config (App w') = Config (App w) \<and> taken_in env w' j = (j = i \<or> taken_in env w j) \<and>
      (IsCluster (Config (App w)) \<longrightarrow> etcdKvClient (Etcd w'))"
    using True by (cases "j = i") (simp_all add: w' taken_in_def)
next
  case False
  then show "Config (App w') = Config (App w) \<and> taken_in env w' j = (j = i \<or> taken_in env w j) \<and>
      (IsCluster (Config (App w)) \<longrightarrow> etcdKvClient (Etcd w'))"
    using assms(2) by (auto simp: Register_store_def taken_in_def Let_def)
qed

lemma AccessToken_cases:
  assumes "lawful_kv (env_kv env)" and "req_Method r = ''POST''" and "req_Header r ''SystemId'' = i" and "i \<noteq> []"
    and "IsCluster (Config (App w)) \<longrightarrow> connected env w"
  shows "AccessTokenMiddleware env nxt r w =
    (let w1 = if IsCluster (Config (App w)) then connect_etcd w else w
     in if taken_in env w i then nxt r w1 else respond (fail_reply msg_system_invalid) w1)"
proof (cases "IsCluster (Config (App w))")
  case True
  then obtain n where "Get_account env i w = (Ok n, connect_etcd w)"
      and "kv_Get (env_kv env) (ETCD_PREFIX_ACCOUNT_INFO @ i) (service (Etcd w)) = Inr n"
    using Get_account_connected [OF assms(1)] assms(5) by blast
  then show ?thesis using True assms(2-4) by (simp add: AccessTokenMiddleware_def taken_in_def)
qed (use assms(2-4) in \<open>auto simp: AccessTokenMiddleware_def taken_in_def split: option.split\<close>)

section \<open>Properties\<close>

text \<open>
  C7. Registration and the token check fit together, on a single server and, with a lawful etcd
  service, in a cluster. A registration that succeeds was for an id that the check refused
  before; afterwards the check lets every request of that id through, a second registration
  of it fails whatever else changes in the environment, and no other id is affected.
\<close>

theorem Register_AccessToken:
  assumes "lawful_kv (env_kv env)" and "Register env i w = (Ok u, w')"
  shows "i \<noteq> [] \<and>
    (\<forall>nxt r. req_Method r = ''POST'' \<and> req_Header r ''SystemId'' = i \<longrightarrow>
       (\<exists>w1. AccessTokenMiddleware env nxt r w = respond (fail_reply msg_system_invalid) w1) \<and>
       AccessTokenMiddleware env nxt r w' = nxt r w') \<and>
    (\<forall>now. Register (env\<lparr>env_now := now\<rparr>) i w' = (Err msg_registered, w')) \<and>
    (\<forall>j. j \<noteq> i \<longrightarrow> taken_in env w' j = taken_in env w j)"
proof -
  note check = Register_check_cases [OF assms(1), of i]
  have pre: "i \<noteq> []" "IsCluster (Config (App w)) \<longrightarrow> connected env w" "\<not> taken_in env w i"
    and "\<exists>w1. Register_store env i w1 = (Ok u, w') \<and> w1 = (if IsCluster (Config (App w)) then connect_etcd w else w)"
    using assms(2) by (auto simp: Register_def check split: if_splits)
  then obtain w1 where store: "Register_store env i w1 = (Ok u, w')"
    and w1: "w1 = (if IsCluster (Config (App w)) then connect_etcd w else w)" by blast
  note post = Register_store_Ok [OF assms(1) store]
  have cfg: "Config (App w') = Config (App w)" using post(1) by (simp add: w1)
  have taken: "taken_in env w' j \<longleftrightarrow> j = i \<or> taken_in env w j" for j using post(2) by (simp add: w1)
  have con: "IsCluster (Config (App w')) \<longrightarrow> etcdKvClient (Etcd w')" using post(3) by (simp add: w1 cfg)
  have access: "\<exists>w1. AccessTokenMiddleware env nxt r w = respond (fail_reply msg_system_invalid) w1"
    "AccessTokenMiddleware env nxt r w' = nxt r w'"
    if "req_Method r = ''POST''" "req_Header r ''SystemId'' = i" for nxt r
    using AccessToken_cases [OF assms(1) that pre(1,2), of nxt] AccessToken_cases [OF assms(1) that pre(1), of w' nxt]
      pre(3) taken [of i] con connect_etcd_idle [of w']
    by (auto simp: Let_def connected_def)
  have "Register (env\<lparr>env_now := now\<rparr>) i w' = (Err msg_registered, w')" for now
  proof -
    have "taken_in (env\<lparr>env_now := now\<rparr>) w' i" unfolding taken_in_now using taken by simp
    then show ?thesis
      using Register_check_cases [of "env\<lparr>env_now := now\<rparr>" i w'] assms(1) pre(1) con connect_etcd_idle [of w']
      by (auto simp: Register_def connected_def)
  qed
  then show ?thesis using pre(1) access taken by auto
qed

definition env0 :: "(string, string) fmap env" where
  "env0 = \<lparr>env_rand = (\<lambda>_ _. 0), env_dial = (\<lambda>_. True), env_answer = (\<lambda>_ _. None), env_arrival = [],
     env_new = (\<lambda>_. True), env_kv = map_kv, env_now = 1700000000, env_trace = ''t1'', env_latency = 5\<rparr>"

definition world0 :: "setting \<Rightarrow> (string, string) fmap world" where
  "world0 st = \<lparr>App = server_init st, SystemMap = fmempty, Etcd = \<lparr>etcdKvClient = False, service = fmempty\<rparr>, Logs = []\<rparr>"

lemma world0_simps [simp]:
  "App (world0 st) = server_init st" "SystemMap (world0 st) = fmempty" "Config (server_init st) = st"
  "IsCluster two_servers" "lawful_kv (env_kv env0)"
  using lawful_map_kv by (simp_all add: world0_def server_init_def IsCluster_def two_servers_def env0_def)

lemma Register_AccessToken_witness:
  "\<exists>w'. Register env0 ''im'' (world0 two_servers) = (Ok (), w') \<and> Register (env0\<lparr>env_now := 7\<rparr>) ''im'' w' = (Err msg_registered, w') \<and>
     \<not> taken_in env0 w' ''mail''"
proof -
  have "\<exists>w'. Register env0 ''im'' (world0 two_servers) = (Ok (), w')"
  proof -
    have "Register_check env0 ''im'' (world0 two_servers) = (Ok (), connect_etcd (world0 two_servers))"
      unfolding Register_check_cases [OF world0_simps(5)]
      by (simp add: connected_def) (simp add: env0_def taken_in_def map_kv_def world0_def)
    moreover have "\<exists>w'. Register_store env0 ''im'' (connect_etcd (world0 two_servers)) = (Ok (), w')"
      by (simp add: Register_store_def with_etcd_def Put_def GetInstance_def env0_def map_kv_def Let_def)
    ultimately show ?thesis by (simp add: Register_def)
  qed
  moreover have "\<not> taken_in env0 (world0 two_servers) ''mail''"
    by (simp add: taken_in_def env0_def map_kv_def world0_def)
  ultimately show ?thesis
    using Register_AccessToken [of env0 "''im''" "world0 two_servers" "()"] by auto
qed

text \<open>
  Checking and storing are two steps. On a single server two requests for the same free id that
  both check before either stores both succeed, and the account keeps the time of the second.
\<close>

theorem Register_race:
  assumes "\<not> IsCluster (Config (App w))" and "i \<noteq> []" and "fmlookup (SystemMap w) i = None"
  shows "Register_check env1 i w = (Ok (), w) \<and> Register_check env2 i w = (Ok (), w) \<and>
    (\<exists>w1 w2. Register_store env1 i w = (Ok (), w1) \<and> Register_store env2 i w1 = (Ok (), w2) \<and>
       fmlookup (SystemMap w2) i = Some \<lparr>ai_SystemId = i, ai_RegisterTime = env_now env2\<rparr> \<and>
       fst (Register env1 i w) = Ok () \<and> fst (Register env2 i w1) = Err msg_registered)"
  using assms by (simp add: Register_def Register_check_def Register_store_def Let_def)

lemma Register_race_witness:
  "\<exists>w1 w2. Register_store env0 ''im'' (world0 cfg1) = (Ok (), w1) \<and>
     Register_store (env0\<lparr>env_now := 7\<rparr>) ''im'' w1 = (Ok (), w2) \<and>
     fmlookup (SystemMap w2) ''im'' = Some \<lparr>ai_SystemId = ''im'', ai_RegisterTime = 7\<rparr>"
  using Register_race [of "world0 cfg1" "''im''" env0 "env0\<lparr>env_now := 7\<rparr>"] by auto

end
