(* ===== verification/Api.thy ===== *)
theory Api
  imports Account
begin

text \<open>
  api/: the eight controllers of the HTTP interface. Each has the struct \<open>inputData\<close> of its
  package, how a JSON body is decoded into it, which of its fields are required, and \<open>Run\<close>.
  Decoding gives \<open>None\<close> where it reports an error: the body is no object, or some value does not
  fit the type of its field.
\<close>

definition fields_ok :: "json \<Rightarrow> bool list \<Rightarrow> 'd \<Rightarrow> 'd option" where
  "fields_ok j oks d = (if is_object j \<and> list_all (\<lambda>b. b) oks then Some d else None)"

lemma fields_ok_Some: "fields_ok j oks d = Some d' \<longleftrightarrow> is_object j \<and> list_all (\<lambda>b. b) oks \<and> d = d'"
  by (auto simp: fields_ok_def)

definition success_text :: string where "success_text = ''success''"

section \<open>register\<close>

definition register_decode :: "json \<Rightarrow> string option" where
  "register_decode j = (let (sys, ok) = get_string [''systemId''] ''systemId'' j in fields_ok j [ok] sys)"

definition register_Run :: "'e env \<Rightarrow> 'e world handler" where
  "register_Run env = controller register_decode (\<lambda>sys. [(''SystemId'', sys \<noteq> [])])
     (\<lambda>sys w. case Register env sys w of
        (Ok _, w1) \<Rightarrow> respond (api_Render SUCCESS success_text (JArr [])) w1
      | (Err err, w1) \<Rightarrow> respond (api_Render FAIL err (JArr [])) w1
      | (Panic, w1) \<Rightarrow> Panics (None, w1))"

section \<open>bind2group\<close>

record bind2group_input =
  b2g_ClientId :: string
  b2g_GroupName :: string
  b2g_UserId :: string
  b2g_Extend :: string

definition bind2group_decode :: "json \<Rightarrow> bind2group_input option" where
  "bind2group_decode j =
     (let names = [''clientId'', ''groupName'', ''userId'', ''extend''];
          (clientId, ok1) = get_string names ''clientId'' j;
          (groupName, ok2) = get_string names ''groupName'' j;
          (userId, ok3) = get_string names ''userId'' j;
          (ext, ok4) = get_string names ''extend'' j
      in fields_ok j [ok1, ok2, ok3, ok4]
           \<lparr>b2g_ClientId = clientId, b2g_GroupName = groupName, b2g_UserId = userId, b2g_Extend = ext\<rparr>)"

definition bind2group_Run :: "'e world handler" where
  "bind2group_Run r = controller bind2group_decode
     (\<lambda>d. [(''ClientId'', b2g_ClientId d \<noteq> []), (''GroupName'', b2g_GroupName d \<noteq> [])])
     (\<lambda>d w. respond (api_Render SUCCESS success_text (JArr []))
        (w\<lparr>App := AddClient2Group (req_Header r ''SystemId'') (b2g_GroupName d) (b2g_ClientId d)
             (b2g_UserId d) (b2g_Extend d) (App w)\<rparr>)) r"

section \<open>clientstatistics\<close>

record clientstatistics_input =
  cs_Platform :: string
  cs_Account :: string

definition clientstatistics_decode :: "json \<Rightarrow> clientstatistics_input option" where
  "clientstatistics_decode j =
     (let names = [''platform'', ''account''];
          (platform, ok1) = get_string names ''platform'' j;
          (account, ok2) = get_string names ''account'' j
      in fields_ok j [ok1, ok2] \<lparr>cs_Platform = platform, cs_Account = account\<rparr>)"

text \<open>The list of ids starts as nil, so an empty one is null.\<close>

definition strings_json :: "string list \<Rightarrow> json" where
  "strings_json l = (if l = [] then JNull else JArr (map JStr l))"

definition clientstatistics_Run :: "'e world handler" where
  "clientstatistics_Run = controller clientstatistics_decode (\<lambda>d. [])
     (\<lambda>d w. let (clientIds, count) = ClientStatistics (cs_Platform d) (cs_Account d) (App w)
       in respond (api_Render SUCCESS success_text
            (JObj [(''clientIds'', strings_json clientIds), (''count'', JInt (int count))])) w)"

section \<open>closeclient\<close>

definition closeclient_decode :: "json \<Rightarrow> string option" where
  "closeclient_decode j = (let (clientId, ok) = get_string [''clientId''] ''clientId'' j in fields_ok j [ok] clientId)"

text \<open>The address handed on is that of the HTTP caller.\<close>

definition closeclient_Run :: "'e env \<Rightarrow> 'e world handler" where
  "closeclient_Run env r = controller closeclient_decode (\<lambda>clientId. [(''ClientId'', clientId \<noteq> [])])
     (\<lambda>clientId w. then_reply
        (CloseClient (env_dial env) clientId (req_Header r ''SystemId'') (req_RemoteAddr r) (App w))
        (api_Render SUCCESS success_text (JObj [])) w) r"

section \<open>getonlinelist\<close>

text \<open>The field \<open>Data\<close> takes any value.\<close>

record getonlinelist_input =
  gol_GroupName :: string
  gol_Code :: int
  gol_Msg :: string
  gol_Data :: json

definition put_any :: "json \<Rightarrow> json \<Rightarrow> json \<times> bool" where
  "put_any j old = (j, True)"

definition getonlinelist_decode :: "json \<Rightarrow> getonlinelist_input option" where
  "getonlinelist_decode j =
     (let names = [''groupName'', ''code'', ''msg'', ''data''];
          (groupName, ok1) = get_string names ''groupName'' j;
          (code, ok2) = get_int names ''code'' j;
          (txt, ok3) = get_string names ''msg'' j;
          (data, ok4) = put_all put_any (field_values names ''data'' j) JNull
      in fields_ok j [ok1, ok2, ok3, ok4] \<lparr>gol_GroupName = groupName, gol_Code = code, gol_Msg = txt, gol_Data = data\<rparr>)"

definition getonlinelist_Run :: "'e env \<Rightarrow> 'e world handler" where
  "getonlinelist_Run env r = controller getonlinelist_decode (\<lambda>d. [(''GroupName'', gol_GroupName d \<noteq> [])])
     (\<lambda>d w. case GetOnlineList (env_dial env) (env_answer env) (env_arrival env)
              (Some (req_Header r ''SystemId'')) (Some (gol_GroupName d)) (App w) of
        Returns (ret, s) \<Rightarrow>
          respond (api_Render SUCCESS success_text (case ret of None \<Rightarrow> JNull | Some x \<Rightarrow> x)) (w\<lparr>App := s\<rparr>)
      | Blocks (_, s) \<Rightarrow> Blocks (None, w\<lparr>App := s\<rparr>)
      | Panics (_, s) \<Rightarrow> Panics (None, w\<lparr>App := s\<rparr>)) r"

section \<open>send2client\<close>

record send2client_input =
  s2c_ClientId :: string
  s2c_SendUserId :: string
  s2c_Code :: string
  s2c_Msg :: string
  s2c_Data :: string

definition send2client_decode :: "json \<Rightarrow> send2client_input option" where
  "send2client_decode j =
     (let names = [''clientId'', ''sendUserId'', ''type'', ''msg'', ''data''];
          (clientId, ok1) = get_string names ''clientId'' j;
          (sendUserId, ok2) = get_string names ''sendUserId'' j;
          (code, ok3) = get_string names ''type'' j;
          (txt, ok4) = get_string names ''msg'' j;
          (data, ok5) = get_string names ''data'' j
      in fields_ok j [ok1, ok2, ok3, ok4, ok5]
           \<lparr>s2c_ClientId = clientId, s2c_SendUserId = sendUserId, s2c_Code = code, s2c_Msg = txt, s2c_Data = data\<rparr>)"

definition message_id_json :: "string \<Rightarrow> json" where
  "message_id_json messageId = JObj [(''messageId'', JStr messageId)]"

definition send2client_Run :: "'e env \<Rightarrow> 'e world handler" where
  "send2client_Run env = controller send2client_decode (\<lambda>d. [(''ClientId'', s2c_ClientId d \<noteq> [])])
     (\<lambda>d w. let (messageId, out) = SendMessage2Client (env_rand env 0) (s2c_ClientId d) (s2c_SendUserId d)
              (s2c_Code d) (s2c_Msg d) (Some (s2c_Data d)) (App w)
       in then_reply out (api_Render SUCCESS success_text (message_id_json messageId)) w)"

section \<open>send2clients\<close>

text \<open>Here \<open>Code\<close> is a string with the tag \<open>code\<close>.\<close>

record send2clients_input =
  s2cs_ClientIds :: "string list option"
  s2cs_SendUserId :: string
  s2cs_Code :: string
  s2cs_Msg :: string
  s2cs_Data :: string

definition send2clients_decode :: "json \<Rightarrow> send2clients_input option" where
  "send2clients_decode j =
     (let names = [''clientIds'', ''sendUserId'', ''code'', ''msg'', ''data''];
          (clientIds, ok1) = get_strings names ''clientIds'' j;
          (sendUserId, ok2) = get_string names ''sendUserId'' j;
          (code, ok3) = get_string names ''code'' j;
          (txt, ok4) = get_string names ''msg'' j;
          (data, ok5) = get_string names ''data'' j
      in fields_ok j [ok1, ok2, ok3, ok4, ok5]
           \<lparr>s2cs_ClientIds = clientIds, s2cs_SendUserId = sendUserId, s2cs_Code = code, s2cs_Msg = txt, s2cs_Data = data\<rparr>)"

fun send_all :: "(nat \<Rightarrow> nat \<Rightarrow> byte) \<Rightarrow> send2clients_input \<Rightarrow> string list \<Rightarrow> server \<Rightarrow> server outcome" where
  "send_all rs d [] s = Returns s"
| "send_all rs d (clientId # ids) s =
     outcome_then
       (snd (SendMessage2Client (rs 0) clientId (s2cs_SendUserId d) (s2cs_Code d) (s2cs_Msg d) (Some (s2cs_Data d)) s))
       (send_all (\<lambda>n. rs (Suc n)) d ids)"

definition send2clients_Run :: "'e env \<Rightarrow> 'e world handler" where
  "send2clients_Run env = controller send2clients_decode (\<lambda>d. [(''ClientIds'', s2cs_ClientIds d \<noteq> None)])
     (\<lambda>d w. then_reply (send_all (env_rand env) d (the (s2cs_ClientIds d)) (App w))
        (api_Render SUCCESS success_text (JArr [])) w)"

section \<open>send2group\<close>

record send2group_input =
  s2g_SendUserId :: string
  s2g_GroupName :: string
  s2g_Code :: int
  s2g_Msg :: string
  s2g_Data :: string

definition send2group_decode :: "json \<Rightarrow> send2group_input option" where
  "send2group_decode j =
     (let names = [''sendUserId'', ''groupName'', ''code'', ''msg'', ''data''];
          (sendUserId, ok1) = get_string names ''sendUserId'' j;
          (groupName, ok2) = get_string names ''groupName'' j;
          (code, ok3) = get_int names ''code'' j;
          (txt, ok4) = get_string names ''msg'' j;
          (data, ok5) = get_string names ''data'' j
      in fields_ok j [ok1, ok2, ok3, ok4, ok5]
           \<lparr>s2g_SendUserId = sendUserId, s2g_GroupName = groupName, s2g_Code = code, s2g_Msg = txt, s2g_Data = data\<rparr>)"

definition send2group_Run :: "'e env \<Rightarrow> 'e world handler" where
  "send2group_Run env r = controller send2group_decode (\<lambda>d. [(''GroupName'', s2g_GroupName d \<noteq> [])])
     (\<lambda>d w. let (messageId, s) = SendMessage2Group (env_rand env 0)
              \<lparr>call_system = req_Header r ''SystemId'', call_sender = s2g_SendUserId d, call_group = s2g_GroupName d,
               call_code = s2g_Code d, call_msg = s2g_Msg d, call_data = Some (s2g_Data d)\<rparr> (App w)
       in respond (api_Render SUCCESS success_text (message_id_json messageId)) (w\<lparr>App := s\<rparr>)) r"

lemmas decode_defs = register_decode_def bind2group_decode_def clientstatistics_decode_def closeclient_decode_def
  getonlinelist_decode_def send2client_decode_def send2clients_decode_def send2group_decode_def

lemmas Run_defs = register_Run_def bind2group_Run_def clientstatistics_Run_def closeclient_Run_def
  getonlinelist_Run_def send2client_Run_def send2clients_Run_def send2group_Run_def

end
