(* ===== verification/Routers.thy ===== *)
theory Routers
  imports Api
begin

text \<open>
  routers/routers.go: which handler serves which path. The route \<open>/ws\<close> that \<open>StartWebSocket\<close> adds
  leads to the connect handler, \<open>Run\<close>, which takes the connection over and renders no reply.
\<close>

definition Init :: "'e env \<Rightarrow> (string \<times> 'e world handler) list" where
  "Init env =
    [(''/api/register'', AccessLogMiddleware env (register_Run env)),
     (''/api/send_to_client'', AccessLogMiddleware env (send2client_Run env)),
     (''/api/send_to_clients'', AccessLogMiddleware env (send2clients_Run env)),
     (''/api/send_to_group'', AccessLogMiddleware env (send2group_Run env)),
     (''/api/bind_to_group'', AccessLogMiddleware env bind2group_Run),
     (''/api/get_online_list'', AccessLogMiddleware env (getonlinelist_Run env)),
     (''/api/close_client'', AccessLogMiddleware env (closeclient_Run env)),
     (''/api/account/client/count'', AccessLogMiddleware env clientstatistics_Run)]"

text \<open>
  The default mux of net/http, as the program uses it: it answers a request for \<open>*\<close> itself, and
  redirects a path that is not clean (with an empty segment, a dot or two dots, but for CONNECT)
  to the clean one; a clean path it looks up, and no pattern here ends in a slash. The path \<open>/ws\<close>
  is the one pattern that is not in this table.
\<close>

definition clean_path :: "string \<Rightarrow> bool" where
  "clean_path path =
     (case path of
        [] \<Rightarrow> False
      | c # rest \<Rightarrow>
          (let segments = split_on (CHR ''/'') rest
           in c = CHR ''/'' \<and> list_all (\<lambda>seg. seg \<noteq> ''.'' \<and> seg \<noteq> ''..'') segments \<and>
              list_all (\<lambda>seg. seg \<noteq> []) (butlast segments)))"

definition mux_reply :: "http_request \<Rightarrow> reply option" where
  "mux_reply r =
     (if req_Path r = ''*'' then Some (Status (if req_Method r = ''OPTIONS'' then 200 else 400))
      else if req_Method r \<noteq> ''CONNECT'' \<and> \<not> clean_path (req_Path r) then Some (Status 301)
      else None)"

definition serve :: "'e env \<Rightarrow> 'e world handler" where
  "serve env r w =
     (case mux_reply r of
        Some rep \<Rightarrow> respond rep w
      | None \<Rightarrow>
          (case map_of (Init env) (req_Path r) of
             None \<Rightarrow> respond (Status 404) w
           | Some h \<Rightarrow> h r w))"

lemma routes_clean:
  assumes "map_of (Init env) (req_Path r) = Some h"
  shows "mux_reply r = None"
proof -
  have "req_Path r \<in> set (map fst (Init env))" using assms map_of_eq_None_iff [of "Init env" "req_Path r"] by auto
  then have "clean_path (req_Path r) \<and> req_Path r \<noteq> ''*''"
    by (auto simp: Init_def clean_path_def)
  then show ?thesis by (simp add: mux_reply_def)
qed

lemma serve_route: "map_of (Init env) (req_Path r) = Some h \<Longrightarrow> serve env r w = h r w"
  by (simp add: serve_def routes_clean)

lemma serve_no_route:
  assumes "map_of (Init env) (req_Path r) = None"
  shows "\<exists>n \<in> {200, 301, 400, 404}. serve env r w = respond (Status n) w"
  using assms by (auto simp: serve_def mux_reply_def)

lemma serve_no_route_same:
  assumes "map_of (Init env) (req_Path r) = None"
  shows "\<exists>n. \<forall>w. serve env r w = respond (Status n) w"
  using assms by (auto simp: serve_def mux_reply_def)

end
