(* ===== verification/ApiFacts.thy ===== *)
theory ApiFacts
  imports Routers
begin

text \<open>
  The properties of the HTTP interface as a whole, over the routing table.
\<close>

section \<open>What a handler keeps\<close>

text \<open>
  A handler that replies with anything but success has changed no state (but the log), and no more
  has the mux when it answers by itself.
\<close>

definition same_state :: "'e world \<Rightarrow> 'e world \<Rightarrow> bool" where
  "same_state w w' \<longleftrightarrow> App w' = App w \<and> SystemMap w' = SystemMap w \<and> service (Etcd w') = service (Etcd w)"

definition is_success :: "reply \<Rightarrow> bool" where
  "is_success r \<longleftrightarrow> (\<exists>data. r = api_Render SUCCESS success_text data)"

definition is_failure :: "reply \<Rightarrow> bool" where
  "is_failure r \<longleftrightarrow> (\<exists>n \<in> {200, 301, 400, 404}. r = Status n) \<or> (\<exists>err. r = fail_reply err)"

definition fair_result :: "'e world \<Rightarrow> 'e world handled \<Rightarrow> bool" where
  "fair_result w out \<longleftrightarrow>
     (case out of
        Returns (None, w') \<Rightarrow> False
      | Returns (Some r, w') \<Rightarrow> is_success r \<or> is_failure r \<and> same_state w w'
      | Blocks (r, w') \<Rightarrow> r = None
      | Panics (r, w') \<Rightarrow> r = None)"

lemma fair_simps [simp]:
  "fair_result w (Returns (Some r, w')) \<longleftrightarrow> is_success r \<or> is_failure r \<and> same_state w w'"
  "fair_result w (Returns (None, w')) = False"
  "fair_result w (Blocks (o', w')) \<longleftrightarrow> o' = None" "fair_result w (Panics (o', w')) \<longleftrightarrow> o' = None"
  "is_success (api_Render SUCCESS success_text data)" "is_failure (Status 400)" "is_failure (Status 404)"
  "is_failure (api_Render FAIL err (JArr []))" "same_state w w"
  "fair_result w (respond r w') = fair_result w (Returns (Some r, w'))"
  by (auto simp: fair_result_def is_success_def is_failure_def same_state_def fail_reply_def respond_def)

lemma fair_then_reply [simp]: "is_success r \<Longrightarrow> fair_result w (then_reply out r w1)"
  by (cases out) simp_all

lemma fair_controller:
  "(\<And>d. fair_result w (act d w)) \<Longrightarrow> fair_result w (controller decode required act r w)"
  by (rule controller_cases) (simp_all add: BadRequest_def)

lemma Register_Err_keeps:
  assumes "Register env i w = (Err err, w')"
  shows "same_state w w'"
  using assms
  by (auto simp: Register_def Register_check_def Register_store_def Get_account_def Get_def GetInstance_def
      with_etcd_def same_state_def Let_def split: fallible.splits prod.splits if_splits option.splits)

lemma fair_runs:
  "fair_result w (register_Run env r w)" "fair_result w (send2client_Run env r w)"
  "fair_result w (send2clients_Run env r w)" "fair_result w (send2group_Run env r w)"
  "fair_result w (bind2group_Run r w)" "fair_result w (getonlinelist_Run env r w)"
  "fair_result w (closeclient_Run env r w)" "fair_result w (clientstatistics_Run r w)"
  unfolding Run_defs
  by (rule fair_controller; auto simp: Register_Err_keeps Let_def split: prod.split fallible.split outcome.split)+

lemma fair_AccessLog:
  assumes "\<And>w. fair_result w (h r w)"
  shows "fair_result w (AccessLogMiddleware env h r w)"
  using assms [of "log_append (RequestLog (trace_id env r) (one_line (req_Dump r))) w"]
  by (auto simp: AccessLogMiddleware_def fair_result_def same_state_def log_append_def
      split: outcome.splits option.splits)

lemma Init_cases:
  assumes "map_of (Init env) p = Some h"
  shows "\<exists>run \<in> {register_Run env, send2client_Run env, send2clients_Run env, send2group_Run env, bind2group_Run,
      getonlinelist_Run env, closeclient_Run env, clientstatistics_Run}. h = AccessLogMiddleware env run"
  using assms by (auto simp: Init_def split: if_splits)

lemma fair_serve: "fair_result w (serve env r w)"
proof (cases "map_of (Init env) (req_Path r)")
  case (Some h)
  then show ?thesis using Init_cases [OF Some] fair_runs by (auto simp: serve_route intro!: fair_AccessLog)
next
  case None
  then show ?thesis using serve_no_route [OF None, of w] by (auto simp: is_failure_def)
qed

section \<open>What a handler looks at\<close>

text \<open>Handlers that neither read nor change what is known about registered systems.\<close>

definition with_accounts :: "(string, accountInfo) fmap \<Rightarrow> 'e etcd \<Rightarrow> 'e world \<Rightarrow> 'e world" where
  "with_accounts sm e w = w\<lparr>SystemMap := sm, Etcd := e\<rparr>"

lemma with_accounts_simps [simp]:
  "App (with_accounts sm e w) = App w" "(with_accounts sm e w)\<lparr>App := s\<rparr> = with_accounts sm e (w\<lparr>App := s\<rparr>)"
  "log_append l (with_accounts sm e w) = with_accounts sm e (log_append l w)"
  by (simp_all add: with_accounts_def log_append_def)

definition on_worlds :: "('e world \<Rightarrow> 'e world) \<Rightarrow> 'e world handled \<Rightarrow> 'e world handled" where
  "on_worlds g = map_outcome (map_prod id g)"

lemma on_worlds_simps [simp]:
  "on_worlds g (Returns (x, w)) = Returns (x, g w)" "on_worlds g (Blocks (x, w)) = Blocks (x, g w)"
  "on_worlds g (Panics (x, w)) = Panics (x, g w)" "on_worlds g (respond r w) = respond r (g w)"
  by (simp_all add: on_worlds_def respond_def)

definition blind :: "'e world handler \<Rightarrow> bool" where
  "blind h \<longleftrightarrow> (\<forall>sm e r w. h r (with_accounts sm e w) = on_worlds (with_accounts sm e) (h r w))"

lemma blind_then_reply [simp]:
  "then_reply out r (with_accounts sm e w) = on_worlds (with_accounts sm e) (then_reply out r w)"
  by (cases out) simp_all

lemma blind_controller:
  assumes "\<And>d r sm e w. act r d (with_accounts sm e w) = on_worlds (with_accounts sm e) (act r d w)"
  shows "blind (\<lambda>r. controller decode required (act r) r)"
  using assms by (simp add: blind_def controller_def split: option.split)

lemma blind_runs:
  "blind (send2client_Run env)" "blind (send2clients_Run env)" "blind (send2group_Run env)" "blind bind2group_Run"
  "blind (getonlinelist_Run env)" "blind (closeclient_Run env)" "blind clientstatistics_Run"
  unfolding Run_defs [abs_def]
  by (rule blind_controller; simp add: Let_def split: prod.split outcome.split)+

lemma blind_AccessLog: "blind h \<Longrightarrow> blind (AccessLogMiddleware env h)"
  by (auto simp: blind_def AccessLogMiddleware_def on_worlds_def split: outcome.split)

section \<open>A request to look at\<close>

definition http0 :: http_request where
  "http0 = \<lparr>req_Method = ''POST'', req_Path = ''/api/send_to_client'', req_RequestURI = ''/api/send_to_client'',
     req_Header = (\<lambda>_. []), req_RemoteAddr = ''9.9.9.9:9'', req_Body = None, req_Dump = []\<rparr>"

section \<open>Properties\<close>

text \<open>
  C19. Whatever is sent to whatever path but \<open>/ws\<close>: a request that is answered gets either the rendered
  success, or a rendered failure, or a bare status of a controller (400) or of the mux (404, 301
  for a path that is not clean, 200 or 400 for \<open>*\<close>), and in all cases but the first neither the
  server, nor the registered systems, nor the etcd service have changed.
\<close>

theorem failed_requests_change_nothing:
  assumes "req_Path r \<noteq> ''/ws''" and "serve env r w = Returns (reply, w')"
  shows "\<exists>rep. reply = Some rep \<and> (is_success rep \<or>
    ((\<exists>n \<in> {200, 301, 400, 404}. rep = Status n) \<or> (\<exists>err. rep = api_Render FAIL err (JArr []))) \<and>
    App w' = App w \<and> SystemMap w' = SystemMap w \<and> service (Etcd w') = service (Etcd w))"
  using fair_serve [of w env r] assms(2)
  by (cases reply) (auto simp: is_failure_def same_state_def fail_reply_def)

lemma failed_requests_change_nothing_witness:
  "\<exists>w'. serve env0 (http0\<lparr>req_Body := Some (JObj [])\<rparr>) (world0 cfg1) =
       Returns (Some (api_Render FAIL (''ClientId'' @ msg_required) (JArr [])), w') \<and> App w' = server_init cfg1"
proof -
  have "\<exists>w'. serve env0 (http0\<lparr>req_Body := Some (JObj [])\<rparr>) (world0 cfg1) =
      Returns (Some (api_Render FAIL (''ClientId'' @ msg_required) (JArr [])), w')"
    by (simp add: serve_route Init_def AccessLogMiddleware_def send2client_Run_def controller_def send2client_decode_def
        get_string_def field_values_def fields_ok_def is_object_def Validate_def respond_def http0_def)
  then show ?thesis
    using failed_requests_change_nothing [of "http0\<lparr>req_Body := Some (JObj [])\<rparr>" env0 "world0 cfg1"]
    by (auto simp: is_success_def api_Render_def api_RetData_def SUCCESS_def FAIL_def http0_def)
qed

text \<open>
  C21. Nothing but registration itself looks at who is registered: on every other path the reply and
  the effect of a request are the same whatever systems \<open>SystemMap\<close> and etcd know, the one in
  the header included.
\<close>

theorem unregistered_systems_served:
  assumes "req_Path r \<noteq> ''/api/register''"
  shows "serve env r (w\<lparr>SystemMap := sm, Etcd := e\<rparr>) =
    map_outcome (map_prod id (\<lambda>w'. w'\<lparr>SystemMap := sm, Etcd := e\<rparr>)) (serve env r w)"
proof (cases "map_of (Init env) (req_Path r)")
  case (Some h)
  then have "blind h"
    using assms blind_runs by (auto simp: Init_def intro!: blind_AccessLog split: if_splits)
  then show ?thesis
    using Some by (simp add: serve_route blind_def with_accounts_def [abs_def] on_worlds_def)
next
  case None
  then show ?thesis using serve_no_route_same [OF None] by (auto simp: respond_def)
qed


lemma unregistered_systems_served_witness:
  "serve env0 http0 (world0 cfg1\<lparr>SystemMap := fmupd ''im'' \<lparr>ai_SystemId = ''im'', ai_RegisterTime = 7\<rparr> fmempty, Etcd := Etcd (world0 cfg1)\<rparr>) =
     map_outcome (map_prod id (\<lambda>w'. w'\<lparr>SystemMap := fmupd ''im'' \<lparr>ai_SystemId = ''im'', ai_RegisterTime = 7\<rparr> fmempty,
       Etcd := Etcd (world0 cfg1)\<rparr>)) (serve env0 http0 (world0 cfg1))"
  by (rule unregistered_systems_served) (simp add: http0_def)

section \<open>Success without effect\<close>

definition idle_success :: "'e env \<Rightarrow> http_request \<Rightarrow> 'e world \<Rightarrow> bool" where
  "idle_success env r w \<longleftrightarrow> (\<exists>rep w'. serve env r w = Returns (Some rep, w') \<and> is_success rep \<and> App w' = App w)"

lemma idle_successI:
  assumes "map_of (Init env) (req_Path r) = Some (AccessLogMiddleware env h)"
    and "\<And>w. \<exists>data. h r w = respond (api_Render SUCCESS success_text data) (w\<lparr>App := App w\<rparr>) \<or> App w \<noteq> a"
    and "App w = a"
  shows "idle_success env r w"
proof -
  let ?w = "log_append (RequestLog (trace_id env r) (one_line (req_Dump r))) w"
  have "App ?w = a" using assms(3) by (simp add: log_append_def)
  then obtain data where "h r ?w = respond (api_Render SUCCESS success_text data) (?w\<lparr>App := App ?w\<rparr>)"
    using assms(2) by blast
  then show ?thesis
    using assms(1) by (auto simp: idle_success_def serve_route AccessLogMiddleware_def respond_def is_success_def log_append_def)
qed

text \<open>An id that this server of a cluster does not take for one of its own.\<close>

definition foreign :: "setting \<Rightarrow> string \<Rightarrow> bool" where
  "foreign st i \<longleftrightarrow> (case GetAddrInfoAndIsLocal st i of Panic \<Rightarrow> False | Err _ \<Rightarrow> True | Ok (_, _, _, isLocal) \<Rightarrow> \<not> isLocal)"

text \<open>
  C20. Requests that are answered with success although nothing comes of them: every binding to a
  group; every message to a group on a single server; in a cluster every message to a client
  id of another server; on a single server closing a client, unless one of its connections was
  made from the very address and port that the HTTP request comes from.
\<close>

theorem success_without_effect:
  assumes "req_Body r = Some j"
  shows "(req_Path r = ''/api/bind_to_group'' \<and>
       (\<exists>d. bind2group_decode j = Some d \<and> b2g_ClientId d \<noteq> [] \<and> b2g_GroupName d \<noteq> []) \<longrightarrow> idle_success env r w) \<and>
    (req_Path r = ''/api/send_to_group'' \<and> \<not> IsCluster (Config (App w)) \<and>
       (\<exists>d. send2group_decode j = Some d \<and> s2g_GroupName d \<noteq> []) \<longrightarrow> idle_success env r w) \<and>
    (req_Path r = ''/api/send_to_client'' \<and> IsCluster (Config (App w)) \<and>
       (\<exists>d. send2client_decode j = Some d \<and> s2c_ClientId d \<noteq> [] \<and> foreign (Config (App w)) (s2c_ClientId d)) \<longrightarrow>
       idle_success env r w) \<and>
    (req_Path r = ''/api/close_client'' \<and> \<not> IsCluster (Config (App w)) \<and>
       (\<exists>i. closeclient_decode j = Some i \<and> i \<noteq> [] \<and>
          (\<forall>t. GetByClientId i (Manager (App w)) = Inr t \<longrightarrow> fmlookup t (req_RemoteAddr r) = None)) \<longrightarrow>
       idle_success env r w)"
proof (intro conjI impI; elim conjE exE)
  fix d assume "req_Path r = ''/api/bind_to_group''" "bind2group_decode j = Some d" "b2g_ClientId d \<noteq> []" "b2g_GroupName d \<noteq> []"
  then show "idle_success env r w"
    using assms by (intro idle_successI [where h = bind2group_Run])
      (auto simp: Init_def bind2group_Run_def controller_def Validate_def AddClient2Group_def)
next
  fix d assume "req_Path r = ''/api/send_to_group''" "\<not> IsCluster (Config (App w))" "send2group_decode j = Some d" "s2g_GroupName d \<noteq> []"
  then show "idle_success env r w"
    using assms by (intro idle_successI [where h = "send2group_Run env" and a = "App w"])
      (auto simp: Init_def send2group_Run_def controller_def Validate_def SendMessage2Group_def Let_def)
next
  fix d assume "req_Path r = ''/api/send_to_client''" "IsCluster (Config (App w))" "send2client_decode j = Some d"
    "s2c_ClientId d \<noteq> []" "foreign (Config (App w)) (s2c_ClientId d)"
  then show "idle_success env r w"
    using assms by (intro idle_successI [where h = "send2client_Run env" and a = "App w"])
      (auto simp: Init_def send2client_Run_def controller_def Validate_def SendMessage2Client_def Let_def foreign_def
        respond_def split: fallible.splits)
next
  fix i assume "req_Path r = ''/api/close_client''" "\<not> IsCluster (Config (App w))" "closeclient_decode j = Some i" "i \<noteq> []"
    "\<forall>t. GetByClientId i (Manager (App w)) = Inr t \<longrightarrow> fmlookup t (req_RemoteAddr r) = None"
  moreover from this have "CloseLocalClient i s a (App w) = Returns (App w)" if "a = req_RemoteAddr r" for s a
    using that by (auto simp: CloseLocalClient_def split: sum.split)
  ultimately show "idle_success env r w"
    using assms by (intro idle_successI [where h = "closeclient_Run env" and a = "App w"])
      (auto simp: Init_def closeclient_Run_def controller_def Validate_def CloseClient_def respond_def)
qed

text \<open>A connected client im, and a request from elsewhere to close it.\<close>

definition close_im :: http_request where
  "close_im = http0\<lparr>req_Path := ''/api/close_client'', req_Body := Some (JObj [(''clientId'', JStr ''im'')])\<rparr>"

lemma success_without_effect_witness:
  "idle_success env0 close_im ((world0 cfg1)\<lparr>App := srv1\<rparr>) \<and> GetByClientId ''im'' m1 = Inr (fmupd ''1.2.3.4:5'' 0 fmempty)"
proof -
  have "closeclient_decode (JObj [(''clientId'', JStr ''im'')]) = Some ''im''"
    by (simp add: closeclient_decode_def get_string_def field_values_def field_of_def put_string_def fields_ok_def is_object_def)
  moreover have "GetByClientId ''im'' m1 = Inr (fmupd ''1.2.3.4:5'' 0 fmempty)"
    by (simp add: GetByClientId_table)
  ultimately show ?thesis
    using success_without_effect [of close_im "JObj [(''clientId'', JStr ''im'')]" env0 "(world0 cfg1)\<lparr>App := srv1\<rparr>"]
    by (simp add: close_im_def http0_def)
qed

section \<open>The type of the code\<close>

text \<open>The same field is a string for several clients and a number for a group: the other type is refused.\<close>

lemma put_all_mismatch: "j \<in> set js \<Longrightarrow> (\<And>old. \<not> snd (put j old)) \<Longrightarrow> \<not> snd (put_all put js old)"
proof (induction js arbitrary: old)
  case (Cons a js)
  have put: "put_all put (a # js) old = (fst (put_all put js (fst (put a old))), snd (put a old) \<and> snd (put_all put js (fst (put a old))))"
    by (simp add: Let_def split: prod.split)
  show ?case
    unfolding put using Cons by (cases "j = a") auto
qed simp

lemma field_values_mem: "(name, v) \<in> set kvs \<Longrightarrow> name \<in> set names \<Longrightarrow> v \<in> set (field_values names name (JObj kvs))"
  by (force simp: field_values_def field_of_def)

lemma code_types:
  assumes "req_Body r = Some (JObj kvs)"
  shows "(''code'', JInt n) \<in> set kvs \<Longrightarrow> send2clients_Run env r w = respond (Status 400) w"
    and "(''code'', JStr c) \<in> set kvs \<Longrightarrow> send2group_Run env r w = respond (Status 400) w"
proof -
  let ?c = "[''clientIds'', ''sendUserId'', ''code'', ''msg'', ''data'']"
  let ?g = "[''sendUserId'', ''groupName'', ''code'', ''msg'', ''data'']"
  assume "(''code'', JInt n) \<in> set kvs"
  then have "\<not> snd (get_string ?c ''code'' (JObj kvs))"
    unfolding get_string_def by (intro put_all_mismatch [OF field_values_mem]) (auto simp: put_string_def)
  then have "send2clients_decode (JObj kvs) = None"
    by (auto simp: send2clients_decode_def Let_def fields_ok_def split: prod.split)
  then show "send2clients_Run env r w = respond (Status 400) w"
    using assms by (simp add: send2clients_Run_def controller_def BadRequest_def)
next
  let ?g = "[''sendUserId'', ''groupName'', ''code'', ''msg'', ''data'']"
  assume "(''code'', JStr c) \<in> set kvs"
  then have "\<not> snd (get_int ?g ''code'' (JObj kvs))"
    unfolding get_int_def by (intro put_all_mismatch [OF field_values_mem]) (auto simp: put_int_def)
  then have "send2group_decode (JObj kvs) = None"
    by (auto simp: send2group_decode_def Let_def fields_ok_def split: prod.split)
  then show "send2group_Run env r w = respond (Status 400) w"
    using assms by (simp add: send2group_Run_def controller_def BadRequest_def)
qed

end
