(* ===== verification/HttpRuns.thy ===== *)
theory HttpRuns
  imports ApiFacts
begin

text \<open>
  The HTTP interface and the server process together: a request is a step, or several steps where
  its handler makes several calls, between those of the goroutines; and what the server accepts
  along a run, counted with multiplicity, is among what the requests asked for.
\<close>

section \<open>What a request asks for\<close>

text \<open>The messages that a request to several clients is to bring about, one for each id.\<close>

fun messages_to :: "(nat \<Rightarrow> nat \<Rightarrow> byte) \<Rightarrow> send2clients_input \<Rightarrow> string list \<Rightarrow> clientInfo list" where
  "messages_to rs d [] = []"
| "messages_to rs d (i # ids) =
     message_of (rs 0) i (s2cs_SendUserId d) (s2cs_Code d) (s2cs_Msg d) (Some (s2cs_Data d)) #
     messages_to (\<lambda>n. rs (Suc n)) d ids"

definition bulk_request :: "http_request \<Rightarrow> (send2clients_input \<times> string list) option" where
  "bulk_request r =
     (if req_Path r = ''/api/send_to_clients''
      then Option.bind (Option.bind (req_Body r) send2clients_decode)
        (\<lambda>d. map_option (Pair d) (s2cs_ClientIds d))
      else None)"

definition asked_by :: "'e env \<Rightarrow> http_request \<Rightarrow> clientInfo list" where
  "asked_by env r =
     (case bulk_request r of
        Some (d, ids) \<Rightarrow> messages_to (env_rand env) d ids
      | None \<Rightarrow>
          (if req_Path r = ''/api/send_to_client'' then
             (case Option.bind (req_Body r) send2client_decode of
                Some d \<Rightarrow> (if s2c_ClientId d = [] then []
                  else [message_of (env_rand env 0) (s2c_ClientId d) (s2c_SendUserId d) (s2c_Code d)
                          (s2c_Msg d) (Some (s2c_Data d))])
              | None \<Rightarrow> [])
           else []))"

section \<open>What a handler does to the server\<close>

definition comes_out :: "'x outcome \<Rightarrow> 'x \<Rightarrow> bool" where
  "comes_out out x \<longleftrightarrow> out = Returns x \<or> out = Blocks x \<or> out = Panics x"

lemma comes_out_simps [simp]:
  "comes_out (Returns y) x \<longleftrightarrow> y = x" "comes_out (Blocks y) x \<longleftrightarrow> y = x" "comes_out (Panics y) x \<longleftrightarrow> y = x"
  "comes_out (respond rep w) (x', w') \<longleftrightarrow> x' = Some rep \<and> w = w'"
  by (auto simp: comes_out_def respond_def)

lemma comes_out_reply: "comes_out (then_reply out rep w) (x, w') \<Longrightarrow> \<exists>s. comes_out out s \<and> w' = w\<lparr>App := s\<rparr>"
  by (cases out) auto

text \<open>However the handler comes out: a run of the server that accepts no more than \<open>ms\<close>.\<close>

definition server_effect :: "clientInfo list \<Rightarrow> server \<Rightarrow> server \<Rightarrow> bool" where
  "server_effect ms s s' \<longleftrightarrow> (\<exists>a p. sys_run s a p s' \<and> mset a \<subseteq># mset ms)"

lemma server_effect_refl [simp]: "server_effect ms s s"
  unfolding server_effect_def using sys_run.stay by (metis empty_le mset.simps(1))

lemma server_effect_step: "sys_step s [] p s' \<Longrightarrow> server_effect ms s s'"
  unfolding server_effect_def using sys_run_one by (metis empty_le mset.simps(1))

lemma comes_out_controller:
  assumes "comes_out (controller decode required act r w) (rep, w')"
  shows "w' = w \<or> (\<exists>d. Option.bind (req_Body r) decode = Some d \<and> Validate (required d) = None \<and> comes_out (act d w) (rep, w'))"
proof (cases "Option.bind (req_Body r) decode")
  case None
  then show ?thesis using assms by (simp add: controller_def)
next
  case (Some d)
  then show ?thesis using assms by (cases "Validate (required d)") (simp_all add: controller_def)
qed

lemma effect_controller:
  assumes "comes_out (controller decode required act r w) (rep, w')"
    and "\<And>d. Option.bind (req_Body r) decode = Some d \<Longrightarrow> Validate (required d) = None \<Longrightarrow>
      comes_out (act d w) (rep, w') \<Longrightarrow> server_effect ms (App w) (App w')"
  shows "server_effect ms (App w) (App w')"
  using comes_out_controller [OF assms(1)]
proof
  assume "w' = w"
  then show ?thesis by simp
qed (blast intro: assms(2))

lemma comes_out_send:
  assumes "comes_out (snd (SendMessage2Client r i u code m d s)) s'"
  shows "server_effect [message_of r i u code m d] s s'"
proof (cases "snd (SendMessage2Client r i u code m d s)")
  case (Returns s1)
  then have "SendMessage2Client r i u code m d s = (fst (SendMessage2Client r i u code m d s), Returns s')"
    using assms by (simp add: prod_eq_iff)
  note run = sys_run_one [OF sys_step.send [OF this]]
  have "mset (accepted s (message_of r i u code m d)) \<subseteq># mset [message_of r i u code m d]"
    by (simp add: accepted_def)
  then show ?thesis unfolding server_effect_def using run by blast
next
  case (Blocks s1)
  then have "s' = s" using assms
    by (auto simp: SendMessage2Client_def SendMessage2LocalClient_def send_client_def chan_send_def Let_def
        split: if_splits fallible.splits option.splits)
  then show ?thesis by simp
next
  case (Panics s1)
  then have "s' = s" using assms
    by (auto simp: SendMessage2Client_def SendMessage2LocalClient_def send_client_def chan_send_def Let_def
        split: if_splits fallible.splits option.splits)
  then show ?thesis by simp
qed

lemma comes_out_close:
  assumes "comes_out (CloseClient dial i sys addr s) s'"
  shows "server_effect ms s s'"
proof (cases "CloseClient dial i sys addr s")
  case (Returns s1)
  then show ?thesis using assms server_effect_step [OF sys_step.close] by simp
next
  case (Blocks s1)
  then have "s' = s" using assms
    by (auto simp: CloseClient_def CloseLocalClient_def send_DisConnect_def chan_send_def with_outbox_def
        CloseRpcClient_def rpc_call_def split: if_splits fallible.splits option.splits sum.splits outcome.splits)
  then show ?thesis by simp
next
  case (Panics s1)
  then have "s' = s" using assms
    by (auto simp: CloseClient_def CloseLocalClient_def send_DisConnect_def chan_send_def with_outbox_def
        CloseRpcClient_def rpc_call_def split: if_splits fallible.splits option.splits sum.splits outcome.splits)
  then show ?thesis by simp
qed

lemma comes_out_online:
  assumes "comes_out (GetOnlineList dial answer arrival sys grp s) (j, s')"
  shows "server_effect ms s s'"
proof (cases "GetOnlineList dial answer arrival sys grp s")
  case (Panics x)
  then have "s' = s" using assms by (auto simp: GetOnlineList_def split: if_splits option.splits prod.splits)
  then show ?thesis by simp
qed (use assms in \<open>auto intro!: server_effect_step [OF sys_step.online]\<close>)

lemma Register_App: "Register env i w = (res, w') \<Longrightarrow> App w' = App w"
  by (auto simp: Register_def Register_check_def Register_store_def Get_account_def
      with_etcd_def Let_def split: fallible.splits prod.splits if_splits option.splits)

lemma effect_reply:
  "comes_out (then_reply out rep w) (x, w') \<Longrightarrow> (\<And>s. comes_out out s \<Longrightarrow> server_effect ms (App w) s) \<Longrightarrow>
   server_effect ms (App w) (App w')"
  using comes_out_reply by force

lemma effect_register: "comes_out (register_Run env r w) (rep, w') \<Longrightarrow> server_effect ms (App w) (App w')"
  unfolding register_Run_def
proof (erule effect_controller)
  fix d
  assume out: "comes_out (case Register env d w of (Ok _, w1) \<Rightarrow> respond (api_Render SUCCESS success_text (JArr [])) w1
      | (Err err, w1) \<Rightarrow> respond (api_Render FAIL err (JArr [])) w1 | (Panic, w1) \<Rightarrow> Panics (None, w1)) (rep, w')"
  obtain res w1 where w1: "Register env d w = (res, w1)" by fastforce
  then have "w' = w1" using out by (cases res) auto
  then show "server_effect ms (App w) (App w')" using Register_App [OF w1] by simp
qed

lemma effect_group: "comes_out (send2group_Run env r w) (rep, w') \<Longrightarrow> server_effect ms (App w) (App w')"
  unfolding send2group_Run_def
  by (erule effect_controller) (auto intro: server_effect_step [OF sys_step.group] split: prod.splits)

lemma effect_bind: "comes_out (bind2group_Run r w) (rep, w') \<Longrightarrow> server_effect ms (App w) (App w')"
  unfolding bind2group_Run_def by (erule effect_controller) (auto simp: AddClient2Group_def)

lemma effect_online: "comes_out (getonlinelist_Run env r w) (rep, w') \<Longrightarrow> server_effect ms (App w) (App w')"
  unfolding getonlinelist_Run_def
proof (erule effect_controller)
  fix d
  let ?out = "GetOnlineList (env_dial env) (env_answer env) (env_arrival env) (Some (req_Header r ''SystemId''))
    (Some (gol_GroupName d)) (App w)"
  assume "comes_out (case ?out of
        Returns (ret, s) \<Rightarrow>
          respond (api_Render SUCCESS success_text (case ret of None \<Rightarrow> JNull | Some x \<Rightarrow> x)) (w\<lparr>App := s\<rparr>)
      | Blocks (_, s) \<Rightarrow> Blocks (None, w\<lparr>App := s\<rparr>)
      | Panics (_, s) \<Rightarrow> Panics (None, w\<lparr>App := s\<rparr>)) (rep, w')"
  then have "\<exists>j. comes_out ?out (j, App w')" by (cases ?out) (auto split: prod.splits)
  then show "server_effect ms (App w) (App w')" using comes_out_online by blast
qed

lemma effect_close: "comes_out (closeclient_Run env r w) (rep, w') \<Longrightarrow> server_effect ms (App w) (App w')"
  unfolding closeclient_Run_def by (erule effect_controller, erule effect_reply) (rule comes_out_close)

lemma effect_statistics: "comes_out (clientstatistics_Run r w) (rep, w') \<Longrightarrow> server_effect ms (App w) (App w')"
  unfolding clientstatistics_Run_def by (erule effect_controller) (auto split: prod.splits)

lemma effect_send:
  assumes "comes_out (send2client_Run env r w) (rep, w')" and "req_Path r = ''/api/send_to_client''"
  shows "server_effect (asked_by env r) (App w) (App w')"
  using assms(1) unfolding send2client_Run_def
proof (rule effect_controller)
  fix d
  assume d: "Option.bind (req_Body r) send2client_decode = Some d" "Validate [(''ClientId'', s2c_ClientId d \<noteq> [])] = None"
  let ?send = "SendMessage2Client (env_rand env 0) (s2c_ClientId d) (s2c_SendUserId d) (s2c_Code d) (s2c_Msg d)
    (Some (s2c_Data d)) (App w)"
  assume "comes_out (let (messageId, out) = ?send
      in then_reply out (api_Render SUCCESS success_text (message_id_json messageId)) w) (rep, w')"
  then obtain s where "comes_out (snd ?send) s" "App w' = s"
    by (cases ?send) (auto dest: comes_out_reply)
  moreover have "s2c_ClientId d \<noteq> []" using d(2) by (simp add: Validate_None)
  ultimately show "server_effect (asked_by env r) (App w) (App w')"
    using comes_out_send assms(2) d(1) by (simp add: asked_by_def bulk_request_def)
qed

text \<open>A request to several clients whose body is not accepted.\<close>

lemma effect_no_bulk:
  assumes "comes_out (send2clients_Run env r w) (rep, w')" and "req_Path r = ''/api/send_to_clients''"
    and "bulk_request r = None"
  shows "server_effect ms (App w) (App w')"
  using assms(1) unfolding send2clients_Run_def
  by (rule effect_controller) (use assms(2,3) in \<open>auto simp: bulk_request_def Validate_None\<close>)

lemma comes_out_log:
  assumes "comes_out (AccessLogMiddleware env h r w) (rep, w')"
  shows "\<exists>w1 w2. App w1 = App w \<and> comes_out (h r w1) (rep, w2) \<and> App w' = App w2"
proof -
  let ?w = "log_append (RequestLog (trace_id env r) (one_line (req_Dump r))) w"
  have "\<exists>w2. comes_out (h r ?w) (rep, w2) \<and> App w' = App w2"
    using assms by (cases "h r ?w") (auto simp: AccessLogMiddleware_def log_append_def)
  moreover have "App ?w = App w" by (simp add: log_append_def)
  ultimately show ?thesis by blast
qed

lemma effect_serve:
  assumes "comes_out (serve env r w) (rep, w')" and "bulk_request r = None"
  shows "server_effect (asked_by env r) (App w) (App w')"
proof (cases "map_of (Init env) (req_Path r)")
  case None
  then obtain n where "serve env r w = respond (Status n) w" using serve_no_route_same by blast
  then show ?thesis using assms(1) by simp
next
  case (Some h)
  have "\<exists>run. h = AccessLogMiddleware env run \<and> (\<forall>w w'. comes_out (run r w) (rep, w') \<longrightarrow>
      server_effect (asked_by env r) (App w) (App w'))"
    using Some assms(2)
    by (auto simp: Init_def split: if_splits
        intro: effect_register effect_group effect_bind effect_online effect_close effect_statistics effect_send
          effect_no_bulk)
  then obtain run where run: "h = AccessLogMiddleware env run"
    "\<And>w w'. comes_out (run r w) (rep, w') \<Longrightarrow> server_effect (asked_by env r) (App w) (App w')" by blast
  have "comes_out (AccessLogMiddleware env run r w) (rep, w')" using assms(1) by (simp add: serve_route [OF Some] run(1))
  from comes_out_log [OF this] show ?thesis using run(2) by metis
qed

section \<open>Runs of the whole program\<close>

text \<open>
  The process with its HTTP interface. \<open>Bulk\<close>: handlers of \<open>send_to_clients\<close> that run, each with its
  request, the random source of the next message id, and the ids it still has to send to.
\<close>

record 'e bulk =
  bulk_env :: "'e env"
  bulk_http :: http_request
  bulk_rand :: "nat \<Rightarrow> nat \<Rightarrow> byte"
  bulk_input :: send2clients_input
  bulk_ids :: "string list"

record 'e program =
  World :: "'e world"
  Bulk :: "'e bulk list"

definition with_app :: "server \<Rightarrow> 'e program \<Rightarrow> 'e program" where
  "with_app s P = P\<lparr>World := (World P)\<lparr>App := s\<rparr>\<rparr>"

text \<open>
  A handler that makes one call is one step: it returns, or panics, which net/http recovers, or
  waits for ever for the online list; one that waits for room on a channel takes its step when
  there is room. \<open>send_to_clients\<close> makes one call for each id: each is a step of its own, a panic
  ends it midway, and what it has sent by then stays sent. Then there are the steps of the
  goroutines, \<open>/ws\<close> included. \<open>asked\<close> is all that the requests so far have asked for.
\<close>

inductive program_reach :: "setting \<Rightarrow> clientInfo list \<Rightarrow> 'e program \<Rightarrow> bool" for cfg where
  boot: "App (World P) = server_init cfg \<Longrightarrow> SystemMap (World P) = fmempty \<Longrightarrow> Bulk P = [] \<Longrightarrow> program_reach cfg [] P"
| request: "program_reach cfg asked P \<Longrightarrow> req_Path r \<noteq> ''/ws'' \<Longrightarrow> bulk_request r = None \<Longrightarrow>
    serve env r (World P) = Returns (rep, w') \<or> serve env r (World P) = Panics (rep, w') \<or>
    req_Path r = ''/api/get_online_list'' \<and> serve env r (World P) = Blocks (rep, w') \<Longrightarrow>
    program_reach cfg (asked @ asked_by env r) (P\<lparr>World := w'\<rparr>)"
| bulk: "program_reach cfg asked P \<Longrightarrow> bulk_request r = Some (d, ids) \<Longrightarrow>
    program_reach cfg (asked @ asked_by env r)
      (P\<lparr>World := log_append (RequestLog (trace_id env r) (one_line (req_Dump r))) (World P),
         Bulk := \<lparr>bulk_env = env, bulk_http = r, bulk_rand = env_rand env, bulk_input = d, bulk_ids = ids\<rparr> # Bulk P\<rparr>)"
| bulk_send: "program_reach cfg asked P \<Longrightarrow> b \<in> set (Bulk P) \<Longrightarrow> bulk_ids b = i # ids \<Longrightarrow>
    SendMessage2Client (bulk_rand b 0) i (s2cs_SendUserId (bulk_input b)) (s2cs_Code (bulk_input b))
      (s2cs_Msg (bulk_input b)) (Some (s2cs_Data (bulk_input b))) (App (World P)) = (mid, Returns s') \<Longrightarrow>
    program_reach cfg asked ((with_app s' P)\<lparr>Bulk :=
      b\<lparr>bulk_rand := (\<lambda>n. bulk_rand b (Suc n)), bulk_ids := ids\<rparr> # remove1 b (Bulk P)\<rparr>)"
| bulk_panic: "program_reach cfg asked P \<Longrightarrow> b \<in> set (Bulk P) \<Longrightarrow> bulk_ids b = i # ids \<Longrightarrow>
    SendMessage2Client (bulk_rand b 0) i (s2cs_SendUserId (bulk_input b)) (s2cs_Code (bulk_input b))
      (s2cs_Msg (bulk_input b)) (Some (s2cs_Data (bulk_input b))) (App (World P)) = (mid, Panics s') \<Longrightarrow>
    program_reach cfg asked (P\<lparr>Bulk := remove1 b (Bulk P)\<rparr>)"
| bulk_reply: "program_reach cfg asked P \<Longrightarrow> b \<in> set (Bulk P) \<Longrightarrow> bulk_ids b = [] \<Longrightarrow>
    program_reach cfg asked (P\<lparr>World := log_append (AccessLog (trace_id (bulk_env b) (bulk_http b))
        (env_latency (bulk_env b)) (req_RemoteAddr (bulk_http b)) (req_Method (bulk_http b))
        (req_RequestURI (bulk_http b))) (World P), Bulk := remove1 b (Bulk P)\<rparr>)"
| goroutine: "program_reach cfg asked P \<Longrightarrow> sys_step (App (World P)) [] p s' \<Longrightarrow> program_reach cfg asked (with_app s' P)"

text \<open>
  The handlers as \<open>serve\<close> has them, in one go, are among these runs: a request to several clients
  that nothing interrupts is the sequence of its steps.
\<close>

lemma bulk_in_one_go:
  assumes "program_reach cfg asked (P\<lparr>Bulk := b # Bulk P\<rparr>)"
    and "send_all (bulk_rand b) (bulk_input b) (bulk_ids b) (App (World P)) = Returns s'"
  shows "\<exists>rs. program_reach cfg asked ((with_app s' P)\<lparr>Bulk := b\<lparr>bulk_rand := rs, bulk_ids := []\<rparr> # Bulk P\<rparr>)"
  using assms
proof (induction "bulk_ids b" arbitrary: b P)
  case Nil
  then have "s' = App (World P)" "b\<lparr>bulk_rand := bulk_rand b, bulk_ids := []\<rparr> = b" by (simp, cases b, simp)
  then have "(with_app s' P)\<lparr>Bulk := b\<lparr>bulk_rand := bulk_rand b, bulk_ids := []\<rparr> # Bulk P\<rparr> = P\<lparr>Bulk := b # Bulk P\<rparr>"
    by (simp add: with_app_def)
  then show ?case using Nil(2) by metis
next
  case (Cons i ids)
  let ?d = "bulk_input b"
  let ?send = "SendMessage2Client (bulk_rand b 0) i (s2cs_SendUserId ?d) (s2cs_Code ?d) (s2cs_Msg ?d)
    (Some (s2cs_Data ?d)) (App (World P))"
  let ?b = "b\<lparr>bulk_rand := (\<lambda>n. bulk_rand b (Suc n)), bulk_ids := ids\<rparr>"
  obtain mid s1 where s1: "?send = (mid, Returns s1)" "send_all (\<lambda>n. bulk_rand b (Suc n)) ?d ids s1 = Returns s'"
    using Cons(4) Cons(2) [symmetric] by (cases ?send) (auto simp: outcome_then_Returns)
  let ?P = "with_app s1 P"
  have "program_reach cfg asked ((with_app s1 (P\<lparr>Bulk := b # Bulk P\<rparr>))\<lparr>Bulk := ?b # remove1 b (b # Bulk P)\<rparr>)"
    using program_reach.bulk_send [OF Cons(3), of b i ids mid s1] s1(1) Cons(2) by simp
  then have "program_reach cfg asked (?P\<lparr>Bulk := ?b # Bulk ?P\<rparr>)" by (simp add: with_app_def)
  from Cons(1) [of ?b ?P, OF _ this] s1(2) show ?case by (simp add: with_app_def)
qed

lemma program_reach_serve:
  assumes "program_reach cfg asked P" and "req_Path r \<noteq> ''/ws''" and "serve env r (World P) = Returns (rep, w')"
  shows "program_reach cfg (asked @ asked_by env r) (P\<lparr>World := w'\<rparr>)"
proof (cases "bulk_request r")
  case None
  then show ?thesis using program_reach.request [OF assms(1,2)] assms(3) by blast
next
  case (Some x)
  obtain d ids where x: "x = (d, ids)" by (cases x)
  let ?log = "log_append (RequestLog (trace_id env r) (one_line (req_Dump r)))"
  let ?done = "log_append (AccessLog (trace_id env r) (env_latency env) (req_RemoteAddr r) (req_Method r) (req_RequestURI r))"
  have path: "req_Path r = ''/api/send_to_clients''"
    and body: "Option.bind (req_Body r) send2clients_decode = Some d" "s2cs_ClientIds d = Some ids"
    using Some x by (auto simp: bulk_request_def bind_eq_Some_conv split: if_splits)
  have "serve env r (World P) = AccessLogMiddleware env (send2clients_Run env) r (World P)"
    by (rule serve_route) (simp add: Init_def path)
  moreover have "send2clients_Run env r w = then_reply (send_all (env_rand env) d ids (App w))
      (api_Render SUCCESS success_text (JArr [])) w" for w :: "'a world"
    using body by (simp add: send2clients_Run_def controller_def Validate_def)
  ultimately obtain s' where s': "send_all (env_rand env) d ids (App (World P)) = Returns s'"
    and w': "w' = ?done ((?log (World P))\<lparr>App := s'\<rparr>)"
    using assms(3) by (cases "send_all (env_rand env) d ids (App (World P))")
      (auto simp: AccessLogMiddleware_def log_append_def)
  let ?b = "\<lparr>bulk_env = env, bulk_http = r, bulk_rand = env_rand env, bulk_input = d, bulk_ids = ids\<rparr>"
  let ?P = "P\<lparr>World := ?log (World P)\<rparr>"
  have "program_reach cfg (asked @ asked_by env r) (?P\<lparr>Bulk := ?b # Bulk ?P\<rparr>)"
    using program_reach.bulk [OF assms(1) Some [unfolded x]] by simp
  from bulk_in_one_go [OF this, of s'] s' obtain rs where
    "program_reach cfg (asked @ asked_by env r) ((with_app s' ?P)\<lparr>Bulk := ?b\<lparr>bulk_rand := rs, bulk_ids := []\<rparr> # Bulk ?P\<rparr>)"
    by (auto simp: log_append_def)
  from program_reach.bulk_reply [OF this, of "?b\<lparr>bulk_rand := rs, bulk_ids := []\<rparr>"]
  show ?thesis by (simp add: with_app_def w')
qed

section \<open>Nothing that was not asked for\<close>

definition bulk_left :: "'e bulk list \<Rightarrow> clientInfo multiset" where
  "bulk_left bs = (\<Sum>b\<leftarrow>bs. mset (messages_to (bulk_rand b) (bulk_input b) (bulk_ids b)))"

lemma bulk_left_remove1:
  "b \<in> set bs \<Longrightarrow> bulk_left bs = mset (messages_to (bulk_rand b) (bulk_input b) (bulk_ids b)) + bulk_left (remove1 b bs)"
  unfolding bulk_left_def by (rule sum_list_map_remove1)

lemma bulk_left_simps [simp]: "bulk_left [] = {#}"
  "bulk_left (b # bs) = mset (messages_to (bulk_rand b) (bulk_input b) (bulk_ids b)) + bulk_left bs"
  by (simp_all add: bulk_left_def)

lemma add_more: "A + B \<subseteq># C \<Longrightarrow> D \<subseteq># E \<Longrightarrow> (A + D) + B \<subseteq># C + E" for A B C D E :: "'m multiset"
  using mset_subset_eq_mono_add [of "A + B" C D E] by (simp add: ac_simps)

lemma spend_some:
  fixes A B C D X :: "'m multiset"
  assumes "A + (X + B) \<subseteq># C" and "D \<subseteq># X"
  shows "(A + D) + B \<subseteq># C"
proof -
  have "(A + D) + B \<subseteq># A + (X + B)" using assms(2) by (simp add: add.assoc)
  then show ?thesis using assms(1) by (rule subset_mset.order_trans)
qed

lemma program_accounts:
  "program_reach cfg asked P \<Longrightarrow>
   \<exists>acc psh. sys_reach cfg acc psh (App (World P)) \<and> mset acc + bulk_left (Bulk P) \<subseteq># mset asked"
proof (induction rule: program_reach.induct)
  case (boot P)
  then show ?case using sys_reach.start by fastforce
next
  case (request asked P r env rep w')
  then obtain acc psh where reach: "sys_reach cfg acc psh (App (World P))"
    and sub: "mset acc + bulk_left (Bulk P) \<subseteq># mset asked" by blast
  have "comes_out (serve env r (World P)) (rep, w')" using request by (auto simp: comes_out_def)
  from effect_serve [OF this request(3)] obtain a p where
    "sys_run (App (World P)) a p (App w')" "mset a \<subseteq># mset (asked_by env r)"
    by (auto simp: server_effect_def)
  then have "sys_reach cfg (acc @ a) (psh @ p) (App w')"
    and "mset (acc @ a) + bulk_left (Bulk P) \<subseteq># mset (asked @ asked_by env r)"
    using sys_run_reach [OF _ reach] add_more [OF sub] by simp_all
  then show ?case by fastforce
next
  case (bulk asked P r d ids env)
  then obtain acc psh where reach: "sys_reach cfg acc psh (App (World P))"
    and sub: "mset acc + bulk_left (Bulk P) \<subseteq># mset asked" by blast
  have "mset acc + (mset (messages_to (env_rand env) d ids) + bulk_left (Bulk P)) \<subseteq># mset (asked @ asked_by env r)"
    using sub bulk(2) by (simp add: asked_by_def ac_simps)
  then show ?case using reach by (auto simp: log_append_def)
next
  case (bulk_send asked P b i ids mid s')
  then obtain acc psh where reach: "sys_reach cfg acc psh (App (World P))"
    and sub: "mset acc + bulk_left (Bulk P) \<subseteq># mset asked" by blast
  let ?info = "message_of (bulk_rand b 0) i (s2cs_SendUserId (bulk_input b)) (s2cs_Code (bulk_input b))
      (s2cs_Msg (bulk_input b)) (Some (s2cs_Data (bulk_input b)))"
  let ?b = "b\<lparr>bulk_rand := (\<lambda>n. bulk_rand b (Suc n)), bulk_ids := ids\<rparr>"
  have "sys_reach cfg (acc @ accepted (App (World P)) ?info) (psh @ queued_at_once (App (World P)) ?info) s'"
    by (rule sys_reach.step [OF reach sys_step.send [OF bulk_send(4)]])
  moreover have one: "mset (accepted (App (World P)) ?info) \<subseteq># {#?info#}" by (simp add: accepted_def)
  have "mset acc + ({#?info#} + bulk_left (?b # remove1 b (Bulk P))) \<subseteq># mset asked"
    using sub bulk_left_remove1 [OF bulk_send(2)] bulk_send(3) by simp
  from spend_some [OF this one]
  have "mset (acc @ accepted (App (World P)) ?info) + bulk_left (?b # remove1 b (Bulk P)) \<subseteq># mset asked"
    by simp
  ultimately show ?case by (auto simp: with_app_def)
next
  case (bulk_panic asked P b i ids mid s')
  then obtain acc psh where reach: "sys_reach cfg acc psh (App (World P))"
    and sub: "mset acc + bulk_left (Bulk P) \<subseteq># mset asked" by blast
  have "mset acc + bulk_left (remove1 b (Bulk P)) \<subseteq># mset asked"
    using spend_some [of "mset acc" "mset (messages_to (bulk_rand b) (bulk_input b) (bulk_ids b))" _ _ "{#}"]
      sub bulk_left_remove1 [OF bulk_panic(2)] by simp
  then show ?case using reach by auto
next
  case (bulk_reply asked P b)
  then show ?case using bulk_left_remove1 [OF bulk_reply(2)] by (auto simp: log_append_def)
next
  case (goroutine asked P p s')
  then show ?case using sys_reach.step by (fastforce simp: with_app_def)
qed

lemma mset_subseq: "subseq xs ys \<Longrightarrow> mset xs \<subseteq># mset ys"
proof (induction rule: list_emb.induct)
  case (list_emb_Cons xs ys y)
  then show ?case by (simp add: subset_mset.le_iff_add) (metis add_mset_add_single union_assoc)
qed simp_all

lemma mset_due_mono: "mset ms \<subseteq># mset ns \<Longrightarrow> mset (due i ms) \<subseteq># mset (due i ns)"
  by (simp add: due_def image_mset_subseteq_mono multiset_filter_mono)

end
