(* ===== verification/Delivery.thy ===== *)
theory Delivery
  imports HttpRuns Gone
begin

text \<open>
  Messages from end to end: what a request that is sent on an idle server leads to, and that
  nothing gets to a connection that was not asked for.
\<close>

section \<open>A round of WriteMessage as steps\<close>

lemma write_one_Writing_upd:
  "write_one up info c (s\<lparr>Writing := x\<rparr>) = map_outcome (\<lambda>s. s\<lparr>Writing := x\<rparr>) (write_one up info c s)"
  by (auto simp: write_one_def client_of_def Render_def write_json_def send_DisConnect_def chan_send_def
      split: option.split)

lemma write_all_run:
  "write_all up info cs s = Returns s' \<Longrightarrow>
   sys_run (s\<lparr>Writing := Some (info, cs)\<rparr>) [] [] (s'\<lparr>Writing := Some (info, [])\<rparr>)"
proof (induction cs arbitrary: s)
  case Nil
  then show ?case using sys_run.stay by simp
next
  case (Cons c cs)
  obtain s1 where s1: "write_one up info c s = Returns s1" "write_all up info cs s1 = Returns s'"
    using Cons.prems by (auto simp: outcome_then_Returns)
  have "sys_step (s\<lparr>Writing := Some (info, c # cs)\<rparr>) [] [] (s1\<lparr>Writing := Some (info, cs)\<rparr>)"
    using sys_step.deliver [of "s\<lparr>Writing := Some (info, c # cs)\<rparr>" info c cs up] s1(1)
    by (simp add: write_one_Writing_upd)
  from sys_run_trans [OF Cons.IH [OF s1(2)] sys_run_one [OF this]] show ?case by simp
qed

lemma write_all_Writing: "write_all up info cs s = Returns s' \<Longrightarrow> Writing s' = Writing s"
  by (induction cs arbitrary: s) (auto simp: outcome_then_Returns dest: write_one_Writing)

lemma WriteMessage_run:
  assumes "WriteMessage up order s = Returns s'" and "Writing s = None" and "distinct order"
  shows "sys_run s [] [] s'"
proof -
  obtain info s1 where s1: "recv_client s = Some (info, s1)"
    "write_all up info (targets order (ci_ClientId info) s1) s1 = Returns s'"
    using assms(1) by (auto simp: WriteMessage_def split: option.splits)
  have none: "Writing s1 = None" using s1(1) assms(2) by (auto simp: recv_iff)
  then have none': "Writing s' = None" using write_all_Writing [OF s1(2)] by simp
  let ?cs = "targets order (ci_ClientId info) s1"
  have "sys_run s [] [] (s1\<lparr>Writing := Some (info, ?cs)\<rparr>)"
    by (rule sys_run_one [OF sys_step.fetch [OF assms(2) s1(1) assms(3)]])
  from sys_run_trans [OF write_all_run [OF s1(2)] this]
  have "sys_run s [] [] (s'\<lparr>Writing := Some (info, [])\<rparr>)" by simp
  from sys_run.more [OF this sys_step.delivered] have "sys_run s [] [] (s'\<lparr>Writing := None\<rparr>)" by simp
  moreover have "s'\<lparr>Writing := None\<rparr> = s'" using none' by (cases s') simp
  ultimately show ?thesis by simp
qed

section \<open>From the request to the connections\<close>

lemma send_to_client_reply:
  assumes "req_Path r = ''/api/send_to_client''" and "req_Body r = Some j" and "send2client_decode j = Some d"
    and "s2c_ClientId d \<noteq> []" and "\<not> IsCluster (Config (App w))"
  shows "\<exists>w'. serve env r w = Returns (Some (api_Render SUCCESS success_text (message_id_json (GenUUID (env_rand env 0)))), w') \<and>
    App w' = (App w)\<lparr>Senders := Senders (App w) @ [\<lparr>ci_ClientId = s2c_ClientId d, ci_SendUserId = s2c_SendUserId d,
      ci_MessageId = GenUUID (env_rand env 0), ci_Code = s2c_Code d, ci_Msg = s2c_Msg d, ci_Data = Some (s2c_Data d)\<rparr>]\<rparr>"
  using assms
  by (simp add: serve_route Init_def AccessLogMiddleware_def send2client_Run_def controller_def Validate_def
      SendMessage2Client_def Let_def log_append_def)

text \<open>An accepted message on an idle server: a sender's step and a round of \<open>WriteMessage\<close>.\<close>

lemma idle_server_delivers:
  fixes up :: "conn \<Rightarrow> bool"
  assumes "sys_inv s" and "ToClientChan s = []" and "Writing s = None"
    and "length (DisConnect (Manager s)) + map_len (old_conns (Manager s) (ci_ClientId info)) \<le> cap_DisConnect"
  shows "\<exists>s'. sys_run (s\<lparr>Senders := Senders s @ [info]\<rparr>) [] [info] s' \<and>
    (\<forall>k. frames s' k = frames s k @
       (if \<exists>a c. fmlookup (old_conns (Manager s) (ci_ClientId info)) a = Some c \<and>
            Socket (client_of s c) = Some k \<and> \<not> dead up s c then [frame_of info] else [])) \<and>
    (\<forall>a c. fmlookup (old_conns (Manager s) (ci_ClientId info)) a = Some c \<and> dead up s c \<longrightarrow>
       c \<in> set (DisConnect (Manager s')))"
proof -
  let ?conns = "old_conns (Manager s) (ci_ClientId info)" and ?s1 = "s\<lparr>Senders := Senders s @ [info]\<rparr>"
  let ?s2 = "s\<lparr>ToClientChan := [info], Senders := remove1 info (Senders s @ [info])\<rparr>"
  have "send_client info ?s1 = Returns (?s1\<lparr>ToClientChan := [info]\<rparr>)"
    using assms(2) by (simp add: send_client_def chan_send_def cap_ToClientChan_def)
  from sys_run_one [OF sys_step.sender [OF _ this]]
  have run1: "sys_run ?s1 [] [info] ?s2" by simp
  have inv: "sys_inv ?s2"
    using assms(1) by (auto simp: sys_inv_def writing_ok_def allocated_def client_of_def cap_ToClientChan_def)
  obtain order where order: "ranges order ?conns"
    unfolding ranges_def using finite_distinct_list [of "fset (fmdom ?conns)"] by auto
  obtain cs where cs: "set cs = {c. \<exists>a. fmlookup ?conns a = Some c}"
    and wrote: "WriteMessage up order ?s2 = Returns (?s2\<lparr>
      Manager := (Manager ?s2)\<lparr>DisConnect := DisConnect (Manager ?s2) @ filter (dead up ?s2) cs\<rparr>,
      ToClientChan := [],
      frames := add_frame (frame_of info) (socks ?s2 (filter (\<lambda>c. \<not> dead up ?s2 c) cs)) (frames ?s2)\<rparr>)"
    (is "_ = Returns ?s3")
    using WriteMessage_effect [OF inv, of info "[]" order up] order assms(4) by auto
  have "sys_run ?s2 [] [] ?s3"
    using order assms(3) by (intro WriteMessage_run [OF wrote]) (simp_all add: ranges_def)
  from sys_run_trans [OF this run1] have run: "sys_run ?s1 [] [info] ?s3" by simp
  have cl: "client_of ?s2 = client_of s" by (simp add: client_of_def [abs_def])
  have dd: "dead up ?s2 = dead up s" by (rule dead_cong [OF cl]) simp
  have "\<forall>k. frames ?s3 k = frames s k @
       (if \<exists>a c. fmlookup ?conns a = Some c \<and> Socket (client_of s c) = Some k \<and> \<not> dead up s c
        then [frame_of info] else [])"
    using cs unfolding dd by (auto simp: add_frame_def socks_def cl)
  moreover have "\<forall>a c. fmlookup ?conns a = Some c \<and> dead up s c \<longrightarrow> c \<in> set (DisConnect (Manager ?s3))"
    using cs unfolding dd by auto
  ultimately show ?thesis using run by blast
qed

text \<open>
  C3. A message on a single server whose message queue is idle (\<open>ToClientChan\<close> is empty, \<open>WriteMessage\<close>
  is not in the middle of a round, and \<open>DisConnect\<close> has room for all connections of the id),
  from the HTTP request to the websocket connections. A request to \<open>send_to_client\<close> with a client
  id is answered with success and a message id; from there the server can go on, without another
  request, to a state in which every connection registered for that id that is alive has one
  more frame, with just that message id and the type and data of the request, every dead one is
  queued for disconnection, and on the way nobody else got anything.
\<close>

theorem send_to_client_delivers:
  assumes "program_reach cfg asked P" and "w = World P" and "\<not> IsCluster (Config (App w))"
    and "req_Path r = ''/api/send_to_client''" and "req_Body r = Some j" and "send2client_decode j = Some d"
    and "s2c_ClientId d \<noteq> []"
    and "ToClientChan (App w) = []" and "Writing (App w) = None"
    and "length (DisConnect (Manager (App w))) + map_len (old_conns (Manager (App w)) (s2c_ClientId d)) \<le> cap_DisConnect"
  shows "\<exists>mid w' p s. serve env r w = Returns (Some (api_Render SUCCESS success_text (message_id_json mid)), w') \<and>
    sys_run (App w') [] p s \<and>
    (\<forall>k. frames s k = frames (App w) k @
       (if \<exists>a c. fmlookup (old_conns (Manager (App w)) (s2c_ClientId d)) a = Some c \<and>
            Socket (client_of (App w) c) = Some k \<and> \<not> dead up (App w) c
        then [RetData mid (s2c_Code d) (JStr (s2c_Data d))] else [])) \<and>
    (\<forall>a c. fmlookup (old_conns (Manager (App w)) (s2c_ClientId d)) a = Some c \<and> dead up (App w) c \<longrightarrow>
       c \<in> set (DisConnect (Manager s)))"
proof -
  let ?s = "App w" and ?mid = "GenUUID (env_rand env 0)"
  define info where "info = \<lparr>ci_ClientId = s2c_ClientId d, ci_SendUserId = s2c_SendUserId d, ci_MessageId = ?mid,
    ci_Code = s2c_Code d, ci_Msg = s2c_Msg d, ci_Data = Some (s2c_Data d)\<rparr>"
  have id: "ci_ClientId info = s2c_ClientId d" by (simp add: info_def)
  obtain w' where served: "serve env r w = Returns (Some (api_Render SUCCESS success_text (message_id_json ?mid)), w')"
    and w': "App w' = ?s\<lparr>Senders := Senders ?s @ [info]\<rparr>"
    using send_to_client_reply [OF assms(4-7,3), of env] by (auto simp: info_def)
  have "sys_inv ?s" using program_accounts [OF assms(1)] sys_reach_inv assms(2) by blast
  moreover have "frame_of info = RetData ?mid (s2c_Code d) (JStr (s2c_Data d))"
    by (simp add: frame_of_def info_def data_json_def)
  ultimately obtain s' where "sys_run (App w') [] [info] s'"
    and "\<forall>k. frames s' k = frames ?s k @
       (if \<exists>a c. fmlookup (old_conns (Manager ?s) (s2c_ClientId d)) a = Some c \<and>
            Socket (client_of ?s c) = Some k \<and> \<not> dead up ?s c
        then [RetData ?mid (s2c_Code d) (JStr (s2c_Data d))] else [])"
    and "\<forall>a c. fmlookup (old_conns (Manager ?s) (s2c_ClientId d)) a = Some c \<and> dead up ?s c \<longrightarrow>
       c \<in> set (DisConnect (Manager s'))"
    using idle_server_delivers [OF _ assms(8,9), of info up] assms(10) unfolding id w' by auto
  then show ?thesis using served by blast
qed

text \<open>A connected client im, and a request to send it something.\<close>

definition world1 :: "(string, string) fmap world" where
  "world1 = (world0 cfg1)\<lparr>App := srv1\<rparr>"

definition program1 :: "(string, string) fmap program" where
  "program1 = \<lparr>World = world1, Bulk = []\<rparr>"

lemma program1_reach: "program_reach cfg1 [] program1"
proof -
  let ?P = "\<lparr>World = world0 cfg1, Bulk = []\<rparr>"
  have "program_reach cfg1 [] ?P" by (rule program_reach.boot) simp_all
  moreover have "sys_step (App (World ?P)) [] [] srv1" using srv1_step by simp
  ultimately have "program_reach cfg1 [] (with_app srv1 ?P)" by (rule program_reach.goroutine)
  then show ?thesis by (simp add: with_app_def program1_def world1_def)
qed

definition send_im :: http_request where
  "send_im = http0\<lparr>req_Body := Some (JObj [(''clientId'', JStr ''im''), (''type'', JStr ''chat''), (''data'', JStr ''hi'')])\<rparr>"

lemma send_im_decode:
  "send2client_decode (JObj [(''clientId'', JStr ''im''), (''type'', JStr ''chat''), (''data'', JStr ''hi'')]) =
   Some \<lparr>s2c_ClientId = ''im'', s2c_SendUserId = [], s2c_Code = ''chat'', s2c_Msg = [], s2c_Data = ''hi''\<rparr>"
  by (simp add: send2client_decode_def get_string_def field_values_def field_of_def put_string_def fields_ok_def
      is_object_def)

lemma send_to_client_delivers_witness:
  "\<exists>mid w' p s. serve env0 send_im world1 = Returns (Some (api_Render SUCCESS success_text (message_id_json mid)), w') \<and>
     sys_run (App w') [] p s \<and> frames s 7 = [RetData mid ''chat'' (JStr ''hi'')]"
proof -
  have App: "App world1 = srv1" by (simp add: world1_def)
  have conns: "old_conns m1 ''im'' = fmupd ''1.2.3.4:5'' 0 fmempty" by (simp add: old_conns_def)
  have live: "\<not> dead (\<lambda>_. True) srv1 0" by (simp add: dead_def)
  let ?d = "\<lparr>s2c_ClientId = ''im'', s2c_SendUserId = [], s2c_Code = ''chat'', s2c_Msg = [], s2c_Data = ''hi''\<rparr>"
  obtain mid w' p s where run: "serve env0 send_im world1 =
      Returns (Some (api_Render SUCCESS success_text (message_id_json mid)), w')" "sys_run (App w') [] p s"
    and fr: "\<forall>k. frames s k = frames (App world1) k @
       (if \<exists>a c. fmlookup (old_conns (Manager (App world1)) ''im'') a = Some c \<and>
            Socket (client_of (App world1) c) = Some k \<and> \<not> dead (\<lambda>_. True) (App world1) c
        then [RetData mid ''chat'' (JStr ''hi'')] else [])"
    using send_to_client_delivers [OF program1_reach _ _ _ _ send_im_decode, of world1 send_im env0 "\<lambda>_. True"]
    unfolding App by (auto simp: send_im_def http0_def conns map_len_upd cap_DisConnect_def program1_def)
  have "frames s 7 = [RetData mid ''chat'' (JStr ''hi'')]"
    using spec [OF fr, of 7] live unfolding App by (simp add: conns)
  then show ?thesis using run by blast
qed

text \<open>
  C12. Nothing is delivered that was not asked for. In every run of the whole program, with any
  requests to the HTTP interface, handlers that panic midway or wait, and any schedule of the
  goroutines, the data frames on the connection of a client are, counted with multiplicity,
  among the frames of the messages that requests so far asked for to just its client id: with
  the message id drawn for that request and that id, and its type and data. So one request
  brings at most one frame to a connection for each time it names the client's id, and the
  fields of requests are not mixed up on the way.
\<close>

theorem program_frames_requested:
  assumes "program_reach cfg asked P"
    and "c < next_client (Manager (App (World P)))" and "Socket (client_of (App (World P)) c) = Some k"
  shows "mset (data_frames (frames (App (World P)) k)) \<subseteq>#
    mset (map (\<lambda>info. RetData (ci_MessageId info) (ci_Code info) (data_json (ci_Data info)))
      (filter (\<lambda>info. ci_ClientId info = ClientId (client_of (App (World P)) c)) asked))"
proof -
  let ?s = "App (World P)"
  obtain acc psh where reach: "sys_reach cfg acc psh ?s" and sub: "mset acc + bulk_left (Bulk P) \<subseteq># mset asked"
    using program_accounts [OF assms(1)] by blast
  have "mset psh \<subseteq># mset acc" using reach_delivered [OF reach assms(2,3)] by simp
  also have "mset acc \<subseteq># mset asked" by (rule subset_mset.order_trans [OF mset_subset_eq_add_left sub])
  finally have "mset (due (ClientId (client_of ?s c)) psh) \<subseteq># mset (due (ClientId (client_of ?s c)) asked)"
    by (rule mset_due_mono)
  moreover have "mset (data_frames (frames ?s k)) \<subseteq># mset (due (ClientId (client_of ?s c)) psh)"
    using reach_delivered [OF reach assms(2,3)] mset_subseq by blast
  ultimately show ?thesis
    unfolding due_def frame_of_def [abs_def] by (rule subset_mset.order_trans [rotated])
qed

lemma program_run:
  "sys_run s a p s' \<Longrightarrow> a = [] \<Longrightarrow> App (World P) = s \<Longrightarrow> program_reach cfg asked P \<Longrightarrow> program_reach cfg asked (with_app s' P)"
proof (induction rule: sys_run.induct)
  case (stay s)
  then have "with_app s P = P" by (simp add: with_app_def)
  then show ?case using stay by simp
next
  case (more s a p s1 a' p' s2)
  then have "program_reach cfg asked (with_app s1 P)" by simp
  moreover have "sys_step (App (World (with_app s1 P))) [] p' s2" using more by (simp add: with_app_def)
  ultimately have "program_reach cfg asked (with_app s2 (with_app s1 P))" by (rule program_reach.goroutine)
  then show ?case by (simp add: with_app_def)
qed

lemma program_frames_requested_witness:
  "\<exists>asked (P :: (string, string) fmap program). program_reach cfg1 asked P \<and> data_frames (frames (App (World P)) 7) \<noteq> [] \<and>
     mset (data_frames (frames (App (World P)) 7)) \<subseteq>#
       mset (map (\<lambda>info. RetData (ci_MessageId info) (ci_Code info) (data_json (ci_Data info)))
         (filter (\<lambda>info. ci_ClientId info = ''im'') asked))"
proof -
  let ?d = "\<lparr>s2c_ClientId = ''im'', s2c_SendUserId = [], s2c_Code = ''chat'', s2c_Msg = [], s2c_Data = ''hi''\<rparr>"
  define info where "info = \<lparr>ci_ClientId = ''im'', ci_SendUserId = [], ci_MessageId = GenUUID (env_rand env0 0),
    ci_Code = ''chat'', ci_Msg = [], ci_Data = Some ''hi''\<rparr>"
  have send: "req_Path send_im = ''/api/send_to_client''" by (simp add: send_im_def http0_def)
  have World: "World program1 = world1" "App world1 = srv1" by (simp_all add: program1_def world1_def)
  obtain w' where served: "serve env0 send_im world1 =
      Returns (Some (api_Render SUCCESS success_text (message_id_json (GenUUID (env_rand env0 0)))), w')"
    and w': "App w' = srv1\<lparr>Senders := Senders srv1 @ [info]\<rparr>"
    using send_to_client_reply [OF send _ send_im_decode, of world1 env0]
    by (auto simp: send_im_def http0_def info_def World)
  let ?asked = "[] @ asked_by env0 send_im" and ?P = "program1\<lparr>World := w'\<rparr>"
  have P: "program_reach cfg1 ?asked ?P"
    by (rule program_reach_serve [OF program1_reach]) (use send served World in simp_all)
  have conns: "old_conns m1 ''im'' = fmupd ''1.2.3.4:5'' 0 fmempty" by (simp add: old_conns_def)
  have live: "\<not> dead (\<lambda>_. True) srv1 0" by (simp add: dead_def)
  have "ci_ClientId info = ''im''" by (simp add: info_def)
  then obtain s' where run: "sys_run (App w') [] [info] s'" and fr: "frames s' 7 = [frame_of info]"
    using idle_server_delivers [OF sys_reach_inv [OF srv1_reach], of info "\<lambda>_. True"] live
    unfolding w' by (auto simp: conns map_len_upd cap_DisConnect_def)
  let ?Q = "with_app s' ?P"
  have Q: "program_reach cfg1 ?asked ?Q"
    by (rule program_run [OF run _ _ P]) simp_all
  have "sys_inv (App w')" using program_accounts [OF P] sys_reach_inv by auto
  note keeps = keepsD [OF sys_run_keeps [OF run this]]
  have "allocated (App w') 0" "client_of (App w') 0 = cl1"
    by (simp_all add: w' allocated_def client_of_def)
  with keeps have cl: "allocated s' 0" "Socket (client_of s' 0) = Some 7" "ClientId (client_of s' 0) = ''im''"
    by simp_all
  have app: "App (World ?Q) = s'" by (simp add: with_app_def)
  note sub = program_frames_requested [OF Q, unfolded app, of 0 7, unfolded cl(3),
      OF cl(1) [unfolded allocated_def] cl(2)]
  show ?thesis
    by (rule exI [of _ ?asked], rule exI [of _ ?Q], unfold app, intro conjI, rule Q, simp add: fr, rule sub)
qed

end
