(* ===== verification/Cluster.thy ===== *)
theory Cluster
  imports RpcServer Delivery
begin

text \<open>
  Several servers and the calls between them: each process takes its own steps, the calls it
  makes are under way until the process at their address has run the handler of rpcserver.go.
  A process may be started and stopped at any time, and a call may get lost.
\<close>

section \<open>Runs of a cluster\<close>

record cluster =
  Procs :: "string \<Rightarrow> server option"
  Calls :: outbox

text \<open>
  \<open>cfg\<close> is the configuration at each address. \<open>acc\<close> and \<open>psh\<close> are, for each address, what the
  process there has accepted and queued since it was started.
\<close>

inductive cluster_reach ::
  "(string \<Rightarrow> setting) \<Rightarrow> (string \<Rightarrow> clientInfo list) \<Rightarrow> (string \<Rightarrow> clientInfo list) \<Rightarrow> cluster \<Rightarrow> bool" for cfg where
  none: "cluster_reach cfg (\<lambda>_. []) (\<lambda>_. []) \<lparr>Procs = (\<lambda>_. None), Calls = []\<rparr>"
| boot: "cluster_reach cfg acc psh c \<Longrightarrow> Procs c a = None \<Longrightarrow>
    cluster_reach cfg (acc(a := [])) (psh(a := [])) (c\<lparr>Procs := (Procs c)(a \<mapsto> server_init (cfg a))\<rparr>)"
| stop: "cluster_reach cfg acc psh c \<Longrightarrow> cluster_reach cfg acc psh (c\<lparr>Procs := (Procs c)(a := None)\<rparr>)"
| own: "cluster_reach cfg acc psh c \<Longrightarrow> Procs c a = Some s \<Longrightarrow> sys_step s x p s' \<Longrightarrow>
    cluster_reach cfg (acc(a := acc a @ x)) (psh(a := psh a @ p))
      (c\<lparr>Procs := (Procs c)(a \<mapsto> s'), Calls := Calls c @ drop (length (Outgoing s)) (Outgoing s')\<rparr>)"
| call: "cluster_reach cfg acc psh c \<Longrightarrow> (b, req) \<in> set (Calls c) \<Longrightarrow> Procs c b = Some s \<Longrightarrow>
    CommonServiceServer req s = (reply, s') \<Longrightarrow>
    cluster_reach cfg acc psh (c\<lparr>Procs := (Procs c)(b \<mapsto> s'), Calls := remove1 (b, req) (Calls c)\<rparr>)"
| lost: "cluster_reach cfg acc psh c \<Longrightarrow> cluster_reach cfg acc psh (c\<lparr>Calls := remove1 call (Calls c)\<rparr>)"

text \<open>Whatever the others do and call, each process is in a state of a run of its own.\<close>

lemma cluster_isolated:
  "cluster_reach cfg acc psh c \<Longrightarrow> Procs c a = Some s \<Longrightarrow> sys_reach (cfg a) (acc a) (psh a) s"
proof (induction arbitrary: s rule: cluster_reach.induct)
  case (boot acc psh c b)
  then show ?case by (cases "a = b") (auto intro: sys_reach.start)
next
  case (stop acc psh c b)
  then show ?case by (cases "a = b") auto
next
  case (own acc psh c b s0 x p s')
  then show ?case by (cases "a = b") (auto intro: sys_reach.step)
next
  case (call acc psh c b req s0 reply s')
  have "s' = s0" using arg_cong [OF call(4), of snd] by simp
  then show ?case using call by (cases "a = b") auto
qed simp_all

section \<open>The address of a server\<close>

text \<open>What no step changes of the configuration; only the server list and its lock do change.\<close>

definition identity :: "setting \<Rightarrow> commonConf \<times> string" where
  "identity st = (CommonSetting st, LocalHost (GlobalSetting st))"

definition server_address :: "setting \<Rightarrow> string" where
  "server_address st = LocalHost (GlobalSetting st) @ '':'' @ RPCPort (CommonSetting st)"

definition crypto_key :: "setting \<Rightarrow> bytes" where
  "crypto_key st = string_bytes (CryptoKey (CommonSetting st))"

lemma identity_eq:
  assumes "identity st' = identity st"
  shows "IsCluster st' = IsCluster st" and "server_address st' = server_address st"
    and "crypto_key st' = crypto_key st"
  using assms by (simp_all add: identity_def IsCluster_def server_address_def crypto_key_def)

lemma Config_send:
  "send_client v s = Returns s' \<Longrightarrow> Config s' = Config s"
  "send_Connect c s = Returns s' \<Longrightarrow> Config s' = Config s"
  "send_DisConnect c s = Returns s' \<Longrightarrow> Config s' = Config s"
  by (auto simp: send_iff)

lemma Config_write: "write_json up k j s = (ok, s') \<Longrightarrow> Config s' = Config s"
  by (auto simp: write_json_iff split: if_splits)

lemma Config_Render: "Render up k mid u code m d s = (ok, s') \<Longrightarrow> Config s' = Config s"
  unfolding Render_def by (rule Config_write)

lemma Config_Run_open: "Run_open grow up r k now s = (x, s') \<Longrightarrow> Config s' = Config s"
  by (auto simp: Run_open_def Let_def dest: Config_Render split: option.splits if_splits prod.splits)

lemma Config_Run_greet: "Run_greet up c s = (ok, s') \<Longrightarrow> Config s' = Config s"
  by (auto simp: Run_greet_def ConnRender_def dest: Config_write split: option.splits if_splits prod.splits)

lemma Config_handle_message: "Config (handle_message up k receive s) = Config s"
  by (auto simp: handle_message_def write_json_def split: option.splits)

lemma Config_Read_round: "Read_round up c result s = Returns s' \<Longrightarrow> Config s' = Config s"
  by (auto simp: Read_round_def outcome_then_Returns reader_done_def Config_handle_message
      dest: Config_send split: option.splits read_result.splits if_splits)

lemma Config_notify_groups: "Config (notify_groups rs cl gs s) = Config s"
  by (induction rs cl gs s rule: notify_groups.induct) (simp_all add: SendMessage2Group_def Let_def)

lemma Config_Start: "Start pick rs s = Returns s' \<Longrightarrow> Config s' = Config s"
  by (auto simp: Start_def EventConnect_def EventDisconnect_def Let_def Config_notify_groups recv_event_def
      recv_Connect_def recv_DisConnect_def split: option.splits sum.splits if_splits list.splits)

lemma Config_with_outbox: "with_outbox f s = Returns s' \<Longrightarrow> Config s' = Config s"
  by (auto simp: with_outbox_def split: outcome.splits)

lemma Config_CloseLocalClient: "CloseLocalClient i sys addr s = Returns s' \<Longrightarrow> Config s' = Config s"
  by (auto simp: CloseLocalClient_def dest: Config_send split: sum.splits option.splits if_splits)

lemma Config_CloseClient: "CloseClient dial i sys addr s = Returns s' \<Longrightarrow> Config s' = Config s"
  by (auto simp: CloseClient_def dest: Config_CloseLocalClient Config_with_outbox
      split: fallible.splits if_splits)

lemma Config_SendMessage2Client: "SendMessage2Client r i u code m d s = (mid, Returns s') \<Longrightarrow> Config s' = Config s"
  by (auto simp: SendMessage2Client_def SendMessage2LocalClient_def Let_def dest: Config_send
      split: fallible.splits if_splits)

lemma Config_write_one: "write_one up info c s = Returns s' \<Longrightarrow> Config s' = Config s"
  by (auto simp: write_one_def dest!: Config_send Config_Render split: option.splits if_splits prod.splits)

lemma Config_ping_one: "ping_one up c s = Returns s' \<Longrightarrow> Config s' = Config s"
  by (auto simp: ping_one_def dest: Config_send split: option.splits if_splits prod.splits)

lemma identity_GetOnlineList: "GetOnlineList dial answer arrival sys grp s = Returns (j, s') \<or>
    GetOnlineList dial answer arrival sys grp s = Blocks (j, s') \<Longrightarrow>
    identity (Config s') = identity (Config s)"
  by (auto simp: GetOnlineList_def GetOnlineListBroadcast_def hold_lock_def identity_def Let_def
      split: option.splits if_splits)

lemma sys_step_identity:
  assumes "sys_step s a p s'"
  shows "identity (Config s') = identity (Config s)"
  using assms
proof (cases rule: sys_step.cases)
  case (online dial answer arrival sys grp j)
  then show ?thesis using identity_GetOnlineList by blast
next
  case (fetch info s1 order)
  then show ?thesis by (auto simp: recv_client_def split: list.splits)
next
  case (servers l)
  then show ?thesis by (simp add: identity_def)
qed (auto simp: SendMessage2Group_def SendMessage2System_def run_broadcast_def Let_def
    dest!: Config_send Config_Run_open Config_Run_greet Config_Read_round Config_Start Config_with_outbox
      Config_CloseClient Config_SendMessage2Client Config_write_one Config_ping_one split: if_splits)

section \<open>What a server of a cluster accepts\<close>

lemma ours_identity:
  assumes "identity st' = identity st"
  shows "ours st' i = ours st i"
proof -
  have eq: "IsAddrLocal st' = IsAddrLocal st" "CommonSetting st' = CommonSetting st"
    using assms by (simp_all add: IsAddrLocal_def [abs_def] identity_def)
  show ?thesis unfolding ours_def GetAddrInfoAndIsLocal_def eq by (rule refl)
qed

lemma ours_decrypts:
  assumes "ours st i"
  shows "Decrypt i (crypto_key st) = Ok (server_address st)"
proof -
  obtain addr h p where "GetAddrInfoAndIsLocal st i = Ok (addr, h, p, True)"
    using assms by (auto simp: ours_def split: fallible.splits)
  then show ?thesis unfolding GetAddrInfo_accepts by (simp add: crypto_key_def server_address_def)
qed

lemma ours_long:
  assumes "ours st i"
  shows "44 \<le> length i"
proof -
  obtain d where "b64_decode i = Some d" "32 \<le> length d"
    using Decrypt_accepts [OF ours_decrypts [OF assms]] by blast
  then show ?thesis using length_b64_decode [of i d] by presburger
qed

lemma send_in_cluster:
  assumes "IsCluster (Config s)"
  shows "snd (SendMessage2Client r i u code m d s) =
    (if ours (Config s) i then
       send_client \<lparr>ci_ClientId = i, ci_SendUserId = u, ci_MessageId = GenUUID r, ci_Code = code,
         ci_Msg = m, ci_Data = d\<rparr> s
     else case GetAddrInfoAndIsLocal (Config s) i of Panic \<Rightarrow> Panics s | _ \<Rightarrow> Returns s)"
  using assms
  by (auto simp: SendMessage2Client_def SendMessage2LocalClient_def Let_def ours_def split: fallible.split)

lemma step_accepts_ours:
  assumes "sys_step s a p s'" and "IsCluster (Config s)" and "info \<in> set a"
  shows "ours (Config s) (ci_ClientId info)"
  using assms(1)
proof (cases rule: sys_step.cases)
  case (send r i u code m d mid)
  then show ?thesis using assms(2,3) by (simp add: accepted_def split: if_splits)
qed (use assms(3) in simp_all)

lemma reach_accepts_ours:
  "sys_reach cfg acc psh s \<Longrightarrow> IsCluster cfg \<Longrightarrow>
     identity (Config s) = identity cfg \<and> (\<forall>info \<in> set acc. ours cfg (ci_ClientId info))"
proof (induction rule: sys_reach.induct)
  case start
  then show ?case by (simp add: server_init_def)
next
  case (step acc psh s a p s')
  then have "identity (Config s) = identity cfg" by blast
  then have "IsCluster (Config s)" and "ours (Config s) i = ours cfg i" for i
    using step.prems identity_eq(1) ours_identity by metis+
  then show ?case using step sys_step_identity step_accepts_ours by fastforce
qed

section \<open>A connection whose id is the server's own\<close>

lemma cluster_alone:
  "sys_reach (cfg a) acc psh s \<Longrightarrow> \<exists>acc' psh' c. cluster_reach cfg acc' psh' c \<and> Procs c a = Some s"
proof (induction rule: sys_reach.induct)
  case start
  show ?case using cluster_reach.boot [OF cluster_reach.none, where a = a and cfg = cfg] by fastforce
next
  case (step acc psh s x p s')
  then obtain acc' psh' c where "cluster_reach cfg acc' psh' c" "Procs c a = Some s" by blast
  from cluster_reach.own [OF this step(2)] show ?case by fastforce
qed

definition client_i :: "string \<Rightarrow> client" where
  "client_i i = NewClient i ''1.2.3.4:5'' i (Some 7) 100"

definition manager_i :: "string \<Rightarrow> manager" where
  "manager_i i = AddClient2SystemClient grow1 i ''1.2.3.4:5'' 0 (snd (new_client (client_i i) NewClientManager))"

definition server_i :: "setting \<Rightarrow> string \<Rightarrow> server" where
  "server_i st i = (server_init st)\<lparr>Manager := manager_i i, Readers := [0], Handlers := [(0, False)]\<rparr>"

lemma manager_i_facts:
  "table (manager_i i) = [i \<mapsto> fmupd ''1.2.3.4:5'' 0 fmempty]" "clients (manager_i i) 0 = client_i i"
  "next_client (manager_i i) = 1" "DisConnect (manager_i i) = []"
proof -
  let ?m = "snd (new_client (client_i i) NewClientManager)"
  have m: "clients ?m 0 = client_i i" "next_client ?m = 1" "table ?m = (\<lambda>_. None)"
    by (simp_all add: new_client_def table_def [abs_def]) (simp add: NewClientManager_def)
  have "refs_inv ?m"
    using new_client_inv [OF mgr_inv_init] mgr_invD(1) by blast
  then show "table (manager_i i) = [i \<mapsto> fmupd ''1.2.3.4:5'' 0 fmempty]"
    using table_AddClient [of ?m 0] m
    by (simp add: manager_i_def conns_after_add_def old_conns_def client_i_def)
  show "clients (manager_i i) 0 = client_i i" "next_client (manager_i i) = 1"
    using m by (simp_all add: manager_i_def)
  have "DisConnect ?m = []" by (simp add: new_client_def)
  then show "DisConnect (manager_i i) = []"
    by (simp add: manager_i_def AddClient2SystemClient_store Let_def)
qed

lemma server_i_reach:
  assumes "i \<noteq> []"
  shows "sys_reach st [] [] (server_i st i)"
proof -
  have "fresh_conn (server_init st) 7" by (simp add: fresh_conn_def server_init_def)
  moreover have "Run_open grow1 (\<lambda>_. True) \<lparr>form_systemId = i, form_token = [], RemoteAddr = ''1.2.3.4:5''\<rparr>
      (Some 7) 100 (server_init st) = (Some 0, (server_init st)\<lparr>Manager := manager_i i, Readers := [0]\<rparr>)"
    using assms by (simp add: Run_open_def system_id_of_def manager_i_def client_i_def new_client_def
        server_init_def Let_def)
  ultimately have "sys_step (server_init st) [] [] (server_i st i)"
    using sys_step.accept by (fastforce simp: server_i_def server_init_def)
  from sys_reach.step [OF sys_reach.start this] show ?thesis by simp
qed

lemma delivers_to_own_id:
  assumes "IsCluster st" and "ours st i"
  shows "\<exists>acc psh s. sys_reach st acc psh s \<and> 0 < next_client (Manager s) \<and>
    ClientId (client_of s 0) = i \<and> Socket (client_of s 0) = Some 7 \<and> data_frames (frames s 7) \<noteq> []"
proof -
  let ?s = "server_i st i"
  define info where "info = \<lparr>ci_ClientId = i, ci_SendUserId = [], ci_MessageId = GenUUID (\<lambda>_. 0),
    ci_Code = [], ci_Msg = [], ci_Data = None\<rparr>"
  let ?s1 = "?s\<lparr>ToClientChan := [info]\<rparr>"
  have id: "ci_ClientId info = i" by (simp add: info_def)
  have s: "Config ?s = st" "ToClientChan ?s = []" "Senders ?s = []" "frames ?s = (\<lambda>_. [])"
    "closed ?s = (\<lambda>_. False)" "Writing ?s = None" "Manager ?s = manager_i i"
    by (simp_all add: server_i_def server_init_def)
  have cl: "Socket (client_i i) = Some 7" "ClientId (client_i i) = i" by (simp_all add: client_i_def)
  have "SendMessage2Client (\<lambda>_. 0) i [] [] [] None ?s =
      (fst (SendMessage2Client (\<lambda>_. 0) i [] [] [] None ?s), Returns ?s1)"
    by (rule prod_eqI)
      (use assms in \<open>simp_all add: send_in_cluster s send_client_def chan_send_def cap_ToClientChan_def info_def\<close>)
  from sys_reach.step [OF server_i_reach sys_step.send [OF this]] ours_long [OF assms(2)]
  obtain acc psh where r1: "sys_reach st acc psh ?s1" by fastforce
  have old: "old_conns (Manager ?s1) i = fmupd ''1.2.3.4:5'' 0 fmempty"
    by (simp add: old_conns_def s manager_i_facts)
  have facts: "ToClientChan ?s1 = info # []" "Manager ?s1 = manager_i i" "Writing ?s1 = None"
    "frames ?s1 = (\<lambda>_. [])" "closed ?s1 = (\<lambda>_. False)"
    by (simp_all add: s)
  have live: "client_of ?s1 0 = client_i i" "\<not> dead (\<lambda>_. True) ?s1 0"
    by (simp_all add: client_of_def dead_def s manager_i_facts cl)
  have old: "old_conns (manager_i i) (ci_ClientId info) = fmupd ''1.2.3.4:5'' 0 fmempty"
    by (simp add: old_conns_def id s manager_i_facts)
  have one: "{c. \<exists>a. fmlookup (fmupd ''1.2.3.4:5'' 0 fmempty) a = Some c} = {0 :: cref}" by auto
  obtain cs s2 where cs: "set cs = {0}" and w: "WriteMessage (\<lambda>_. True) [''1.2.3.4:5''] ?s1 = Returns s2"
    and s2: "clients (Manager s2) = clients (manager_i i)" "next_client (Manager s2) = 1"
      "frames s2 = add_frame (frame_of info) (socks ?s1 (filter (\<lambda>c. \<not> dead (\<lambda>_. True) ?s1 c) cs)) (\<lambda>_. [])"
    using WriteMessage_effect [OF sys_reach_inv [OF r1] facts(1), of "[''1.2.3.4:5'']" "\<lambda>_. True"]
    unfolding facts old one
    by (auto simp: ranges_def cap_DisConnect_def map_len_upd manager_i_facts)
  have "sys_run ?s1 [] [] s2" by (rule WriteMessage_run [OF w facts(3)]) simp
  from sys_run_reach [OF this r1] have "sys_reach st acc psh s2" by simp
  moreover have "7 \<in> socks ?s1 (filter (\<lambda>c. \<not> dead (\<lambda>_. True) ?s1 c) cs)"
    using cs live cl by (auto simp: socks_def)
  then have "data_frames (frames s2 7) \<noteq> []" by (simp add: s2(3) add_frame_def)
  ultimately show ?thesis
    using s2(1,2) by (fastforce simp: client_of_def manager_i_facts cl)
qed

section \<open>Properties\<close>

text \<open>A server of a cluster writes data frames to connections under its own ids only.\<close>

lemma cluster_frames_ours:
  assumes "cluster_reach cfg acc psh c" and "Procs c a = Some s" and "IsCluster (cfg a)"
    and "cl < next_client (Manager s)" and "Socket (client_of s cl) = Some k"
  shows "subseq (data_frames (frames s k)) (due (ClientId (client_of s cl)) (acc a))"
    and "data_frames (frames s k) \<noteq> [] \<Longrightarrow> ours (cfg a) (ClientId (client_of s cl))"
proof -
  let ?i = "ClientId (client_of s cl)"
  have reach: "sys_reach (cfg a) (acc a) (psh a) s" by (rule cluster_isolated [OF assms(1,2)])
  have ids: "identity (Config s) = identity (cfg a)" "\<forall>info \<in> set (acc a). ours (cfg a) (ci_ClientId info)"
    using reach_accepts_ours [OF reach assms(3)] by blast+
  have "IsCluster (Config s)" using identity_eq(1) [OF ids(1)] assms(3) by simp
  then show sub: "subseq (data_frames (frames s k)) (due ?i (acc a))"
    using reach_delivered [OF reach assms(4,5)] by simp
  assume "data_frames (frames s k) \<noteq> []"
  then have "due ?i (acc a) \<noteq> []" using sub by auto
  then show "ours (cfg a) ?i" using ids(2) by (auto simp: due_def filter_empty_conv)
qed

text \<open>
  C11. In every run of a cluster, with all the calls between its servers, starts and stops, the
  data frames on a connection are frames of messages that its own server accepted for its
  client id, in order: a message accepted or broadcast by another server never gets there. And a
  connection whose id is shorter than 44 characters, such as every generated id, gets none.
\<close>

theorem cluster_frames:
  assumes "cluster_reach cfg acc psh c" and "Procs c a = Some s" and "IsCluster (cfg a)"
    and "cl < next_client (Manager s)" and "Socket (client_of s cl) = Some k"
  shows "subseq (data_frames (frames s k)) (due (ClientId (client_of s cl)) (acc a)) \<and>
    (length (ClientId (client_of s cl)) < 44 \<longrightarrow> data_frames (frames s k) = [])"
  using cluster_frames_ours [OF assms] ours_long [of "cfg a" "ClientId (client_of s cl)"] by force

theorem cluster_frames_witness:
  "\<exists>acc psh c. cluster_reach (\<lambda>_. two_servers) acc psh c \<and>
     Procs c ''10.0.0.1:7900'' = Some (server_i two_servers ''im'') \<and>
     data_frames (frames (server_i two_servers ''im'') 7) = []"
proof -
  let ?s = "server_i two_servers ''im''"
  have "sys_reach two_servers [] [] ?s" by (rule server_i_reach) simp
  then obtain acc psh c where c: "cluster_reach (\<lambda>_. two_servers) acc psh c" "Procs c ''10.0.0.1:7900'' = Some ?s"
    using cluster_alone [of "\<lambda>_. two_servers" "''10.0.0.1:7900''"] by blast
  have cl: "client_of ?s 0 = client_i ''im''" "0 < next_client (Manager ?s)"
    by (simp_all add: client_of_def server_i_def manager_i_facts)
  have "IsCluster two_servers" by (simp add: IsCluster_def two_servers_def)
  from cluster_frames [OF c this cl(2)] c show ?thesis by (auto simp: cl client_i_def)
qed

text \<open>
  C5. Which clients a message can reach in a cluster: on a server in cluster mode some run, with
  whatever other servers there are, brings a data frame to a connection with a client id exactly
  if the id decrypts under the common key to the server's own host and port. Nothing in the
  program hands such ids out.
\<close>

theorem cluster_reachable_ids:
  assumes "IsCluster (cfg a)"
  shows "(\<exists>acc psh c s cl k. cluster_reach cfg acc psh c \<and> Procs c a = Some s \<and>
      cl < next_client (Manager s) \<and> ClientId (client_of s cl) = i \<and>
      Socket (client_of s cl) = Some k \<and> data_frames (frames s k) \<noteq> []) \<longleftrightarrow>
    (\<exists>addr host port. GetAddrInfoAndIsLocal (cfg a) i = Ok (addr, host, port, True))"
    (is "?reached \<longleftrightarrow> ?own")
proof -
  have own: "?own \<longleftrightarrow> ours (cfg a) i" by (auto simp: ours_def split: fallible.splits)
  have "?reached" if id: "ours (cfg a) i"
  proof -
    obtain acc psh s where "sys_reach (cfg a) acc psh s" and s: "0 < next_client (Manager s)"
      "ClientId (client_of s 0) = i" "Socket (client_of s 0) = Some 7" "data_frames (frames s 7) \<noteq> []"
      using delivers_to_own_id [OF assms id] by blast
    then obtain acc' psh' c where "cluster_reach cfg acc' psh' c" "Procs c a = Some s"
      using cluster_alone [of cfg a] by blast
    with s show ?thesis by blast
  qed
  moreover have "ours (cfg a) i" if ?reached
    using that cluster_frames_ours(2) [where cfg = cfg and a = a] assms by metis
  ultimately show ?thesis unfolding own by (rule iffI [rotated])
qed

theorem cluster_reachable_ids_witness:
  "\<exists>i acc psh c s cl k. cluster_reach (\<lambda>_. two_servers) acc psh c \<and> Procs c ''10.0.0.1:7900'' = Some s \<and>
     cl < next_client (Manager s) \<and> ClientId (client_of s cl) = i \<and>
     Socket (client_of s cl) = Some k \<and> data_frames (frames s k) \<noteq> []"
proof -
  let ?key = "string_bytes ''Adba723b7fe06819''"
  obtain i where "Decrypt i ?key = Ok ''10.0.0.1:7900''"
    using encrypt_decrypt [of ?key "\<lambda>_. 0" "''10.0.0.1:7900''"] by auto
  then have "GetAddrInfoAndIsLocal two_servers i = Ok (''10.0.0.1:7900'', ''10.0.0.1'', ''7900'', True)"
    unfolding GetAddrInfo_accepts by (simp add: two_servers_def)
  then show ?thesis
    using cluster_reachable_ids [of "\<lambda>_. two_servers" "''10.0.0.1:7900''" i]
    by (simp add: IsCluster_def two_servers_def) blast
qed

end
