(* ===== verification/Startup.thy ===== *)
theory Startup
  imports RpcServer Discovery Routers
begin

text \<open>
  main.go and tools/log/log.go: how the process starts. Every step either goes on or panics,
  which ends the process; in a cluster the server registers itself in etcd, under its own
  address, before it asks for the others.
\<close>

section \<open>The directory of the log\<close>

text \<open>\<open>dir\<close> is the absolute directory of the program, the empty string where that fails.\<close>

definition getCurrentDirectory :: "string \<Rightarrow> string" where
  "getCurrentDirectory dir = replace_all (CHR 0x5C) (CHR ''/'') dir"

lemma getCurrentDirectory_no_backslash: "CHR 0x5C \<notin> set (getCurrentDirectory dir)"
  by (auto simp: getCurrentDirectory_def replace_all_def)

definition log_pattern :: "string \<Rightarrow> string \<Rightarrow> string" where
  "log_pattern dir kind = getCurrentDirectory dir @ ''/log/'' @ kind @ ''/'' @ ''%Y-%m-%d'' @ ''.log''"

section \<open>Registration\<close>

definition JoinHostPort :: "string \<Rightarrow> string \<Rightarrow> string" where
  "JoinHostPort host port =
     (if CHR '':'' \<in> set host \<or> CHR ''%'' \<in> set host then ''['' @ host @ '']:'' @ port else host @ '':'' @ port)"

text \<open>
  \<open>ClientDis\<close> of pkg/etcd/etcddis.go: the discovery's client, known by the endpoints it was made
  for; \<open>clientv3_New\<close> of the etcd library gives the error of making it, if there is one.
\<close>

record clientDis =
  dis_client :: "string list"

definition NewClientDis :: "(string list \<Rightarrow> string option) \<Rightarrow> string list \<Rightarrow> string + clientDis" where
  "NewClientDis clientv3_New addr =
     (case clientv3_New addr of None \<Rightarrow> Inr \<lparr>dis_client = addr\<rparr> | Some err \<Rightarrow> Inl err)"

text \<open>
  What a start meets outside: the lease client of the endpoints or an error, the put under a
  lease, the error of making the discovery's client, what etcd answers to it, and whether a
  port can be listened on.
\<close>

record 'e boot_env =
  boot_lease :: "string list \<Rightarrow> string + lease_client"
  boot_put :: "int \<Rightarrow> string \<Rightarrow> string \<Rightarrow> 'e \<Rightarrow> string option \<times> 'e"
  boot_dis :: "string list \<Rightarrow> string option"
  boot_services :: "'e \<Rightarrow> string + (string \<times> string option) list option"
  boot_listen :: "string \<Rightarrow> bool"

text \<open>
  What runs so far: \<open>boot_rpc\<close> is the port the gRPC goroutine was started for, \<open>boot_watching\<close> whether
  the watcher runs, \<open>boot_http\<close> the address of the HTTP server.
\<close>

record 'e boot =
  boot_setting :: setting
  boot_service :: 'e
  boot_rpc :: "string option"
  boot_watching :: bool
  boot_routes :: bool
  boot_ping :: bool
  boot_http :: "string option"

definition initRPCServer :: "'e boot \<Rightarrow> 'e boot outcome" where
  "initRPCServer b =
     (if IsCluster (boot_setting b) then
        Returns (b\<lparr>boot_rpc := Some ('':'' @ RPCPort (CommonSetting (boot_setting b)))\<rparr>)
      else Returns b)"

definition host_port :: "setting \<Rightarrow> string" where
  "host_port st = JoinHostPort (LocalHost (GlobalSetting st)) (RPCPort (CommonSetting st))"

definition registerServer :: "'e boot_env \<Rightarrow> 'e boot \<Rightarrow> 'e boot outcome" where
  "registerServer env b =
     (let st = boot_setting b
      in if \<not> IsCluster st then Returns b
         else
           (case NewServiceReg (boot_lease env) (Endpoints (EtcdSetting st)) 5 of
              Inl err \<Rightarrow> Panics b
            | Inr ser \<Rightarrow>
                (case PutService (boot_put env) ser (ETCD_SERVER_LIST @ host_port st) (host_port st) (boot_service b) of
                   (Ok _, e) \<Rightarrow>
                     (case NewClientDis (boot_dis env) (Endpoints (EtcdSetting st)) of
                        Inl err \<Rightarrow> Panics (b\<lparr>boot_service := e\<rparr>)
                      | Inr cli \<Rightarrow>
                          (case GetService (boot_services env e) st of
                             Returns (Ok addrs, watching, st1) \<Rightarrow>
                               Returns (b\<lparr>boot_service := e, boot_setting := st1, boot_watching := watching\<rparr>)
                           | Returns (_, watching, st1) \<Rightarrow> Panics (b\<lparr>boot_service := e, boot_setting := st1\<rparr>)
                           | Blocks (_, watching, st1) \<Rightarrow> Blocks (b\<lparr>boot_service := e, boot_setting := st1\<rparr>)
                           | Panics (_, watching, st1) \<Rightarrow> Panics (b\<lparr>boot_service := e, boot_setting := st1\<rparr>)))
                 | (_, e) \<Rightarrow> Panics (b\<lparr>boot_service := e\<rparr>))))"

text \<open>\<open>ListenAndServe\<close> serves until it fails, which is a panic; here it is only whether it can start.\<close>

definition start_http :: "'e boot_env \<Rightarrow> 'e boot \<Rightarrow> 'e boot outcome" where
  "start_http env b =
     (let addr = '':'' @ HttpPort (CommonSetting (boot_setting b))
      in if boot_listen env addr then Returns (b\<lparr>boot_http := Some addr\<rparr>) else Panics b)"

definition main :: "'e boot_env \<Rightarrow> 'e boot \<Rightarrow> 'e boot outcome" where
  "main env b =
     outcome_then (initRPCServer b)
       (\<lambda>b1. outcome_then (registerServer env b1)
          (\<lambda>b2. start_http env (b2\<lparr>boot_routes := True, boot_ping := True\<rparr>)))"

definition boot_init :: "setting \<Rightarrow> 'e \<Rightarrow> 'e boot" where
  "boot_init st e =
     \<lparr>boot_setting = st, boot_service = e, boot_rpc = None, boot_watching = False, boot_routes = False,
      boot_ping = False, boot_http = None\<rparr>"

section \<open>Facts\<close>

lemma main_single:
  assumes "\<not> IsCluster st" and "boot_listen env ('':'' @ HttpPort (CommonSetting st))"
  shows "main env (boot_init st e) =
    Returns ((boot_init st e)\<lparr>boot_routes := True, boot_ping := True, boot_http := Some ('':'' @ HttpPort (CommonSetting st))\<rparr>)"
  using assms by (simp add: main_def initRPCServer_def registerServer_def start_http_def boot_init_def Let_def)

text \<open>
  A start in a cluster that gets through has registered the server's own address; with a service
  that answers what was put, the address is in the list the process starts with.
\<close>

lemma main_cluster_registers:
  assumes "IsCluster st" and "main env (boot_init st e) = Returns b"
  shows "\<exists>lease. boot_put env lease (ETCD_SERVER_LIST @ host_port st) (host_port st) e = (None, boot_service b) \<and>
    boot_rpc b = Some ('':'' @ RPCPort (CommonSetting st)) \<and> boot_watching b \<and> boot_routes b \<and> boot_ping b"
  using assms
  by (auto simp: main_def initRPCServer_def registerServer_def start_http_def boot_init_def Let_def PutService_def
      GetService_def outcome_then_Returns
      split: if_splits sum.splits fallible.splits prod.splits option.splits outcome.splits)

lemma host_port_own:
  assumes "CHR '':'' \<notin> set (LocalHost (GlobalSetting st))" and "CHR ''%'' \<notin> set (LocalHost (GlobalSetting st))"
  shows "host_port st = LocalHost (GlobalSetting st) @ '':'' @ RPCPort (CommonSetting st)"
  using assms by (simp add: host_port_def JoinHostPort_def)

end
