(* ===== verification/LogFiles.thy ===== *)
theory LogFiles
  imports Startup Json "HOL-Library.Char_ord" "HOL-Library.List_Lexorder"
begin

text \<open>
  tools/log/log.go: which line of the log goes to which file. \<open>Setup\<close> installs a hook of the
  vendored library lfshook with the JSON formatter of the vendored logrus; of both it is what
  a line passes through that is modelled: the level, the writer of the level, the fields.
  Opening and rotating the files is the library's; a file is known by how it was configured.
\<close>

section \<open>Levels\<close>

datatype level = PanicLevel | FatalLevel | ErrorLevel | WarnLevel | InfoLevel | DebugLevel | TraceLevel

fun level_rank :: "level \<Rightarrow> nat" where
  "level_rank PanicLevel = 0" | "level_rank FatalLevel = 1" | "level_rank ErrorLevel = 2"
| "level_rank WarnLevel = 3" | "level_rank InfoLevel = 4" | "level_rank DebugLevel = 5"
| "level_rank TraceLevel = 6"

fun level_String :: "level \<Rightarrow> string" where
  "level_String PanicLevel = ''panic''" | "level_String FatalLevel = ''fatal''"
| "level_String ErrorLevel = ''error''" | "level_String WarnLevel = ''warning''"
| "level_String InfoLevel = ''info''" | "level_String DebugLevel = ''debug''"
| "level_String TraceLevel = ''trace''"

definition IsLevelEnabled :: "level \<Rightarrow> level \<Rightarrow> bool" where
  "IsLevelEnabled logger_level level \<longleftrightarrow> level_rank level \<le> level_rank logger_level"

section \<open>Setup\<close>

record rotate_logs =
  rl_pattern :: string
  rl_LinkName :: string
  rl_MaxAge_hours :: nat

record json_formatter =
  TimestampFormat :: string
  PrettyPrint :: bool
  FieldMap :: "(string, string) fmap"

text \<open>The writers of the levels; a writer is nil where its file could not be set up.\<close>

record lfs_hook =
  writers :: "level \<Rightarrow> rotate_logs option option"
  formatter :: json_formatter

text \<open>
  The error of a file that cannot be set up is only logged. \<open>rotate_New\<close> of the library is an
  argument.
\<close>

definition log_Setup :: "(rotate_logs \<Rightarrow> bool) \<Rightarrow> string \<Rightarrow> setting \<Rightarrow> lfs_hook" where
  "log_Setup rotate_New dir st =
     (let new = (\<lambda>r. if rotate_New r then Some r else None);
          writer = new \<lparr>rl_pattern = log_pattern dir ''info'', rl_LinkName = ''log.log'', rl_MaxAge_hours = 48\<rparr>;
          errorWriter = new \<lparr>rl_pattern = log_pattern dir ''error'', rl_LinkName = ''error.log'', rl_MaxAge_hours = 48\<rparr>
      in \<lparr>writers = (\<lambda>level. case level of
             DebugLevel \<Rightarrow> Some writer | InfoLevel \<Rightarrow> Some writer | WarnLevel \<Rightarrow> Some writer
           | ErrorLevel \<Rightarrow> Some errorWriter | FatalLevel \<Rightarrow> Some writer | PanicLevel \<Rightarrow> Some writer
           | TraceLevel \<Rightarrow> None),
          formatter = \<lparr>TimestampFormat = ''2006-01-02 15:04:05'', PrettyPrint = False,
            FieldMap = fmupd ''host'' (LocalHost (GlobalSetting st)) fmempty\<rparr>\<rparr>)"

section \<open>The JSON formatter\<close>

text \<open>
  A line: the fields that \<open>WithFields\<close> gave it, the message, the time as a function of the layout,
  the caller (function, file and line), and the error text of logrus itself.
\<close>

record log_entry =
  entry_Data :: "(string, json) fmap"
  entry_Level :: level
  entry_Message :: string
  entry_Time :: "string \<Rightarrow> string"
  entry_Caller :: "(string \<times> string) option"
  entry_err :: string

definition resolve :: "(string, string) fmap \<Rightarrow> string \<Rightarrow> string" where
  "resolve fm key = map_get key fm key"

text \<open>A field of the line that has the name of a standard field is renamed, or copied.\<close>

definition clash :: "bool \<Rightarrow> string \<Rightarrow> (string, json) fmap \<Rightarrow> (string, json) fmap" where
  "clash del key data =
     (case fmlookup data key of
        None \<Rightarrow> data
      | Some v \<Rightarrow>
          (let d = fmupd (''fields.'' @ key) v data in if del then fmdrop key d else d))"

definition standard_keys :: "string list" where
  "standard_keys = [''time'', ''msg'', ''level'', ''logrus_error'']"

definition caller_keys :: "string list" where
  "caller_keys = [''func'', ''file'']"

definition prefixFieldClashes :: "(string, string) fmap \<Rightarrow> bool \<Rightarrow> (string, json) fmap \<Rightarrow> (string, json) fmap" where
  "prefixFieldClashes fm reportCaller data =
     (let d = fold (clash True \<circ> resolve fm) standard_keys data
      in if reportCaller then fold (clash False \<circ> resolve fm) caller_keys d else d)"

definition put_nonempty :: "string \<Rightarrow> string \<Rightarrow> (string, json) fmap \<Rightarrow> (string, json) fmap" where
  "put_nonempty key v data = (if v \<noteq> [] then fmupd key (JStr v) data else data)"

definition Format_fields :: "json_formatter \<Rightarrow> log_entry \<Rightarrow> (string, json) fmap" where
  "Format_fields f e =
     (let key = resolve (FieldMap f);
          d0 = prefixFieldClashes (FieldMap f) (entry_Caller e \<noteq> None) (entry_Data e);
          d1 = put_nonempty (key ''logrus_error'') (entry_err e) d0;
          d2 = fmupd (key ''time'') (JStr (entry_Time e (TimestampFormat f))) d1;
          d3 = fmupd (key ''msg'') (JStr (entry_Message e)) d2;
          d4 = fmupd (key ''level'') (JStr (level_String (entry_Level e))) d3
      in case entry_Caller e of
           None \<Rightarrow> d4
         | Some (func, place) \<Rightarrow> put_nonempty (key ''file'') place (put_nonempty (key ''func'') func d4))"

text \<open>A map is marshalled with its keys in order.\<close>

definition fields_json :: "(string, json) fmap \<Rightarrow> json" where
  "fields_json d = JObj (map (\<lambda>k. (k, map_get JNull d k)) (sorted_list_of_fset (fmdom d)))"

definition Format_line :: "json_formatter \<Rightarrow> log_entry \<Rightarrow> string" where
  "Format_line f e = json_text (fields_json (Format_fields f e)) @ [CHR 0x0A]"

section \<open>Where a line goes\<close>

text \<open>
  A call of the logger on a level that is enabled fires the hook: the file and the text, or
  nothing where the level has no writer; writing to a nil writer panics.
\<close>

definition log_call :: "level \<Rightarrow> lfs_hook \<Rightarrow> log_entry \<Rightarrow> (rotate_logs \<times> string) option outcome" where
  "log_call logger_level hook e =
     (if IsLevelEnabled logger_level (entry_Level e) then
        (case writers hook (entry_Level e) of
           None \<Rightarrow> Returns None
         | Some None \<Rightarrow> Panics None
         | Some (Some w) \<Rightarrow> Returns (Some (w, Format_line (formatter hook) e)))
      else Returns None)"

section \<open>Facts\<close>

text \<open>With the level that logrus has unless it is set, and files that could be set up.\<close>

lemma log_destinations:
  assumes "\<And>r. rotate_New r"
  shows "log_call InfoLevel (log_Setup rotate_New dir st) e =
    Returns (if level_rank (entry_Level e) > level_rank InfoLevel then None
      else Some (if entry_Level e = ErrorLevel
          then \<lparr>rl_pattern = log_pattern dir ''error'', rl_LinkName = ''error.log'', rl_MaxAge_hours = 48\<rparr>
          else \<lparr>rl_pattern = log_pattern dir ''info'', rl_LinkName = ''log.log'', rl_MaxAge_hours = 48\<rparr>,
        Format_line (formatter (log_Setup rotate_New dir st)) e))"
  using assms
  by (cases "entry_Level e") (simp_all add: log_call_def IsLevelEnabled_def log_Setup_def Let_def)

text \<open>A key of the field map that is no standard field is never looked up.\<close>

lemma resolve_host:
  "key \<noteq> ''host'' \<Longrightarrow> resolve (fmupd ''host'' v fmempty) key = key" "resolve fmempty key = key"
  by (simp_all add: resolve_def)

lemma host_not_logged:
  "Format_line (formatter (log_Setup rotate_New dir st)) e =
   Format_line \<lparr>TimestampFormat = ''2006-01-02 15:04:05'', PrettyPrint = False, FieldMap = fmempty\<rparr> e"
  by (simp add: Format_line_def Format_fields_def prefixFieldClashes_def resolve_host log_Setup_def Let_def standard_keys_def caller_keys_def
      split: option.split prod.split)

lemma clash_other: "k \<noteq> key \<Longrightarrow> k \<noteq> ''fields.'' @ key \<Longrightarrow> fmlookup (clash del key d) k = fmlookup d k"
  by (simp add: clash_def Let_def split: option.split)

lemma clash_none: "key |\<notin>| fmdom d \<Longrightarrow> clash del key d = d"
  by (simp add: clash_def fmdom_notD)

lemma put_nonempty_other: "k \<noteq> key \<Longrightarrow> fmlookup (put_nonempty key v d) k = fmlookup d k"
  by (simp add: put_nonempty_def)

lemma fold_clash_other:
  "(\<And>key. key \<in> set keys \<Longrightarrow> k \<noteq> key \<and> k \<noteq> ''fields.'' @ key) \<Longrightarrow>
   fmlookup (fold (clash del) keys d) k = fmlookup d k"
  by (induction keys arbitrary: d) (simp_all add: clash_other)

lemma prefix_other:
  assumes "\<And>key. key \<in> set standard_keys \<union> set caller_keys \<Longrightarrow> k \<noteq> key \<and> k \<noteq> ''fields.'' @ key"
  shows "fmlookup (prefixFieldClashes fmempty caller d) k = fmlookup d k"
proof -
  have "clash del \<circ> resolve fmempty = clash del" for del by (simp add: fun_eq_iff resolve_host)
  then show ?thesis
    using assms by (simp add: prefixFieldClashes_def Let_def fold_clash_other)
qed

text \<open>
  A line holds the fields it was given and the standard ones, and nothing else: so no host,
  unless the call names it.
\<close>

lemma Format_field:
  assumes "\<And>key. key \<in> set standard_keys \<union> set caller_keys \<Longrightarrow> k \<noteq> key \<and> k \<noteq> ''fields.'' @ key"
  shows "fmlookup (Format_fields \<lparr>TimestampFormat = layout, PrettyPrint = False, FieldMap = fmempty\<rparr> e) k =
    fmlookup (entry_Data e) k"
proof -
  have "set standard_keys = {''time'', ''msg'', ''level'', ''logrus_error''}" "set caller_keys = {''func'', ''file''}"
    unfolding standard_keys_def caller_keys_def by (simp_all only: list.set)
  then have k: "k \<noteq> ''time''" "k \<noteq> ''msg''" "k \<noteq> ''level''" "k \<noteq> ''logrus_error''" "k \<noteq> ''func''" "k \<noteq> ''file''"
    using assms by blast+
  show ?thesis
    using prefix_other [OF assms, of "entry_Caller e \<noteq> None" "entry_Data e"]
    by (cases "entry_Caller e")
      (simp_all add: Format_fields_def Let_def resolve_host put_nonempty_other k k [symmetric] split: prod.split)
qed

end
