(* ===== verification/Hooks.thy ===== *)
theory Hooks
  imports GoStrings
begin

text \<open>
  hooks/hooks.go: the log hook that records where a line was logged. What \<open>runtime.Caller\<close> tells
  of the stack is an input, a list of files and lines from the innermost frame outwards; the
  levels of the logging library are a type of their own.
\<close>

record 'l contextHook =
  hook_Field :: string
  hook_Skip :: nat
  hook_levels :: "'l list"

text \<open>\<open>AllLevels\<close>, of the library, is an argument.\<close>

definition NewContextHook :: "'l list \<Rightarrow> 'l list \<Rightarrow> 'l contextHook" where
  "NewContextHook AllLevels levels =
     \<lparr>hook_Field = ''line'', hook_Skip = 5, hook_levels = (if length levels = 0 then AllLevels else levels)\<rparr>"

text \<open>The levels given to the hook are not looked at.\<close>

definition Levels :: "'l list \<Rightarrow> 'l contextHook \<Rightarrow> 'l list" where
  "Levels AllLevels hook = AllLevels"

section \<open>The path of a file\<close>

definition slash :: char where "slash = CHR ''/''"

text \<open>The loop runs down to index 1 and cuts after the second slash from the end.\<close>

fun cut_path :: "string \<Rightarrow> nat \<Rightarrow> nat \<Rightarrow> string" where
  "cut_path file 0 n = file"
| "cut_path file (Suc i) n =
     (if file ! Suc i = slash then
        (if Suc n \<ge> 2 then drop (Suc i + 1) file else cut_path file i (Suc n))
      else cut_path file i n)"

definition getCaller :: "(string \<times> int) list \<Rightarrow> nat \<Rightarrow> string \<times> int" where
  "getCaller stack skip =
     (if skip < length stack then
        (let (file, line) = stack ! skip in (cut_path file (length file - 1) 0, line))
      else ([], 0))"

text \<open>A slash at index 0 is never counted; after the first byte at most one is left.\<close>

lemma cut_path_suffix: "\<exists>p. file = p @ cut_path file i n"
  by (induction i arbitrary: n) (auto intro: append_take_drop_id [symmetric])

lemma cut_path_slashes:
  "i < length file \<Longrightarrow> length (filter ((=) slash) (drop (Suc i) file)) = n \<Longrightarrow> n \<le> 1 \<Longrightarrow>
   length (filter ((=) slash) (tl (cut_path file i n))) \<le> 1"
proof (induction i arbitrary: n)
  case (Suc i)
  have drop: "drop (Suc i) file = file ! Suc i # drop (Suc (Suc i)) file"
    using Suc.prems(1) by (simp add: Cons_nth_drop_Suc)
  show ?case
  proof (cases "file ! Suc i = slash \<and> n = 1")
    case True
    then have "cut_path file (Suc i) n = drop (Suc (Suc i)) file" by simp
    moreover have "length (filter P (tl xs)) \<le> length (filter P xs)" for P and xs :: string
      by (cases xs) simp_all
    ultimately show ?thesis using Suc.prems(2,3) by (metis order_trans)
  next
    case False
    then have "n = 0" if "file ! Suc i = slash" using Suc.prems(3) that by simp
    then show ?thesis
      using Suc.IH [of "if file ! Suc i = slash then 1 else n"] Suc.prems by (auto simp: drop)
  qed
qed (simp add: drop_Suc)

lemma getCaller_path:
  assumes "skip < length stack"
  shows "\<exists>p. fst (stack ! skip) = p @ fst (getCaller stack skip)"
    and "length (filter ((=) slash) (tl (fst (getCaller stack skip)))) \<le> 1"
proof -
  obtain path line where f: "stack ! skip = (path, line)" by fastforce
  then show "\<exists>p. fst (stack ! skip) = p @ fst (getCaller stack skip)"
    using assms cut_path_suffix by (simp add: getCaller_def)
  show "length (filter ((=) slash) (tl (fst (getCaller stack skip)))) \<le> 1"
    using assms f cut_path_slashes [of "length path - 1" path 0] by (cases path) (simp_all add: getCaller_def)
qed

section \<open>The caller outside the logging library\<close>

fun find_caller :: "(nat \<Rightarrow> string \<times> int) \<Rightarrow> nat list \<Rightarrow> string \<times> int \<Rightarrow> string \<times> int" where
  "find_caller get [] found = found"
| "find_caller get (k # ks) found =
     (if take 6 (fst (get k)) \<noteq> ''logrus'' then get k else find_caller get ks (get k))"

definition findCaller_frame :: "(string \<times> int) list \<Rightarrow> nat \<Rightarrow> string \<times> int" where
  "findCaller_frame stack skip = find_caller (getCaller stack) [skip..<skip + 10] ([], 0)"

definition line_text :: "int \<Rightarrow> string" where
  "line_text n = (if n < 0 then CHR ''-'' # itoa (nat (- n)) else itoa (nat n))"

definition findCaller :: "(string \<times> int) list \<Rightarrow> nat \<Rightarrow> string" where
  "findCaller stack skip =
     (case findCaller_frame stack skip of (file, line) \<Rightarrow> file @ '':'' @ line_text line)"

text \<open>\<open>Fire\<close> sets one field of the entry.\<close>

definition Fire :: "(string \<times> int) list \<Rightarrow> 'l contextHook \<Rightarrow> (string \<Rightarrow> string option) \<Rightarrow> string \<Rightarrow> string option" where
  "Fire stack hook data = data(hook_Field hook \<mapsto> findCaller stack (hook_Skip hook))"

text \<open>
  Ten frames are looked at. Where the stack ends first the search ends too: a frame that is not
  there has the empty name, which does not start with logrus.
\<close>

lemma findCaller_end:
  assumes "\<And>k. skip \<le> k \<Longrightarrow> k < length stack \<Longrightarrow> take 6 (fst (getCaller stack k)) = ''logrus''"
    and "length stack < skip + 10" and "skip \<le> length stack"
  shows "findCaller_frame stack skip = ([], 0)"
proof -
  have split: "[skip..<skip + 10] = [skip..<length stack] @ [length stack..<skip + 10]"
    using assms(2,3) upt_add_eq_append [of skip "length stack" "skip + 10 - length stack"]
    by (simp del: upt_Suc)
  have "find_caller get (ks @ js) found = find_caller get js (if ks = [] then found else get (last ks))"
    if "\<forall>k \<in> set ks. take 6 (fst (get k)) = ''logrus''" for get ks js found
    using that by (induction ks arbitrary: found) auto
  then have "findCaller_frame stack skip = find_caller (getCaller stack) [length stack..<skip + 10]
      (if [skip..<length stack] = [] then ([], 0) else getCaller stack (last [skip..<length stack]))"
    unfolding findCaller_frame_def split using assms(1) by simp
  also have "[length stack..<skip + 10] = length stack # [Suc (length stack)..<skip + 10]"
    using assms(2) by (simp add: upt_conv_Cons del: upt_Suc)
  finally show ?thesis by (simp add: getCaller_def)
qed

end
