(* ===== verification/Spec2Isabelle.thy ===== *)
theory Spec2Isabelle
  imports ManagerSpec LocalSend Heartbeat Discovery WriteRace Frames Cluster LogFiles Hooks
begin

text \<open>
  A verification development for go-websocket: a push server in Go. Browsers and apps hold
  websocket connections to it (\<open>/ws\<close>); business systems send messages to them over HTTP
  (\<open>/api/...\<close>); several servers can form a cluster, with etcd as their directory and gRPC between
  them.

  \<^bold>\<open>The program.\<close> A request to \<open>/ws\<close> runs \<open>Run\<close> of servers/connect.go: it upgrades the connection, makes a
  \<open>Client\<close>, puts it into the tables of the \<open>ClientManager\<close>, starts its read loop and queues a connect
  event. A request to \<open>/api\<close> goes through routers/routers.go and the access log to a controller of
  api/, which decodes and validates its body and calls the package servers. Messages travel over
  the buffered channel \<open>ToClientChan\<close> to the goroutine \<open>WriteMessage\<close>, which looks the client id up and
  writes to each of its connections; a write or a ping that fails, and a close frame, queue a
  disconnect event. The goroutine \<open>Start\<close> takes the events from their two channels. In a cluster
  rpcclient.go calls the other servers of the list that pkg/etcd maintains, rpcserver.go answers.

  \<^bold>\<open>Theories and sources.\<close>

  \<^item> \<open>Prelude\<close>: fact collections, Go's maps as finite maps, results of code that may fail, panic
    or block; generic lemmas. \<open>GoStrings\<close>, \<open>GoSlice\<close>, \<open>Json\<close>: what the program uses of the standard
    library's strings, of slices that share backing arrays, and of encoding/json.
  \<^item> \<open>Define\<close>: define/. \<open>Setting\<close>: pkg/setting/setting.go.
  \<^item> \<open>Aes\<close>, \<open>Base64\<close>, \<open>Codec\<close>, \<open>Crypto\<close>: tools/crypto/crypto.go, down to the block cipher and the base64
    alphabet; the locale \<open>codec\<close> of an encoder and its decoder is interpreted by each layer, and the
    round trip of \<open>Encrypt\<close> and \<open>Decrypt\<close> is their composition. \<open>Util\<close>: tools/util/util.go.
  \<^item> \<open>Client\<close>, \<open>ClientManager\<close>: servers/client.go (the struct) and servers/clientmanager.go (the tables).
    Pointers are numbers into a heap of clients and of inner maps, member lists are slice headers
    into an arena. \<open>ManagerFacts\<close> has their properties; \<open>ManagerSpec\<close> a specification of plain maps and
    lists that the operations refine, and the deletion loop as a function on lists.
  \<^item> \<open>Rpc\<close>: servers/rpcclient.go. \<open>RpcServer\<close>: servers/rpcserver.go.
  \<^item> \<open>Server\<close>: servers/server.go, connect.go, the read loop of client.go and the events of
    clientmanager.go: the record \<open>server\<close> holds the manager, the channels, the configuration, what was
    written to each connection, and where each goroutine stands. The locale \<open>channel\<close> is interpreted
    by the three channels. \<open>ServerInv\<close> makes the process a step relation (\<open>sys_step\<close>, \<open>sys_reach\<close>) and
    proves its invariant; \<open>ServerHist\<close> relates what was accepted, queued and written over a run;
    \<open>ServerFacts\<close> has the properties; \<open>LocalSend\<close> those of sending to local groups and systems,
    \<open>Heartbeat\<close> that of the ping timer, \<open>ReadLoop\<close> that of the loop \<open>Read\<close> of client.go, \<open>Gone\<close> what
    later steps leave alone of a closed connection. \<open>WriteRace\<close> takes the writes to a websocket
    connection apart into their beginning and their end (\<open>race_reach\<close>).
  \<^item> \<open>Etcd\<close>: pkg/etcd, the key-value client, registration and discovery. \<open>Discovery\<close>: its properties.
  \<^item> \<open>Http\<close>: api/controller.go, and the state, requests and replies of the HTTP interface. \<open>Account\<close>:
    servers/account.go and routers/middleware.go. \<open>Api\<close>: the eight controllers. \<open>Routers\<close>:
    routers/routers.go. \<open>ApiFacts\<close>: the properties of the interface as a whole.
  \<^item> \<open>HttpRuns\<close> puts the interface and the process together (\<open>program_reach\<close>): requests that return, panic
    or wait, a request to several clients also one client at a time, and the steps of the
    goroutines in between; what a handler does to the server is a run of its steps, and accepts
    only messages that the request asks for (\<open>asked_by\<close>). \<open>Delivery\<close>: messages from end to end. \<open>Work\<close>: the steps that need nothing new from outside
    (\<open>work_step\<close>), and that they end. \<open>Frames\<close>: what a websocket connection can get to see.
    \<open>Cluster\<close>: several servers and the calls under way between them (\<open>cluster_reach\<close>).
  \<^item> \<open>Startup\<close>: main.go, and the paths of tools/log/log.go. \<open>LogFiles\<close>: the rest of tools/log/log.go, with
    what the vendored logrus and lfshook make of a line. \<open>Hooks\<close>: hooks/hooks.go.

  \<^bold>\<open>How Go is modelled.\<close> Each function is a HOL function of the same name; one that mutates state takes and
  returns it. An error result is \<open>Err\<close> or \<open>Inl\<close>, a panic is a value (\<open>Panic\<close>, \<open>Panicked\<close>, \<open>Panics\<close>), and
  waiting on a full or empty channel or on a lock that is never given back is \<open>Blocks\<close>. A goroutine
  is a field of the state that a step consumes. Strings are lists of bytes; \<open>int\<close> values that only
  travel are \<open>int\<close>, the code of a gRPC request is a 32-bit word, and the connect time a 64-bit word.
  What the language leaves open is an argument: the order in which Go ranges over a map, the
  capacity that \<open>append\<close> chooses, which ready channel \<open>select\<close> takes. So is what comes from outside:
  random bytes, the clock, whether the network lets a write through (\<open>up\<close>), whether a dial gives
  a connection, what a peer answers, in which order answers arrive, what etcd holds and delivers.
  Where a theorem needs etcd to behave, \<open>lawful_kv\<close> and \<open>snapshot\<close> say how, and the witnesses give
  a service that does. All recursion is structural or has a measure; no fuel is used, the loops of
  goroutines are steps with a lexicographic measure (\<open>work_left\<close>), and a call that never returns is
  a result of its own (\<open>None\<close> of \<open>recv_lists\<close>, \<open>Blocks\<close>).

  \<^bold>\<open>What is shown.\<close>

  \<^item> The tables (\<open>ManagerFacts\<close>): one invariant that every operation keeps; what adding and deleting
    a client does to lookups, counts, accounts, groups and systems. Several operations do not do
    what their names and tests say: deletion removes nothing from the connection table, an app
    counts twice, deleting a member drops those after it. \<open>ManagerSpec\<close>: after any sequence of
    operations, whatever the heap looks like, the queries answer as the specification does; what
    the deletion loop computes on every list, and when it panics.
  \<^item> The process (\<open>ServerFacts\<close>): along every run, messages reach a connection at most once and in the
    order of the channel, which on a single server need not be the order they were sent in;
    no group ever has a member; what one round of \<open>WriteMessage\<close> and one tick of the heartbeat
    (\<open>Heartbeat\<close>) do; what a read loop comes to on any reads (\<open>ReadLoop\<close>); that a client whose end was
    handled fails in every later state (\<open>Gone\<close>). Up to the first overlap of two writes to one
    connection it makes no difference that writes take time, and exactly which overlaps, all of
    them panics of the library, can happen (\<open>WriteRace\<close>). The goroutines
    finish their work under every schedule and do not deadlock (\<open>Work\<close>); every frame is of one of
    four kinds, data frames only on connections of their client id (\<open>Frames\<close>).
  \<^item> The whole (\<open>HttpRuns\<close>, \<open>Delivery\<close>): the facts about runs of the server hold of the program with its
    HTTP interface; a message gets from its request to the connections of its client id, and
    nothing gets to a connection that no request asked for.
  \<^item> Local sending (\<open>LocalSend\<close>): who gets a message for a group whose list has vanished members.
  \<^item> Between servers (\<open>Rpc\<close>, \<open>RpcServer\<close>, \<open>Discovery\<close>): which calls a broadcast makes; when the online
    list hangs and what it then holds up; that it is empty otherwise; when the server list is the
    one of etcd and when it is not. \<open>Cluster\<close>: along every run of a cluster each server is in a
    state of a run of its own, whatever the others call; which client ids a message can reach at
    all: those that decrypt to the address of their server, which nothing hands out.
  \<^item> Ids (\<open>Crypto\<close>, \<open>Util\<close>): encryption round trip, where decryption panics and what it accepts; a client id
    leads back to its server; message ids; colliding group keys.
  \<^item> The HTTP interface (\<open>Account\<close>, \<open>ApiFacts\<close>): registration and token check in both modes; a failed
    request changes nothing; no route depends on who is registered; which successes are empty.

  \<^bold>\<open>Not modelled.\<close> Vendored libraries and the generated gRPC code (servers/pb), except the UUID
  that message ids are cut from and the log formatter; which lines the program logs, but for the
  access log; the rotation of log files; headers and sizes of websocket frames. Locks do not appear where each
  holder gives them back without waiting: every operation of the manager is one step. Most of them
  hold one lock from beginning to end; \<open>AddClient2SystemClient\<close>, \<open>DelClient\<close> and \<open>AddClient2LocalGroup\<close>
  take several one after the other, and what other goroutines do between these sections is not
  represented. A handler is one step too, but for the connect handler (three steps), the two
  steps of \<open>Register\<close>, and a request to several clients, each of which may be a step. The ticker
  ranges over inner maps that it shares with the table (\<open>AllClient\<close>) without a lock, and Go may
  end the process where one of them is changed meanwhile; here a ping is a step for one client.
  A write to a websocket connection is one step except in \<open>WriteRace\<close>, which looks only at the flag
  of the library, up to the first overlap; what two writers that overlap do to the connection's
  buffer is not modelled, nor that a connection on which a write failed refuses all later ones
  before the flag. Time does not pass: a timer is a step that may happen
  at any time, and a lease does not run out. \<open>ListenAndServe\<close> and \<open>Serve\<close> are started, and
  what they do is the handlers.
\<close>

end
